(* ===== verification/Budlum_Prelude.thy ===== *)
theory Budlum_Prelude
  imports Main "HOL-Library.Word" "HOL-Library.List_Lexorder" "HOL-Library.Product_Lexorder"
begin

text \<open>
  The shared vocabulary of the development: the machine types of the Rust sources, the
  standard library's saturating arithmetic and little-endian encodings, the shape of a
  fallible operation on mutable state, and reachable states with their invariant rule.
\<close>

named_theorems rust_arith
named_theorems inv_intros
named_theorems question_mark

subsection \<open>Machine types\<close>

type_synonym u8 = "8 word"
type_synonym u32 = "32 word"
type_synonym u64 = "64 word"
type_synonym u128 = "128 word"

type_synonym bytes = "u8 list"

text \<open>
  \<open>[u8; 32]\<close> is a byte list. Nothing in the sources depends on the length of such an
  array except through the hash that produced it, and the encodings below prefix every
  field with its length, so no lemma needs the length as a hypothesis.
\<close>

type_synonym hash32 = bytes
type_synonym address = bytes
type_synonym domain_id = u32

text \<open>
  \<open>fn op(&mut self, ..) -> Result<A, E>\<close>: the result and the state the call leaves
  behind. Rust keeps what was written before an early \<open>Err\<close> return, so the state is
  part of both outcomes.
\<close>

type_synonym ('e, 'a, 's) outcome = "('e + 'a) \<times> 's"

fun is_ok :: "'e + 'a \<Rightarrow> bool" where
  "is_ok (Inl _) = False"
| "is_ok (Inr _) = True"

lemma is_ok_iff: "is_ok r \<longleftrightarrow> (\<exists>a. r = Inr a)"
  by (cases r) auto

subsection \<open>Saturating and checked arithmetic\<close>

definition sat_add :: "'a::len word \<Rightarrow> 'a word \<Rightarrow> 'a word" where
  "sat_add a b = (if unat a + unat b < 2 ^ LENGTH('a) then a + b else - 1)"

definition sat_sub :: "'a::len word \<Rightarrow> 'a word \<Rightarrow> 'a word" where
  "sat_sub a b = (if b \<le> a then a - b else 0)"

definition sat_mul :: "'a::len word \<Rightarrow> 'a word \<Rightarrow> 'a word" where
  "sat_mul a b = (if unat a * unat b < 2 ^ LENGTH('a) then a * b else - 1)"

definition checked_add :: "'a::len word \<Rightarrow> 'a word \<Rightarrow> 'a word option" where
  "checked_add a b = (if unat a + unat b < 2 ^ LENGTH('a) then Some (a + b) else None)"

lemma unat_max_word: "unat (- 1 :: 'a::len word) = 2 ^ LENGTH('a) - 1"
  by (simp add: unsigned_minus_1_eq_mask mask_eq_exp_minus_1)

lemma unat_le_max: "unat (w :: 'a::len word) \<le> 2 ^ LENGTH('a) - 1"
proof -
  have "unat w < 2 ^ LENGTH('a)" by (rule unsigned_less)
  then show ?thesis by linarith
qed

lemma unat_sat_add [rust_arith]:
  "unat (sat_add a b) = min (unat a + unat b) (2 ^ LENGTH('a) - 1)" for a b :: "'a::len word"
  by (auto simp: sat_add_def unat_word_ariths unat_max_word)

lemma unat_sat_sub [rust_arith]: "unat (sat_sub a b) = unat a - unat b"
  by (auto simp: sat_sub_def unat_sub word_le_nat_alt)

lemma unat_sat_mul [rust_arith]:
  "unat (sat_mul a b) = min (unat a * unat b) (2 ^ LENGTH('a) - 1)" for a b :: "'a::len word"
  by (auto simp: sat_mul_def unat_word_ariths unat_max_word)

lemma checked_add_Some [rust_arith]:
  "checked_add a b = Some c \<longleftrightarrow> unat a + unat b < 2 ^ LENGTH('a) \<and> c = a + b"
  for a b c :: "'a::len word"
  by (auto simp: checked_add_def)

lemma sat_add_mono_left: "a \<le> sat_add a b"
  using unat_le_max [of a] by (simp add: word_le_nat_alt unat_sat_add)

lemma sat_add_one_less: "sat_add a 1 \<noteq> - 1 \<Longrightarrow> a < sat_add a 1" for a :: "'a::len word"
proof -
  assume "sat_add a 1 \<noteq> - 1"
  then have "unat (sat_add a 1) \<noteq> 2 ^ LENGTH('a) - 1"
    using unat_max_word [where 'a = 'a] by (metis word_unat_eq_iff)
  then have "unat (sat_add a 1) = unat a + 1" by (simp add: unat_sat_add min_def split: if_splits)
  then show ?thesis by (simp add: word_less_nat_alt)
qed

lemma word_of_nat_inj:
  assumes "(of_nat m :: 'a::len word) = of_nat n" "m < 2 ^ LENGTH('a)" "n < 2 ^ LENGTH('a)"
  shows "m = n"
  using assms by (metis mod_less unat_of_nat)

lemma unat_ucast_up:
  fixes w :: "'a::len word"
  assumes "LENGTH('a) \<le> LENGTH('b::len)"
  shows "unat (ucast w :: 'b word) = unat w"
proof -
  have "unat w < 2 ^ LENGTH('a)" by (rule unsigned_less)
  also have "\<dots> \<le> 2 ^ LENGTH('b)" using assms by simp
  finally show ?thesis by (simp add: unsigned_ucast_eq take_bit_nat_eq_self)
qed

lemma unat_lt64: "unat (a :: u64) < 2 ^ 64"
  using unsigned_less [of a] by simp

lemma unat_mul_ucast: "unat (ucast (a :: u64) * ucast (b :: u64) :: u128) = unat a * unat b"
proof -
  have "unat a * unat b < 2 ^ 64 * 2 ^ 64"
    using unat_lt64 [of a] unat_lt64 [of b] by (intro mult_strict_mono) auto
  then show ?thesis by (simp add: unat_word_ariths unat_ucast_up)
qed

lemma narrow_exact: "unat w < 2 ^ 64 \<Longrightarrow> unat (ucast w :: u64) = unat w" for w :: u128
  by (simp add: unsigned_ucast_eq take_bit_nat_eq_self)

lemma div_ceil_nat:
  "0 < d \<Longrightarrow> (n + (d - 1)) div d = (if n mod d > 0 then n div d + 1 else n div d)" for n d :: nat
proof -
  assume d: "0 < d"
  have "(n + (d - 1)) div d = (n div d * d + (n mod d + (d - 1))) div d" by (simp add: add.assoc [symmetric])
  also have "\<dots> = n div d + (n mod d + (d - 1)) div d" using d by (intro div_mult_self3) simp
  also have "(n mod d + (d - 1)) div d = (if n mod d > 0 then 1 else 0)"
  proof (cases "n mod d > 0")
    case True
    then have eq: "n mod d + (d - 1) = d + (n mod d - 1)" using d by simp
    have "(n mod d - 1) div d = 0" using d by (simp add: less_imp_diff_less)
    then show ?thesis unfolding eq using True d by (simp only: div_add_self1 if_True)
  qed (use d in simp)
  finally show ?thesis by simp
qed

lemma div_ceil_split:
  "0 < d \<Longrightarrow> (m + n + (d - 1)) div d \<le> (m + (d - 1)) div d + (n + (d - 1)) div d" for m n d :: nat
proof -
  assume d: "0 < d"
  have up: "x \<le> (x + (d - 1)) div d * d" for x
    using div_mult_mod_eq [of "x + (d - 1)" d] mod_less_divisor [OF d, of "x + (d - 1)"] by linarith
  let ?q = "(m + (d - 1)) div d + (n + (d - 1)) div d"
  have "m + n \<le> ?q * d" using up [of m] up [of n] by (simp add: add_mult_distrib)
  then have "(m + n + (d - 1)) div d \<le> (?q * d + (d - 1)) div d" by (intro div_le_mono) simp
  also have "\<dots> = ?q + (d - 1) div d" using d by (intro div_mult_self3) simp
  also have "(d - 1) div d = 0" using d by simp
  finally show ?thesis by simp
qed

subsection \<open>Little-endian byte encodings\<close>

text \<open>\<open>le_bytes n w\<close> is \<open>w.to_le_bytes()\<close> for an integer of \<open>n\<close> bytes.\<close>

definition le_bytes :: "nat \<Rightarrow> 'a::len word \<Rightarrow> bytes" where
  "le_bytes n w = map (\<lambda>i. ucast (drop_bit (8 * i) w)) [0..<n]"

text \<open>\<open>from_le_bytes\<close> for the unsigned types.\<close>

fun from_le_bytes :: "bytes \<Rightarrow> 'a::len word" where
  "from_le_bytes [] = 0"
| "from_le_bytes (b # bs) = ucast b + push_bit 8 (from_le_bytes bs)"

lemma length_le_bytes [simp]: "length (le_bytes n w) = n"
  by (simp add: le_bytes_def)

lemma le_bytes_Suc:
  "le_bytes (Suc n) w = ucast w # le_bytes n (drop_bit 8 w)"
proof -
  have "[0..<Suc n] = 0 # map Suc [0..<n]"
    by (simp add: map_Suc_upt upt_conv_Cons)
  then show ?thesis
    by (simp add: le_bytes_def drop_bit_drop_bit add.commute)
qed

lemma le_bytes_inj:
  fixes w w' :: "'a::len word"
  assumes "le_bytes n w = le_bytes n w'" and "LENGTH('a) \<le> 8 * n"
  shows "w = w'"
proof (rule bit_word_eqI)
  fix k assume k: "k < LENGTH('a)"
  then have i: "k div 8 < n" using assms(2) by linarith
  have "ucast (drop_bit (8 * (k div 8)) w) = (ucast (drop_bit (8 * (k div 8)) w') :: u8)"
    using arg_cong [OF assms(1), of "\<lambda>xs. xs ! (k div 8)"] i by (simp add: le_bytes_def)
  then have "bit (ucast (drop_bit (8 * (k div 8)) w) :: u8) (k mod 8)
           = bit (ucast (drop_bit (8 * (k div 8)) w') :: u8) (k mod 8)"
    by simp
  then show "bit w k = bit w' k"
    using k by (simp add: bit_ucast_iff bit_drop_bit_eq)
qed

lemma le_bytes_eq_iff [simp]:
  "le_bytes 8 (a :: u64) = le_bytes 8 b \<longleftrightarrow> a = b"
  "le_bytes 4 (c :: u32) = le_bytes 4 d \<longleftrightarrow> c = d"
  by (auto dest: le_bytes_inj)

lemma ucast_ucast_u8: "ucast (ucast w :: u8) = take_bit 8 w" for w :: "'a::len word"
  by (rule bit_word_eqI) (auto simp: bit_ucast_iff bit_take_bit_iff dest: bit_imp_le_length)

lemma from_le_bytes_le_bytes:
  fixes w :: "'a::len word"
  shows "from_le_bytes (le_bytes n w) = take_bit (8 * n) w"
proof (induction n arbitrary: w)
  case 0
  then show ?case by (simp add: le_bytes_def)
next
  case (Suc n)
  have "ucast (ucast w :: u8) + push_bit 8 (take_bit (8 * n) (drop_bit 8 w)) = take_bit (8 * Suc n) w"
    using bits_ident [of 8 "take_bit (8 * Suc n) w"]
    by (simp add: ucast_ucast_u8 drop_bit_take_bit add.commute)
  then show ?case by (simp add: le_bytes_Suc Suc.IH)
qed

text \<open>A number as \<open>format!\<close> prints it.\<close>

fun decimal :: "nat \<Rightarrow> string" where
  "decimal n = (if n < 10 then [''0123456789'' ! n] else decimal (n div 10) @ [''0123456789'' ! (n mod 10)])"

declare decimal.simps [simp del]

text \<open>When a chain of fallible steps joined by \<open>?\<close> succeeds, each of them has.\<close>

lemma sum_case_Inr_iff [question_mark]:
  "(case x of Inl e \<Rightarrow> Inl (f e) | Inr a \<Rightarrow> g a) = Inr b \<longleftrightarrow> (\<exists>a. x = Inr a \<and> g a = Inr b)"
  by (cases x) simp_all

lemma option_case_Inr_iff [question_mark]:
  "(case x of None \<Rightarrow> Inl e | Some a \<Rightarrow> g a) = Inr b \<longleftrightarrow> (\<exists>a. x = Some a \<and> g a = Inr b)"
  by (cases x) simp_all

lemma guard_Inr_iff [question_mark]: "(if c then Inl e else x) = Inr b \<longleftrightarrow> \<not> c \<and> x = Inr b"
  by simp

subsection \<open>Reachable states\<close>

text \<open>
  The states a component reaches from its initial states under a step relation, and the
  interface through which every component below obtains its invariant: the initial states
  satisfy it and every step keeps it.
\<close>

inductive reach :: "('s \<Rightarrow> bool) \<Rightarrow> ('s \<Rightarrow> 's \<Rightarrow> bool) \<Rightarrow> 's \<Rightarrow> bool"
  for init :: "'s \<Rightarrow> bool" and step :: "'s \<Rightarrow> 's \<Rightarrow> bool" where
  reach_init: "init s \<Longrightarrow> reach init step s"
| reach_step: "reach init step s \<Longrightarrow> step s t \<Longrightarrow> reach init step t"

locale inductive_invariant =
  fixes init :: "'s \<Rightarrow> bool"
    and step :: "'s \<Rightarrow> 's \<Rightarrow> bool"
    and inv :: "'s \<Rightarrow> bool"
  assumes inv_init: "init s \<Longrightarrow> inv s"
    and inv_step: "inv s \<Longrightarrow> step s t \<Longrightarrow> inv t"
begin

lemma inv_reach: "reach init step s \<Longrightarrow> inv s"
  by (induction rule: reach.induct) (auto intro: inv_init inv_step)

lemma inv_steps: "step\<^sup>*\<^sup>* s t \<Longrightarrow> inv s \<Longrightarrow> inv t"
  by (induction rule: rtranclp_induct) (auto intro: inv_step)

end

end
