(* ===== verification/Field_Hash.thy ===== *)
theory Field_Hash
  imports Budlum_Prelude
begin

text \<open>
  \<^verbatim>\<open>src/core/hash.rs\<close> and \<^verbatim>\<open>src/core/money.rs\<close>. SHA-256 comes from the
  \<open>sha2\<close> crate and is the parameter \<open>H\<close> of every definition that hashes; what the
  node adds on top of it, the length-prefixed encoding of the fields, is modelled here and
  shown to be injective: two field lists feed the hash the same bytes only if they are
  equal.
\<close>

type_synonym hasher = "bytes \<Rightarrow> hash32"

text \<open>A byte-string literal \<open>b"..."\<close>.\<close>

definition ascii :: "string \<Rightarrow> bytes" where
  "ascii s = map of_char s"

definition encode_field :: "bytes \<Rightarrow> bytes" where
  "encode_field f = le_bytes 8 (of_nat (length f) :: u64) @ f"

definition hash_fields_preimage :: "bytes list \<Rightarrow> bytes" where
  "hash_fields_preimage fs = concat (map encode_field fs)"

definition hash_fields_bytes :: "hasher \<Rightarrow> bytes list \<Rightarrow> hash32" where
  "hash_fields_bytes H fs = H (hash_fields_preimage fs)"

definition calculate_hash_bytes :: "hasher \<Rightarrow> bytes \<Rightarrow> hash32" where
  "calculate_hash_bytes H data = H data"

definition presence_tagged :: "hash32 option \<Rightarrow> bytes" where
  "presence_tagged r = (case r of None \<Rightarrow> replicate 33 0 | Some root \<Rightarrow> 1 # root)"

text \<open>
  A Rust slice never reaches \<open>2^64\<close> bytes, so the length prefix never wraps on a value
  the program can hold.
\<close>

definition fields_fit :: "bytes list \<Rightarrow> bool" where
  "fields_fit fs = list_all (\<lambda>f. length f < 2 ^ 64) fs"

subsection \<open>The money type\<close>

datatype Bud = Bud (bud_get: u64)

definition bud_new :: "u64 \<Rightarrow> Bud" where
  "bud_new units = Bud units"

definition bud_is_zero :: "Bud \<Rightarrow> bool" where
  "bud_is_zero b = (bud_get b = 0)"

text \<open>\<open>TryFrom<u128>\<close>: \<open>None\<close> is the refusal "bud amount exceeds u64::MAX".\<close>

definition bud_try_from :: "u128 \<Rightarrow> Bud option" where
  "bud_try_from value = (if unat value < 2 ^ 64 then Some (Bud (ucast value)) else None)"

subsection \<open>The encoding is injective\<close>

lemma encode_field_append_inj:
  assumes "length f < 2 ^ 64" "length g < 2 ^ 64"
    and eq: "encode_field f @ r = encode_field g @ r'"
  shows "f = g \<and> r = r'"
proof -
  have "le_bytes 8 (of_nat (length f) :: u64) = le_bytes 8 (of_nat (length g) :: u64)"
    and rest: "f @ r = g @ r'"
    using eq by (auto simp: encode_field_def append_eq_append_conv)
  then have "(of_nat (length f) :: u64) = of_nat (length g)" by simp
  then have "length f = length g"
    using assms(1,2) by (intro word_of_nat_inj [where 'a = 64]) simp_all
  with rest show ?thesis by simp
qed

lemma hash_fields_preimage_inj:
  "fields_fit fs \<Longrightarrow> fields_fit gs \<Longrightarrow> hash_fields_preimage fs = hash_fields_preimage gs \<Longrightarrow> fs = gs"
proof (induction fs arbitrary: gs)
  case Nil
  then show ?case
    by (cases gs) (auto simp: hash_fields_preimage_def encode_field_def le_bytes_def)
next
  case (Cons f fs)
  show ?case
  proof (cases gs)
    case Nil
    with Cons.prems show ?thesis
      by (auto simp: hash_fields_preimage_def encode_field_def le_bytes_def)
  next
    case (Cons g gs')
    have "encode_field f @ hash_fields_preimage fs = encode_field g @ hash_fields_preimage gs'"
      using Cons.prems(3) Cons by (simp add: hash_fields_preimage_def)
    then have "f = g \<and> hash_fields_preimage fs = hash_fields_preimage gs'"
      using Cons.prems(1,2) Cons by (intro encode_field_append_inj) (auto simp: fields_fit_def)
    with Cons.IH [of gs'] Cons.prems(1,2) Cons show ?thesis by (simp add: fields_fit_def)
  qed
qed

lemma inj_ascii: "inj ascii"
proof -
  have "inj (of_char :: char \<Rightarrow> u8)"
  proof (rule injI)
    fix c d :: char assume "(of_char c :: u8) = of_char d"
    then have "(of_nat (of_char c) :: u8) = of_nat (of_char d)"
      by (simp only: of_nat_of_char)
    then have "(of_char c :: nat) = of_char d"
      by (rule word_of_nat_inj) (simp_all add: nat_of_char_less_256)
    then show "c = d" by simp
  qed
  then show ?thesis by (simp add: ascii_def [abs_def] inj_map_eq_map inj_on_def)
qed

lemma ascii_eq_iff [simp]: "ascii s = ascii t \<longleftrightarrow> s = t"
  using inj_ascii by (auto dest: injD)

lemma length_ascii [simp]: "length (ascii s) = length s"
  by (simp add: ascii_def)

lemma presence_tagged_inj: "presence_tagged a = presence_tagged b \<Longrightarrow> a = b"
  by (auto simp: presence_tagged_def numeral_eq_Suc split: option.splits)

lemma bud_try_from_ucast [simp]: "bud_try_from (ucast (w :: u64)) = Some (Bud w)"
proof -
  have "unat w < 2 ^ 64" using unsigned_less [of w] by simp
  moreover have "ucast (ucast w :: u128) = w"
    by (rule bit_word_eqI) (simp add: bit_ucast_iff)
  ultimately show ?thesis by (simp add: bud_try_from_def unat_ucast_up)
qed

end
