(* ===== verification/Merkle_Tree.thy ===== *)
theory Merkle_Tree
  imports Field_Hash
begin

text \<open>
  \<^verbatim>\<open>src/consensus/merkle_tree.rs\<close>, the one tree shape every commitment of the node
  goes through, and \<^verbatim>\<open>src/settlement/commitment_tree.rs\<close>, its settlement binding.
  An unpaired tail digest is promoted under its own tag, never paired with itself.
  The lemmas show that the layer loop ends in one root, that a proof taken from a tree
  rebuilds that tree's root, and, for a binding that separates its preimages, that a root
  determines its leaves and that only a committed leaf has a verifying proof.
\<close>

type_synonym combiner = "hash32 \<Rightarrow> hash32 \<Rightarrow> hash32"
type_synonym promoter = "hash32 \<Rightarrow> hash32"

subsection \<open>The tree shape\<close>

definition odd_promotion_sentinel :: "hasher \<Rightarrow> hash32" where
  "odd_promotion_sentinel H = hash_fields_bytes H [ascii ''BDLM_MERKLE_ODD_SENTINEL_V1'']"

definition merkle_sibling_index :: "nat \<Rightarrow> nat \<Rightarrow> nat" where
  "merkle_sibling_index index layer_len =
     (if even index then min (index + 1) (layer_len - 1) else index - 1)"

fun merkle_parent_layer :: "combiner \<Rightarrow> promoter \<Rightarrow> hash32 list \<Rightarrow> hash32 list" where
  "merkle_parent_layer combine promote [] = []"
| "merkle_parent_layer combine promote [x] = [promote x]"
| "merkle_parent_layer combine promote (x # y # layer) =
     combine x y # merkle_parent_layer combine promote layer"

lemma length_merkle_parent_layer [simp]:
  "length (merkle_parent_layer combine promote layer) = (length layer + 1) div 2"
  by (induction combine promote layer rule: merkle_parent_layer.induct) auto

text \<open>\<open>while layers.last().map_or(0, Vec::len) > 1 { layers.push(parent) }\<close>\<close>

function merkle_layers_from :: "combiner \<Rightarrow> promoter \<Rightarrow> hash32 list \<Rightarrow> hash32 list list" where
  "merkle_layers_from combine promote layer =
     (if length layer > 1
      then layer # merkle_layers_from combine promote (merkle_parent_layer combine promote layer)
      else [layer])"
  by pat_completeness auto
termination
  by (relation "measure (\<lambda>(_, _, layer). length layer)") auto

declare merkle_layers_from.simps [simp del]

definition merkle_layers :: "hash32 list \<Rightarrow> combiner \<Rightarrow> promoter \<Rightarrow> hash32 list list" where
  "merkle_layers leaves combine promote =
     (if leaves = [] then [] else merkle_layers_from combine promote leaves)"

definition merkle_root_shape :: "hash32 list \<Rightarrow> combiner \<Rightarrow> promoter \<Rightarrow> hash32" where
  "merkle_root_shape leaves combine promote =
     (case rev (merkle_layers leaves combine promote) of
        [] \<Rightarrow> replicate 32 0
      | layer # _ \<Rightarrow> (case layer of [] \<Rightarrow> replicate 32 0 | d # _ \<Rightarrow> d))"

fun merkle_proof_walk :: "hash32 \<Rightarrow> hash32 list list \<Rightarrow> nat \<Rightarrow> hash32 list" where
  "merkle_proof_walk sentinel [] idx = []"
| "merkle_proof_walk sentinel (layer # layers) idx =
     (if even idx \<and> idx + 1 \<ge> length layer then sentinel
      else layer ! merkle_sibling_index idx (length layer))
     # merkle_proof_walk sentinel layers (idx div 2)"

definition merkle_proof ::
  "hasher \<Rightarrow> hash32 list \<Rightarrow> nat \<Rightarrow> combiner \<Rightarrow> promoter \<Rightarrow> hash32 list option" where
  "merkle_proof H leaves leaf_index combine promote =
     (if leaves = [] \<or> leaf_index \<ge> length leaves then None
      else let layers = merkle_layers leaves combine promote in
        Some (merkle_proof_walk (odd_promotion_sentinel H) (take (length layers - 1) layers) leaf_index))"

fun merkle_rebuild_walk :: "combiner \<Rightarrow> promoter \<Rightarrow> hash32 \<Rightarrow> nat \<Rightarrow> hash32 list list \<Rightarrow> hash32" where
  "merkle_rebuild_walk combine promote cur idx [] = cur"
| "merkle_rebuild_walk combine promote cur idx (layer # layers) =
     merkle_rebuild_walk combine promote
       (if even idx \<and> idx + 1 \<ge> length layer then promote cur
        else let sibling = layer ! merkle_sibling_index idx (length layer) in
          if even idx then combine cur sibling else combine sibling cur)
       (idx div 2) layers"

definition merkle_rebuild_root :: "hash32 list \<Rightarrow> nat \<Rightarrow> combiner \<Rightarrow> promoter \<Rightarrow> hash32 option" where
  "merkle_rebuild_root leaves leaf_index combine promote =
     (if leaves = [] \<or> leaf_index \<ge> length leaves then None
      else let layers = merkle_layers leaves combine promote in
        Some (merkle_rebuild_walk combine promote (leaves ! leaf_index) leaf_index
                (take (length layers - 1) layers)))"

fun merkle_root_from_proof ::
  "hasher \<Rightarrow> combiner \<Rightarrow> promoter \<Rightarrow> hash32 \<Rightarrow> nat \<Rightarrow> hash32 list \<Rightarrow> hash32" where
  "merkle_root_from_proof H combine promote cur idx [] = cur"
| "merkle_root_from_proof H combine promote cur idx (sibling # siblings) =
     merkle_root_from_proof H combine promote
       (if sibling = odd_promotion_sentinel H then promote cur
        else if even idx then combine cur sibling
        else combine sibling cur)
       (idx div 2) siblings"

subsection \<open>The settlement binding\<close>

definition merkle_node_hash :: "hasher \<Rightarrow> combiner" where
  "merkle_node_hash H left right = hash_fields_bytes H [ascii ''BDLM_MERKLE_NODE_V1'', left, right]"

definition merkle_odd_promote_hash :: "hasher \<Rightarrow> promoter" where
  "merkle_odd_promote_hash H node = hash_fields_bytes H [ascii ''BDLM_MERKLE_ODD_PROMOTE_V1'', node]"

definition merkle_root :: "hasher \<Rightarrow> hash32 list \<Rightarrow> hash32" where
  "merkle_root H leaves =
     (if leaves = [] then hash_fields_bytes H [ascii ''BDLM_EMPTY_MERKLE_ROOT_V1'']
      else merkle_root_shape leaves (merkle_node_hash H) (merkle_odd_promote_hash H))"

subsection \<open>The QC blob binding\<close>

definition combine_sha3 :: "hasher \<Rightarrow> combiner" where
  "combine_sha3 sha3 left right = sha3 (left @ right)"

definition promote_sha3 :: "hasher \<Rightarrow> promoter" where
  "promote_sha3 sha3 node = sha3 (ascii ''BDLM_MERKLE_ODD_PROMOTE_V1'' @ node)"

subsection \<open>Shape lemmas\<close>

lemma merkle_sibling_index_bound:
  "index < layer_len \<Longrightarrow> merkle_sibling_index index layer_len < layer_len"
  by (auto simp: merkle_sibling_index_def)

lemma nth_merkle_parent_layer:
  "i < length layer \<Longrightarrow> merkle_parent_layer combine promote layer ! (i div 2) =
     (if even i \<and> i + 1 \<ge> length layer then promote (layer ! i)
      else let sibling = layer ! merkle_sibling_index i (length layer) in
        if even i then combine (layer ! i) sibling else combine sibling (layer ! i))"
proof (induction combine promote layer arbitrary: i rule: merkle_parent_layer.induct)
  case (3 combine promote x y layer)
  show ?case
  proof (cases "i < 2")
    case True
    then have "i = 0 \<or> i = 1" by auto
    then show ?thesis by (auto simp: merkle_sibling_index_def)
  next
    case False
    then obtain j where j: "i = Suc (Suc j)" by (metis add_2_eq_Suc le_Suc_ex not_less)
    have sib: "merkle_sibling_index i (Suc (Suc (length layer))) = Suc (Suc (merkle_sibling_index j (length layer)))"
      if "\<not> (even j \<and> j + 1 \<ge> length layer)"
    proof (cases "even j")
      case True
      with that j show ?thesis by (simp add: merkle_sibling_index_def min_def)
    next
      case False
      then have "j > 0" by (cases j) auto
      with False j show ?thesis by (simp add: merkle_sibling_index_def)
    qed
    have IH: "merkle_parent_layer combine promote layer ! (j div 2) =
       (if even j \<and> j + 1 \<ge> length layer then promote (layer ! j)
        else let sibling = layer ! merkle_sibling_index j (length layer) in
          if even j then combine (layer ! j) sibling else combine sibling (layer ! j))"
      using 3(2) j by (intro 3(1)) simp
    show ?thesis
    proof (cases "even j \<and> j + 1 \<ge> length layer")
      case True
      with IH j show ?thesis by simp
    next
      case False
      with IH j sib [OF False] show ?thesis by (simp add: Let_def)
    qed
  qed
qed auto

lemma merkle_layers_from_single: "length layer \<le> 1 \<Longrightarrow> merkle_layers_from combine promote layer = [layer]"
  by (subst merkle_layers_from.simps) simp

lemma merkle_layers_from_step:
  "1 < length layer \<Longrightarrow> merkle_layers_from combine promote layer =
     layer # merkle_layers_from combine promote (merkle_parent_layer combine promote layer)"
  by (subst merkle_layers_from.simps) simp

lemma merkle_layers_from_nonempty [simp]: "merkle_layers_from combine promote layer \<noteq> []"
  by (subst merkle_layers_from.simps) simp

lemma merkle_layers_from_induct [case_names single step]:
  assumes "\<And>layer. length layer \<le> 1 \<Longrightarrow> P layer"
    and "\<And>layer. 1 < length layer \<Longrightarrow> P (merkle_parent_layer combine promote layer) \<Longrightarrow> P layer"
  shows "P layer"
proof (induction "length layer" arbitrary: layer rule: less_induct)
  case less
  show ?case
  proof (cases "1 < length layer")
    case True
    then have "length (merkle_parent_layer combine promote layer) < length layer" by simp
    then show ?thesis using less assms(2) True by blast
  next
    case False
    then show ?thesis using assms(1) by simp
  qed
qed

lemma merkle_parent_layer_Nil_iff [simp]: "merkle_parent_layer combine promote layer = [] \<longleftrightarrow> layer = []"
  by (cases "(combine, promote, layer)" rule: merkle_parent_layer.cases) auto

lemma merkle_layers_from_last:
  "layer \<noteq> [] \<Longrightarrow> length (last (merkle_layers_from combine promote layer)) = 1"
proof (induction layer rule: merkle_layers_from_induct [where combine = combine and promote = promote])
  case (single layer)
  then show ?case by (cases layer) (auto simp: merkle_layers_from_single)
next
  case (step layer)
  then show ?case by (simp add: merkle_layers_from_step)
qed

lemma merkle_root_shape_eq:
  "leaves \<noteq> [] \<Longrightarrow> merkle_root_shape leaves combine promote = hd (last (merkle_layers_from combine promote leaves))"
  using merkle_layers_from_last [of leaves combine promote]
  by (auto simp: merkle_root_shape_def merkle_layers_def last_conv_nth hd_rev [symmetric]
      rev_nth neq_Nil_conv split: list.splits)

lemma merkle_rebuild_walk_eq:
  fixes combine :: combiner and promote :: promoter
  assumes "i < length layer"
  defines "layers \<equiv> merkle_layers_from combine promote layer"
  shows "merkle_rebuild_walk combine promote (layer ! i) i (take (length layers - 1) layers) = hd (last layers)"
  using assms(1) unfolding layers_def
proof (induction layer arbitrary: i rule: merkle_layers_from_induct [where combine = combine and promote = promote])
  case (single layer)
  then show ?case by (cases layer) (auto simp: merkle_layers_from_single)
next
  case (step layer)
  let ?up = "merkle_parent_layer combine promote layer"
  have "i div 2 < length ?up" using step.prems by auto
  from step.IH [OF this] nth_merkle_parent_layer [OF step.prems, of combine promote] step.hyps
  show ?case by (simp add: merkle_layers_from_step take_Cons' Let_def)
qed

text \<open>
  A proof rebuilds the root as long as no sibling the tree hands out is the promotion
  marker, which no honest digest is.
\<close>

lemma merkle_proof_walk_eq:
  fixes combine :: combiner and promote :: promoter
  assumes "i < length layer"
    and "\<forall>l \<in> set (merkle_layers_from combine promote layer). odd_promotion_sentinel H \<notin> set l"
  defines "layers \<equiv> merkle_layers_from combine promote layer"
  shows "merkle_root_from_proof H combine promote (layer ! i) i
           (merkle_proof_walk (odd_promotion_sentinel H) (take (length layers - 1) layers) i)
       = hd (last layers)"
  using assms(1,2) unfolding layers_def
proof (induction layer arbitrary: i rule: merkle_layers_from_induct [where combine = combine and promote = promote])
  case (single layer)
  then show ?case by (cases layer) (auto simp: merkle_layers_from_single)
next
  case (step layer)
  let ?up = "merkle_parent_layer combine promote layer"
  have "i div 2 < length ?up" using step.prems by auto
  moreover have "layer ! merkle_sibling_index i (length layer) \<noteq> odd_promotion_sentinel H"
    using step.prems step.hyps merkle_sibling_index_bound [OF step.prems(1)]
    by (auto simp: merkle_layers_from_step) (metis nth_mem)
  ultimately show ?case
    using step.IH [of "i div 2"] nth_merkle_parent_layer [OF step.prems(1), of combine promote] step.hyps step.prems(2)
    by (auto simp: merkle_layers_from_step take_Cons' Let_def split: if_splits)
qed

subsection \<open>The hash tree behind a root\<close>

text \<open>
  The abstract specification of the layer loop: the tree of applications of the binary
  and the unary hash whose digest is the root and whose frontier is the leaf list.
\<close>

datatype htree = HLeaf hash32 | HNode htree htree | HPromote htree

fun digest :: "combiner \<Rightarrow> promoter \<Rightarrow> htree \<Rightarrow> hash32" where
  "digest combine promote (HLeaf d) = d"
| "digest combine promote (HNode a b) = combine (digest combine promote a) (digest combine promote b)"
| "digest combine promote (HPromote a) = promote (digest combine promote a)"

fun frontier :: "htree \<Rightarrow> hash32 list" where
  "frontier (HLeaf d) = [d]"
| "frontier (HNode a b) = frontier a @ frontier b"
| "frontier (HPromote a) = frontier a"

fun digests :: "combiner \<Rightarrow> promoter \<Rightarrow> htree \<Rightarrow> hash32 set" where
  "digests combine promote (HLeaf d) = {d}"
| "digests combine promote (HNode a b) =
     insert (digest combine promote (HNode a b)) (digests combine promote a \<union> digests combine promote b)"
| "digests combine promote (HPromote a) =
     insert (digest combine promote (HPromote a)) (digests combine promote a)"

fun tree_parents :: "htree list \<Rightarrow> htree list" where
  "tree_parents [] = []"
| "tree_parents [t] = [HPromote t]"
| "tree_parents (t # u # ts) = HNode t u # tree_parents ts"

lemma length_tree_parents [simp]: "length (tree_parents ts) = (length ts + 1) div 2"
  by (induction ts rule: tree_parents.induct) auto

function tree_over :: "htree list \<Rightarrow> htree" where
  "tree_over ts = (if length ts > 1 then tree_over (tree_parents ts) else hd ts)"
  by pat_completeness auto
termination
  by (relation "measure length") auto

declare tree_over.simps [simp del]

lemma tree_over_single: "tree_over [t] = t"
  by (subst tree_over.simps) simp

definition merkle_htree :: "hash32 list \<Rightarrow> htree" where
  "merkle_htree leaves = tree_over (map HLeaf leaves)"

lemma merkle_parent_layer_digest:
  "merkle_parent_layer combine promote (map (digest combine promote) ts)
   = map (digest combine promote) (tree_parents ts)"
  by (induction ts rule: tree_parents.induct) auto

lemma frontier_tree_parents: "concat (map frontier (tree_parents ts)) = concat (map frontier ts)"
  by (induction ts rule: tree_parents.induct) auto

lemma tree_over_digest:
  "ts \<noteq> [] \<Longrightarrow> hd (last (merkle_layers_from combine promote (map (digest combine promote) ts)))
   = digest combine promote (tree_over ts)"
proof (induction ts rule: tree_over.induct)
  case (1 ts)
  show ?case
  proof (cases "1 < length ts")
    case True
    then have "tree_parents ts \<noteq> []" by (cases ts rule: tree_parents.cases) auto
    with 1(1) True show ?thesis
      by (simp add: merkle_layers_from_step merkle_parent_layer_digest tree_over.simps [of ts])
  next
    case False
    with 1(2) show ?thesis
      by (cases ts) (auto simp: merkle_layers_from_single tree_over_single)
  qed
qed

lemma tree_over_frontier: "ts \<noteq> [] \<Longrightarrow> frontier (tree_over ts) = concat (map frontier ts)"
proof (induction ts rule: tree_over.induct)
  case (1 ts)
  show ?case
  proof (cases "1 < length ts")
    case True
    then have "tree_parents ts \<noteq> []" by (cases ts rule: tree_parents.cases) auto
    with 1(1) True show ?thesis
      by (simp add: frontier_tree_parents tree_over.simps [of ts])
  next
    case False
    with 1(2) show ?thesis by (cases ts) (auto simp: tree_over_single)
  qed
qed

lemma merkle_root_shape_htree:
  assumes "leaves \<noteq> []"
  shows "merkle_root_shape leaves combine promote = digest combine promote (merkle_htree leaves)"
proof -
  have "map (digest combine promote) (map HLeaf leaves) = leaves"
    by (induction leaves) auto
  then show ?thesis
    using assms tree_over_digest [of "map HLeaf leaves" combine promote]
    by (simp add: merkle_root_shape_eq merkle_htree_def)
qed

lemma frontier_merkle_htree: "leaves \<noteq> [] \<Longrightarrow> frontier (merkle_htree leaves) = leaves"
  by (simp add: merkle_htree_def tree_over_frontier comp_def)


subsection \<open>Bindings that separate their preimages\<close>

text \<open>
  What a binding has to provide over the digests \<open>D\<close> of the trees at hand: the two
  hashes are injective and never meet each other or a leaf digest of \<open>L\<close>.
\<close>

definition separates :: "combiner \<Rightarrow> promoter \<Rightarrow> hash32 set \<Rightarrow> hash32 set \<Rightarrow> bool" where
  "separates combine promote L D \<longleftrightarrow>
     (\<forall>a\<in>D. \<forall>b\<in>D. \<forall>c\<in>D. \<forall>d\<in>D. combine a b = combine c d \<longrightarrow> a = c \<and> b = d) \<and>
     (\<forall>a\<in>D. \<forall>b\<in>D. promote a = promote b \<longrightarrow> a = b) \<and>
     (\<forall>a\<in>D. \<forall>b\<in>D. \<forall>c\<in>D. combine a b \<noteq> promote c) \<and>
     (\<forall>l\<in>L. \<forall>a\<in>D. \<forall>b\<in>D. l \<noteq> combine a b \<and> l \<noteq> promote a)"

lemma digest_in_digests [simp]: "digest combine promote t \<in> digests combine promote t"
  by (cases t) auto

lemma digest_mem: "digests combine promote t \<subseteq> D \<Longrightarrow> digest combine promote t \<in> D"
  using digest_in_digests by blast

lemma separatesD:
  assumes "separates combine promote L D"
  shows "combine a b = combine c d \<Longrightarrow> a \<in> D \<Longrightarrow> b \<in> D \<Longrightarrow> c \<in> D \<Longrightarrow> d \<in> D \<Longrightarrow> a = c \<and> b = d"
    and "promote a = promote b \<Longrightarrow> a \<in> D \<Longrightarrow> b \<in> D \<Longrightarrow> a = b"
    and "combine a b = promote c \<Longrightarrow> a \<in> D \<Longrightarrow> b \<in> D \<Longrightarrow> c \<in> D \<Longrightarrow> False"
    and "promote c = combine a b \<Longrightarrow> a \<in> D \<Longrightarrow> b \<in> D \<Longrightarrow> c \<in> D \<Longrightarrow> False"
    and "combine a b \<in> L \<Longrightarrow> a \<in> D \<Longrightarrow> b \<in> D \<Longrightarrow> False"
    and "promote a \<in> L \<Longrightarrow> a \<in> D \<Longrightarrow> False"
proof -
  from assms
  have 1: "\<forall>a\<in>D. \<forall>b\<in>D. \<forall>c\<in>D. \<forall>d\<in>D. combine a b = combine c d \<longrightarrow> a = c \<and> b = d"
    and 2: "\<forall>a\<in>D. \<forall>b\<in>D. promote a = promote b \<longrightarrow> a = b"
    and 3: "\<forall>a\<in>D. \<forall>b\<in>D. \<forall>c\<in>D. combine a b \<noteq> promote c"
    and 4: "\<forall>l\<in>L. \<forall>a\<in>D. \<forall>b\<in>D. l \<noteq> combine a b \<and> l \<noteq> promote a"
    unfolding separates_def by - (elim conjE, assumption)+
  show "combine a b = combine c d \<Longrightarrow> a \<in> D \<Longrightarrow> b \<in> D \<Longrightarrow> c \<in> D \<Longrightarrow> d \<in> D \<Longrightarrow> a = c \<and> b = d"
    using 1 by simp
  show "promote a = promote b \<Longrightarrow> a \<in> D \<Longrightarrow> b \<in> D \<Longrightarrow> a = b"
    using 2 by simp
  show "combine a b = promote c \<Longrightarrow> a \<in> D \<Longrightarrow> b \<in> D \<Longrightarrow> c \<in> D \<Longrightarrow> False"
    "promote c = combine a b \<Longrightarrow> a \<in> D \<Longrightarrow> b \<in> D \<Longrightarrow> c \<in> D \<Longrightarrow> False"
    using 3 by metis+
  show "combine a b \<in> L \<Longrightarrow> a \<in> D \<Longrightarrow> b \<in> D \<Longrightarrow> False" "promote a \<in> L \<Longrightarrow> a \<in> D \<Longrightarrow> False"
    using 4 by auto
qed

lemma digest_leaf_apart:
  assumes sep: "separates combine promote L D"
    and "digest combine promote u \<in> L" "digests combine promote u \<subseteq> D"
  shows "\<exists>d. u = HLeaf d"
proof (cases u)
  case (HNode a b)
  with assms(2,3) have False by (intro separatesD(5) [OF sep]) (auto intro: digest_mem)
  then show ?thesis ..
next
  case (HPromote a)
  with assms(2,3) have False by (intro separatesD(6) [OF sep]) (auto intro: digest_mem)
  then show ?thesis ..
qed simp

lemma digest_inj:
  assumes sep: "separates combine promote L D"
  shows "digests combine promote t \<subseteq> D \<Longrightarrow> digests combine promote u \<subseteq> D \<Longrightarrow>
    set (frontier t) \<subseteq> L \<Longrightarrow> set (frontier u) \<subseteq> L \<Longrightarrow>
    digest combine promote t = digest combine promote u \<Longrightarrow> t = u"
proof (induction t arbitrary: u)
  case (HLeaf d)
  then show ?case using digest_leaf_apart [OF sep, of u] by auto
next
  case (HNode a b)
  note t = HNode.prems
  show ?case
  proof (cases u)
    case (HNode c d)
    then have "digest combine promote a = digest combine promote c
      \<and> digest combine promote b = digest combine promote d"
      using t by (intro separatesD(1) [OF sep]) (auto intro: digest_mem)
    moreover from this have "a = c" "b = d"
      using HNode.IH(1) [of c] HNode.IH(2) [of d] t HNode by auto
    ultimately show ?thesis using HNode by simp
  next
    case (HLeaf d)
    with t show ?thesis using digest_leaf_apart [OF sep, of "HNode a b"] by auto
  next
    case (HPromote c)
    with t have False by (intro separatesD(3) [OF sep]) (auto intro: digest_mem)
    then show ?thesis ..
  qed
next
  case (HPromote a)
  note t = HPromote.prems
  show ?case
  proof (cases u)
    case (HPromote c)
    then have "digest combine promote a = digest combine promote c"
      using t separatesD(2) [OF sep, of "digest combine promote a" "digest combine promote c"]
      by (auto intro: digest_mem)
    with HPromote.IH [of c] t HPromote show ?thesis by auto
  next
    case (HLeaf d)
    with t show ?thesis using digest_leaf_apart [OF sep, of "HPromote a"] by auto
  next
    case (HNode c d)
    with t have False by (intro separatesD(4) [OF sep]) (auto intro: digest_mem)
    then show ?thesis ..
  qed
qed

definition merkle_digests :: "combiner \<Rightarrow> promoter \<Rightarrow> hash32 list \<Rightarrow> hash32 set" where
  "merkle_digests combine promote leaves = digests combine promote (merkle_htree leaves)"

lemma merkle_root_shape_inj:
  assumes "separates combine promote L D"
    and "leaves \<noteq> []" "leaves' \<noteq> []" "set leaves \<subseteq> L" "set leaves' \<subseteq> L"
    and "merkle_digests combine promote leaves \<subseteq> D" "merkle_digests combine promote leaves' \<subseteq> D"
    and "merkle_root_shape leaves combine promote = merkle_root_shape leaves' combine promote"
  shows "leaves = leaves'"
proof -
  have "merkle_htree leaves = merkle_htree leaves'"
    using assms by (intro digest_inj [OF assms(1)])
      (simp_all add: merkle_digests_def frontier_merkle_htree merkle_root_shape_htree)
  then show ?thesis using assms(2,3) frontier_merkle_htree by metis
qed


text \<open>
  Every value the verifying walk passes through, and what an accepted walk proves: it can
  only follow the tree down from the root, so it starts at a leaf of the tree.
\<close>

fun merkle_walk_digests :: "hasher \<Rightarrow> combiner \<Rightarrow> promoter \<Rightarrow> hash32 \<Rightarrow> nat \<Rightarrow> hash32 list \<Rightarrow> hash32 set" where
  "merkle_walk_digests H combine promote cur idx [] = {cur}"
| "merkle_walk_digests H combine promote cur idx (sibling # siblings) =
     {cur, sibling} \<union> merkle_walk_digests H combine promote
       (if sibling = odd_promotion_sentinel H then promote cur
        else if even idx then combine cur sibling
        else combine sibling cur)
       (idx div 2) siblings"

lemma digests_combine:
  assumes sep: "separates combine promote L D" and xy: "x \<in> D" "y \<in> D"
  shows "digests combine promote t \<subseteq> D \<Longrightarrow> set (frontier t) \<subseteq> L \<Longrightarrow>
    combine x y \<in> digests combine promote t \<Longrightarrow> x \<in> digests combine promote t \<and> y \<in> digests combine promote t"
proof (induction t)
  case (HLeaf d)
  then show ?case using separatesD(5) [OF sep, of x y] xy by auto
next
  case (HNode a b)
  show ?case
  proof (cases "combine x y = combine (digest combine promote a) (digest combine promote b)")
    case True
    then have "x = digest combine promote a \<and> y = digest combine promote b"
      using HNode.prems xy by (intro separatesD(1) [OF sep]) (auto intro: digest_mem)
    then show ?thesis by simp
  next
    case False
    with HNode show ?thesis by auto
  qed
next
  case (HPromote a)
  then show ?case
    using separatesD(3) [OF sep, of x y "digest combine promote a"] xy by (auto intro: digest_mem)
qed

lemma digests_promote:
  assumes sep: "separates combine promote L D" and x: "x \<in> D"
  shows "digests combine promote t \<subseteq> D \<Longrightarrow> set (frontier t) \<subseteq> L \<Longrightarrow>
    promote x \<in> digests combine promote t \<Longrightarrow> x \<in> digests combine promote t"
proof (induction t)
  case (HLeaf d)
  then show ?case using separatesD(6) [OF sep, of x] x by auto
next
  case (HNode a b)
  then show ?case
    using separatesD(4) [OF sep, of x "digest combine promote a" "digest combine promote b"] x
    by (auto intro: digest_mem)
next
  case (HPromote a)
  then show ?case
    using separatesD(2) [OF sep, of x "digest combine promote a"] x by (auto intro: digest_mem)
qed

lemma digests_leaf:
  assumes sep: "separates combine promote L D"
  shows "digests combine promote t \<subseteq> D \<Longrightarrow> d \<in> L \<Longrightarrow> d \<in> digests combine promote t \<Longrightarrow> d \<in> set (frontier t)"
proof (induction t)
  case (HNode a b)
  then show ?case
    using separatesD(5) [OF sep, of "digest combine promote a" "digest combine promote b"]
    by (auto intro: digest_mem)
next
  case (HPromote a)
  then show ?case
    using separatesD(6) [OF sep, of "digest combine promote a"] by (auto intro: digest_mem)
qed simp

lemma merkle_walk_in_tree:
  assumes sep: "separates combine promote L D"
    and t: "digests combine promote t \<subseteq> D" "set (frontier t) \<subseteq> L"
  shows "merkle_walk_digests H combine promote cur idx siblings \<subseteq> D \<Longrightarrow>
    merkle_root_from_proof H combine promote cur idx siblings \<in> digests combine promote t \<Longrightarrow>
    cur \<in> digests combine promote t"
proof (induction siblings arbitrary: cur idx)
  case Nil
  then show ?case by simp
next
  case (Cons s siblings)
  then have D: "cur \<in> D" "s \<in> D" by auto
  let ?next = "if s = odd_promotion_sentinel H then promote cur
    else if even idx then combine cur s else combine s cur"
  have "?next \<in> digests combine promote t"
    using Cons.prems by (intro Cons.IH [of ?next "idx div 2"]) auto
  then show ?case
    using digests_promote [OF sep D(1) t] digests_combine [OF sep D t] digests_combine [OF sep D(2,1) t]
    by (auto split: if_splits)
qed

lemma merkle_proof_sound_shape:
  assumes sep: "separates combine promote L D"
    and "leaves \<noteq> []" "set leaves \<subseteq> L" "leaf \<in> L"
    and "merkle_digests combine promote leaves \<subseteq> D"
    and "merkle_walk_digests H combine promote leaf idx siblings \<subseteq> D"
    and "merkle_root_from_proof H combine promote leaf idx siblings = merkle_root_shape leaves combine promote"
  shows "leaf \<in> set leaves"
proof -
  let ?t = "merkle_htree leaves"
  have t: "digests combine promote ?t \<subseteq> D" "set (frontier ?t) \<subseteq> L" "frontier ?t = leaves"
    using assms(2,3,5) by (simp_all add: merkle_digests_def frontier_merkle_htree)
  have "merkle_root_from_proof H combine promote leaf idx siblings \<in> digests combine promote ?t"
    using assms(2,7) by (simp add: merkle_root_shape_htree)
  then have "leaf \<in> digests combine promote ?t"
    by (rule merkle_walk_in_tree [OF sep t(1,2) assms(6)])
  then show ?thesis
    using digests_leaf [OF sep t(1) assms(4)] t(3) by simp
qed

subsection \<open>The settlement binding separates\<close>

text \<open>
  The field lists hashed inside a settlement tree over the digests \<open>D\<close>, the condition on
  a leaf's field list that keeps it apart from them, and the hypothesis on SHA-256: no two
  of the named field lists collide. The hypothesis speaks of the finitely many preimages at
  hand, so it is not refuted by the existence of some collision elsewhere.
\<close>

definition node_fields :: "hash32 set \<Rightarrow> bytes list set" where
  "node_fields D = {[ascii ''BDLM_MERKLE_NODE_V1'', a, b] | a b. a \<in> D \<and> b \<in> D}
     \<union> {[ascii ''BDLM_MERKLE_ODD_PROMOTE_V1'', a] | a. a \<in> D}"

definition leaf_fields :: "bytes list \<Rightarrow> bool" where
  "leaf_fields fs \<longleftrightarrow> fs \<noteq> [] \<and> hd fs \<noteq> ascii ''BDLM_MERKLE_NODE_V1''
     \<and> hd fs \<noteq> ascii ''BDLM_MERKLE_ODD_PROMOTE_V1''"

definition no_collision :: "hasher \<Rightarrow> bytes list set \<Rightarrow> bool" where
  "no_collision H F \<longleftrightarrow> inj_on H (hash_fields_preimage ` F) \<and> (\<forall>fs \<in> F. fields_fit fs)"

lemma no_collisionD:
  assumes "no_collision H F" "hash_fields_bytes H fs = hash_fields_bytes H gs" "fs \<in> F" "gs \<in> F"
  shows "fs = gs"
proof (rule hash_fields_preimage_inj)
  show "fields_fit fs" "fields_fit gs"
    using assms by (simp_all add: no_collision_def)
  show "hash_fields_preimage fs = hash_fields_preimage gs"
    using assms unfolding no_collision_def hash_fields_bytes_def by (meson imageI inj_onD)
qed

lemma settlement_separates:
  assumes nc: "no_collision H (F \<union> node_fields D)" and lf: "\<forall>fs \<in> F. leaf_fields fs"
  shows "separates (merkle_node_hash H) (merkle_odd_promote_hash H) (hash_fields_bytes H ` F) D"
proof -
  let ?n = "\<lambda>a b. [ascii ''BDLM_MERKLE_NODE_V1'', a, b]"
  let ?p = "\<lambda>a. [ascii ''BDLM_MERKLE_ODD_PROMOTE_V1'', a]"
  have n: "?n a b \<in> F \<union> node_fields D" if "a \<in> D" "b \<in> D" for a b
    using that by (simp add: node_fields_def)
  have p: "?p a \<in> F \<union> node_fields D" if "a \<in> D" for a
    using that by (simp add: node_fields_def)
  note eq = no_collisionD [OF nc]
  have nn: "a = c \<and> b = d" if "hash_fields_bytes H (?n a b) = hash_fields_bytes H (?n c d)"
    "a \<in> D" "b \<in> D" "c \<in> D" "d \<in> D" for a b c d
    using eq [OF that(1) n n] that by simp
  have pp: "a = b" if "hash_fields_bytes H (?p a) = hash_fields_bytes H (?p b)" "a \<in> D" "b \<in> D" for a b
    using eq [OF that(1) p p] that by simp
  have np: "hash_fields_bytes H (?n a b) \<noteq> hash_fields_bytes H (?p c)" if "a \<in> D" "b \<in> D" "c \<in> D" for a b c
    using eq [OF _ n p, of a b c] that by auto
  have ln: "hash_fields_bytes H fs \<noteq> hash_fields_bytes H (?n a b)" if "fs \<in> F" "a \<in> D" "b \<in> D" for fs a b
    using eq [OF _ _ n, of fs a b] that lf by (auto simp: leaf_fields_def)
  have lp: "hash_fields_bytes H fs \<noteq> hash_fields_bytes H (?p a)" if "fs \<in> F" "a \<in> D" for fs a
    using eq [OF _ _ p, of fs a] that lf by (auto simp: leaf_fields_def)
  show ?thesis
    unfolding separates_def merkle_node_hash_def merkle_odd_promote_hash_def
    by (auto simp: np ln lp dest: nn pp)
qed


subsection \<open>Completeness of proofs\<close>

lemma digests_tree_parents:
  "t \<in> set ts \<Longrightarrow> \<exists>u \<in> set (tree_parents ts). digests combine promote t \<subseteq> digests combine promote u"
  by (induction ts rule: tree_parents.induct) auto

lemma digests_tree_over:
  "t \<in> set ts \<Longrightarrow> digests combine promote t \<subseteq> digests combine promote (tree_over ts)"
proof (induction ts arbitrary: t rule: tree_over.induct)
  case (1 ts)
  show ?case
  proof (cases "1 < length ts")
    case True
    obtain u where "u \<in> set (tree_parents ts)" "digests combine promote t \<subseteq> digests combine promote u"
      using digests_tree_parents [OF 1(2)] by blast
    with 1(1) [OF True] True show ?thesis by (subst tree_over.simps) auto
  next
    case False
    with 1(2) have "ts = [t]" by (cases ts) auto
    then show ?thesis by (simp add: tree_over_single)
  qed
qed

lemma layers_in_digests:
  "ts \<noteq> [] \<Longrightarrow> l \<in> set (merkle_layers_from combine promote (map (digest combine promote) ts)) \<Longrightarrow>
   set l \<subseteq> digests combine promote (tree_over ts)"
proof (induction ts rule: tree_over.induct)
  case (1 ts)
  have here: "set (map (digest combine promote) ts) \<subseteq> digests combine promote (tree_over ts)"
    using digests_tree_over digest_in_digests by fastforce
  show ?case
  proof (cases "1 < length ts")
    case True
    have "tree_parents ts \<noteq> []" using True by (cases ts rule: tree_parents.cases) auto
    moreover have "tree_over ts = tree_over (tree_parents ts)"
      using True by (subst tree_over.simps) simp
    ultimately show ?thesis
      using 1(1) [OF True] 1(3) True here
      by (auto simp: merkle_layers_from_step merkle_parent_layer_digest)
  next
    case False
    with 1(3) here show ?thesis by (simp add: merkle_layers_from_single)
  qed
qed

lemma digests_cases:
  "d \<in> digests combine promote t \<Longrightarrow>
   d \<in> set (frontier t) \<or> (\<exists>a \<in> digests combine promote t. \<exists>b \<in> digests combine promote t. d = combine a b)
   \<or> (\<exists>a \<in> digests combine promote t. d = promote a)"
proof (induction t)
  case (HNode a b)
  have in_tree: "digest combine promote a \<in> digests combine promote (HNode a b)"
    "digest combine promote b \<in> digests combine promote (HNode a b)"
    by simp_all
  consider "d = combine (digest combine promote a) (digest combine promote b)"
    | "d \<in> digests combine promote a" | "d \<in> digests combine promote b"
    using HNode.prems by auto
  then show ?case
  proof cases
    case 1
    with in_tree show ?thesis by blast
  next
    case 2
    with HNode.IH(1) show ?thesis by (simp only: frontier.simps digests.simps set_append) blast
  next
    case 3
    with HNode.IH(2) show ?thesis by (simp only: frontier.simps digests.simps set_append) blast
  qed
next
  case (HPromote a)
  have in_tree: "digest combine promote a \<in> digests combine promote (HPromote a)" by simp
  consider "d = promote (digest combine promote a)" | "d \<in> digests combine promote a"
    using HPromote.prems by auto
  then show ?case
  proof cases
    case 1
    with in_tree show ?thesis by blast
  next
    case 2
    with HPromote.IH show ?thesis by (simp only: frontier.simps digests.simps) blast
  qed
qed simp

definition sentinel_fields :: "bytes list" where
  "sentinel_fields = [ascii ''BDLM_MERKLE_ODD_SENTINEL_V1'']"

text \<open>A field list that is neither a leaf nor an inner node of the tree does not hash into it.\<close>

lemma foreign_not_in_tree:
  assumes nc: "no_collision H (insert x (F \<union> node_fields D))"
    and F: "set (frontier t) \<subseteq> hash_fields_bytes H ` F" and x: "x \<notin> F" "x \<notin> node_fields D"
    and D: "digests (merkle_node_hash H) (merkle_odd_promote_hash H) t \<subseteq> D"
  shows "hash_fields_bytes H x \<notin> digests (merkle_node_hash H) (merkle_odd_promote_hash H) t"
proof
  have apart: "hash_fields_bytes H x \<noteq> hash_fields_bytes H fs" if "fs \<in> F \<union> node_fields D" for fs
    using no_collisionD [OF nc, of x fs] that x by auto
  assume "hash_fields_bytes H x \<in> digests (merkle_node_hash H) (merkle_odd_promote_hash H) t"
  from digests_cases [OF this] show False
  proof (elim disjE bexE)
    assume "hash_fields_bytes H x \<in> set (frontier t)"
    with F apart show False by blast
  next
    fix a b
    assume "a \<in> digests (merkle_node_hash H) (merkle_odd_promote_hash H) t"
      "b \<in> digests (merkle_node_hash H) (merkle_odd_promote_hash H) t"
      "hash_fields_bytes H x = merkle_node_hash H a b"
    with apart [of "[ascii ''BDLM_MERKLE_NODE_V1'', a, b]"] D show False
      by (auto simp: merkle_node_hash_def node_fields_def subset_eq)
  next
    fix a
    assume "a \<in> digests (merkle_node_hash H) (merkle_odd_promote_hash H) t"
      "hash_fields_bytes H x = merkle_odd_promote_hash H a"
    with apart [of "[ascii ''BDLM_MERKLE_ODD_PROMOTE_V1'', a]"] D show False
      by (auto simp: merkle_odd_promote_hash_def node_fields_def subset_eq)
  qed
qed

lemma sentinel_not_in_tree:
  assumes "no_collision H (insert sentinel_fields (F \<union> node_fields D))"
    and "set (frontier t) \<subseteq> hash_fields_bytes H ` F" "sentinel_fields \<notin> F"
    and "digests (merkle_node_hash H) (merkle_odd_promote_hash H) t \<subseteq> D"
  shows "odd_promotion_sentinel H \<notin> digests (merkle_node_hash H) (merkle_odd_promote_hash H) t"
  using foreign_not_in_tree [OF assms(1-3) _ assms(4)]
  by (simp add: odd_promotion_sentinel_def sentinel_fields_def node_fields_def)

text \<open>
  Every proof taken from a settlement tree over tagged leaves verifies against the root
  of that tree.
\<close>

lemma settlement_proof_complete:
  assumes nc: "no_collision H (insert sentinel_fields
      (F \<union> node_fields (merkle_digests (merkle_node_hash H) (merkle_odd_promote_hash H) leaves)))"
    and F: "set leaves \<subseteq> hash_fields_bytes H ` F" "sentinel_fields \<notin> F"
    and pf: "merkle_proof H leaves i (merkle_node_hash H) (merkle_odd_promote_hash H) = Some siblings"
  shows "i < length leaves \<and>
    merkle_root_from_proof H (merkle_node_hash H) (merkle_odd_promote_hash H) (leaves ! i) i siblings = merkle_root H leaves"
proof -
  let ?c = "merkle_node_hash H" and ?p = "merkle_odd_promote_hash H"
  have i: "i < length leaves" "leaves \<noteq> []"
    and sib: "siblings = merkle_proof_walk (odd_promotion_sentinel H)
      (take (length (merkle_layers_from ?c ?p leaves) - 1) (merkle_layers_from ?c ?p leaves)) i"
    using pf by (auto simp: merkle_proof_def merkle_layers_def Let_def split: if_splits)
  have "odd_promotion_sentinel H \<notin> digests ?c ?p (tree_over (map HLeaf leaves))"
    using sentinel_not_in_tree [OF nc, of "merkle_htree leaves"] F i(2)
    by (simp add: frontier_merkle_htree [OF i(2)] merkle_digests_def) (simp add: merkle_htree_def)
  moreover have leaves: "map (digest ?c ?p) (map HLeaf leaves) = leaves"
    by (induction leaves) auto
  ultimately have "\<forall>l \<in> set (merkle_layers_from ?c ?p leaves). odd_promotion_sentinel H \<notin> set l"
    using layers_in_digests [of "map HLeaf leaves" _ ?c ?p, unfolded leaves] i(2) by blast
  with i merkle_proof_walk_eq [OF i(1), of ?c ?p H] show ?thesis
    by (simp add: sib merkle_root_def merkle_root_shape_eq)
qed

subsection \<open>A settlement root commits to the leaves below it\<close>

definition empty_root_fields :: "bytes list" where
  "empty_root_fields = [ascii ''BDLM_EMPTY_MERKLE_ROOT_V1'']"

text \<open>The inner field lists of the settlement tree over the leaves \<open>fss\<close>.\<close>

definition tree_nodes :: "hasher \<Rightarrow> bytes list list \<Rightarrow> hash32 set" where
  "tree_nodes H fss = merkle_digests (merkle_node_hash H) (merkle_odd_promote_hash H) (map (hash_fields_bytes H) fss)"

lemma empty_root_apart:
  assumes nc: "no_collision H (insert empty_root_fields (F \<union> node_fields D))"
    and "set fss \<subseteq> F" "tree_nodes H fss \<subseteq> D" "empty_root_fields \<notin> F" "fss \<noteq> []"
  shows "merkle_root H (map (hash_fields_bytes H) fss) \<noteq> merkle_root H []"
proof -
  let ?leaves = "map (hash_fields_bytes H) fss"
  have ne: "?leaves \<noteq> []" using assms(5) by simp
  have "hash_fields_bytes H empty_root_fields \<notin> tree_nodes H fss"
    unfolding tree_nodes_def merkle_digests_def
  proof (rule foreign_not_in_tree [OF nc])
    show "set (frontier (merkle_htree ?leaves)) \<subseteq> hash_fields_bytes H ` F"
      using assms(2) by (auto simp: frontier_merkle_htree [OF ne])
    show "empty_root_fields \<notin> node_fields D" by (simp add: empty_root_fields_def node_fields_def)
  qed (use assms(3,4) in \<open>simp_all add: tree_nodes_def merkle_digests_def\<close>)
  moreover have "merkle_root H ?leaves \<in> tree_nodes H fss"
    using ne digest_in_digests by (simp add: merkle_root_def tree_nodes_def merkle_digests_def merkle_root_shape_htree)
  ultimately show ?thesis by (auto simp: merkle_root_def empty_root_fields_def)
qed

lemma settlement_root_binds:
  assumes nc: "no_collision H (insert empty_root_fields (set fss \<union> set gss \<union> node_fields (tree_nodes H fss \<union> tree_nodes H gss)))"
    and leaf: "\<forall>fs \<in> set fss \<union> set gss. leaf_fields fs \<and> fs \<noteq> empty_root_fields"
    and root: "merkle_root H (map (hash_fields_bytes H) fss) = merkle_root H (map (hash_fields_bytes H) gss)"
  shows "fss = gss"
proof (cases "fss = [] \<or> gss = []")
  case True
  moreover have "empty_root_fields \<notin> set fss \<union> set gss" using leaf by blast
  ultimately show ?thesis
    using empty_root_apart [OF nc, of fss] empty_root_apart [OF nc, of gss] root
    by (cases "fss = []"; cases "gss = []") auto
next
  case False
  let ?F = "set fss \<union> set gss" and ?D = "tree_nodes H fss \<union> tree_nodes H gss"
  have nc': "no_collision H (?F \<union> node_fields ?D)"
    using nc unfolding no_collision_def by (meson image_mono inj_on_subset subset_insertI subsetD)
  have "map (hash_fields_bytes H) fss = map (hash_fields_bytes H) gss"
  proof (rule merkle_root_shape_inj)
    show "separates (merkle_node_hash H) (merkle_odd_promote_hash H) (hash_fields_bytes H ` ?F) ?D"
      by (rule settlement_separates [OF nc']) (use leaf in blast)
    show "merkle_root_shape (map (hash_fields_bytes H) fss) (merkle_node_hash H) (merkle_odd_promote_hash H)
        = merkle_root_shape (map (hash_fields_bytes H) gss) (merkle_node_hash H) (merkle_odd_promote_hash H)"
      using root False by (simp add: merkle_root_def)
  qed (use False in \<open>auto simp: tree_nodes_def\<close>)
  moreover have "inj_on (hash_fields_bytes H) ?F"
    by (rule inj_onI) (use no_collisionD [OF nc'] in blast)
  ultimately show ?thesis by (rule map_inj_on)
qed

end
