(* ===== verification/BTree_Map.thy ===== *)
theory BTree_Map
  imports Budlum_Prelude
begin

text \<open>
  \<open>std::collections::BTreeMap\<close>: a finite map that iterates in the order of its keys.
  Every committed state of the node is built from these maps because two nodes must visit
  the entries in one order, so the order is part of the model. The representation is an
  association list with strictly increasing keys, closed off behind a type so that no
  component lemma carries the ordering as a hypothesis.
\<close>

subsection \<open>The representation\<close>

fun ins_entry :: "'k::linorder \<Rightarrow> 'v \<Rightarrow> ('k \<times> 'v) list \<Rightarrow> ('k \<times> 'v) list" where
  "ins_entry k v [] = [(k, v)]"
| "ins_entry k v ((k', v') # ps) =
     (if k < k' then (k, v) # (k', v') # ps
      else if k = k' then (k, v) # ps
      else (k', v') # ins_entry k v ps)"

abbreviation keys_increasing :: "('k::linorder \<times> 'v) list \<Rightarrow> bool" where
  "keys_increasing ps \<equiv> sorted_wrt (<) (map fst ps)"

lemma fst_set_ins_entry: "fst ` set (ins_entry k v ps) = insert k (fst ` set ps)"
  by (induction k v ps rule: ins_entry.induct) auto

lemma keys_increasing_ins_entry: "keys_increasing ps \<Longrightarrow> keys_increasing (ins_entry k v ps)"
proof (induction k v ps rule: ins_entry.induct)
  case (2 k v k' v' ps)
  have "\<forall>x \<in> fst ` set (ins_entry k v ps). k' < x" if "k' < k"
    using 2(2) that by (simp add: fst_set_ins_entry)
  with 2 show ?case by fastforce
qed simp

lemma map_of_ins_entry: "map_of (ins_entry k v ps) = (map_of ps)(k \<mapsto> v)"
  by (induction k v ps rule: ins_entry.induct) (auto simp: fun_eq_iff)

lemma keys_increasing_filter: "keys_increasing ps \<Longrightarrow> keys_increasing (filter P ps)"
  by (induction ps) auto

lemma keys_increasing_distinct: "keys_increasing ps \<Longrightarrow> distinct (map fst ps)"
  by (induction ps) auto

lemma map_of_filter_key: "map_of (filter (\<lambda>p. fst p \<noteq> k) ps) = (map_of ps)(k := None)"
  by (induction ps) (auto simp: fun_eq_iff)

lemma map_of_filter_entry:
  assumes "distinct (map fst ps)"
  shows "map_of (filter (\<lambda>(k, v). P k v) ps) k
       = (case map_of ps k of None \<Rightarrow> None | Some v \<Rightarrow> if P k v then Some v else None)"
  using assms
  by (induction ps) (auto split: option.splits simp: map_of_eq_None_iff image_iff)

subsection \<open>The type and its operations\<close>

typedef (overloaded) ('k::linorder, 'v) btree_map = "{ps :: ('k \<times> 'v) list. keys_increasing ps}"
  morphisms bt_entries BTreeMap
  by (rule exI [of _ "[]"]) simp

setup_lifting type_definition_btree_map

lift_definition bt_empty :: "('k::linorder, 'v) btree_map" is "[]"
  by simp

lift_definition bt_get :: "('k::linorder, 'v) btree_map \<Rightarrow> 'k \<Rightarrow> 'v option" is map_of .

lift_definition bt_insert :: "'k::linorder \<Rightarrow> 'v \<Rightarrow> ('k, 'v) btree_map \<Rightarrow> ('k, 'v) btree_map"
  is ins_entry
  by (rule keys_increasing_ins_entry)

lift_definition bt_remove :: "'k::linorder \<Rightarrow> ('k, 'v) btree_map \<Rightarrow> ('k, 'v) btree_map"
  is "\<lambda>k. filter (\<lambda>p. fst p \<noteq> k)"
  by (rule keys_increasing_filter)

lift_definition bt_retain :: "('k::linorder \<Rightarrow> 'v \<Rightarrow> bool) \<Rightarrow> ('k, 'v) btree_map \<Rightarrow> ('k, 'v) btree_map"
  is "\<lambda>P. filter (\<lambda>(k, v). P k v)"
  by (rule keys_increasing_filter)

definition bt_contains :: "('k::linorder, 'v) btree_map \<Rightarrow> 'k \<Rightarrow> bool" where
  "bt_contains m k = (bt_get m k \<noteq> None)"

definition bt_keys :: "('k::linorder, 'v) btree_map \<Rightarrow> 'k list" where
  "bt_keys m = map fst (bt_entries m)"

definition bt_values :: "('k::linorder, 'v) btree_map \<Rightarrow> 'v list" where
  "bt_values m = map snd (bt_entries m)"

definition bt_len :: "('k::linorder, 'v) btree_map \<Rightarrow> nat" where
  "bt_len m = length (bt_entries m)"

text \<open>\<open>map.range(..=hi).map(|(&k, _)| k).collect()\<close>\<close>

definition bt_keys_upto :: "('k::linorder, 'v) btree_map \<Rightarrow> 'k \<Rightarrow> 'k list" where
  "bt_keys_upto m hi = filter (\<lambda>k. k \<le> hi) (bt_keys m)"

text \<open>\<open>map.entry(k).or_default().push(x)\<close>\<close>

definition bt_push :: "'k::linorder \<Rightarrow> 'x \<Rightarrow> ('k, 'x list) btree_map \<Rightarrow> ('k, 'x list) btree_map" where
  "bt_push k x m = bt_insert k ((case bt_get m k of None \<Rightarrow> [] | Some xs \<Rightarrow> xs) @ [x]) m"

subsection \<open>The laws a client relies on\<close>

text \<open>
  The interface of an ordered map: point lookups after each update, and that the
  iteration lists exactly the map in increasing key order. Sums over the values are what
  the token and stake accounting needs; they are derived here once, from the laws alone.
\<close>

locale ordered_map =
  fixes empty :: "'m"
    and get :: "'m \<Rightarrow> 'k::linorder \<Rightarrow> 'v option"
    and insert :: "'k \<Rightarrow> 'v \<Rightarrow> 'm \<Rightarrow> 'm"
    and remove :: "'k \<Rightarrow> 'm \<Rightarrow> 'm"
    and retain :: "('k \<Rightarrow> 'v \<Rightarrow> bool) \<Rightarrow> 'm \<Rightarrow> 'm"
    and entries :: "'m \<Rightarrow> ('k \<times> 'v) list"
  assumes get_empty: "get empty k = None"
    and get_insert: "get (insert k v m) k' = (if k' = k then Some v else get m k')"
    and get_remove: "get (remove k m) k' = (if k' = k then None else get m k')"
    and get_retain: "get (retain P m) k =
          (case get m k of None \<Rightarrow> None | Some v \<Rightarrow> if P k v then Some v else None)"
    and entries_get: "map_of (entries m) = get m"
    and entries_increasing: "keys_increasing (entries m)"
begin

lemma entries_distinct: "distinct (map fst (entries m))"
  by (rule keys_increasing_distinct [OF entries_increasing])

lemma in_entries_iff: "(k, v) \<in> set (entries m) \<longleftrightarrow> get m k = Some v"
  using map_of_eq_Some_iff [OF entries_distinct] by (simp add: entries_get)

lemma finite_dom_get: "finite (dom (get m))"
  using finite_dom_map_of [of "entries m"] by (simp add: entries_get)

lemma dom_get: "dom (get m) = fst ` set (entries m)"
  by (metis dom_map_of_conv_image_fst entries_get)

lemma map_eqI:
  assumes "\<And>k. get m k = get m' k"
  shows "entries m = entries m'"
proof -
  have "set (entries m) = set (entries m')"
    using assms by (auto simp: in_entries_iff)
  moreover from this have "inj_on fst (set (entries m) \<union> set (entries m'))"
    using entries_distinct [of m] by (simp add: distinct_map)
  moreover have "sorted (map fst (entries m))" "sorted (map fst (entries m'))"
    using entries_increasing strict_sorted_imp_sorted by blast+
  ultimately show ?thesis
    by (intro map_sorted_distinct_set_unique [of fst]) (auto intro: entries_distinct)
qed

lemma sum_entries: "sum_list (map (\<lambda>(k, v). f k v) (entries m)) = (\<Sum>k \<in> dom (get m). f k (the (get m k)))"
  for f :: "'k \<Rightarrow> 'v \<Rightarrow> nat"
proof -
  have inj: "inj_on fst (set (entries m))" and d: "distinct (entries m)"
    using entries_distinct [of m] by (auto simp: distinct_map)
  have "sum_list (map (\<lambda>(k, v). f k v) (entries m)) = (\<Sum>(k, v) \<in> set (entries m). f k v)"
    using d by (simp add: sum_list_distinct_conv_sum_set)
  also have "\<dots> = (\<Sum>p \<in> set (entries m). f (fst p) (the (get m (fst p))))"
    by (rule sum.cong) (auto simp: in_entries_iff)
  also have "\<dots> = (\<Sum>k \<in> fst ` set (entries m). f k (the (get m k)))"
    using inj by (simp add: sum.reindex)
  finally show ?thesis by (simp add: dom_get)
qed

lemma sum_remove:
  "sum_list (map (\<lambda>(k, v). f k v) (entries (remove k m))) + (case get m k of None \<Rightarrow> 0 | Some v \<Rightarrow> f k v)
   = sum_list (map (\<lambda>(k, v). f k v) (entries m))" for f :: "'k \<Rightarrow> 'v \<Rightarrow> nat"
proof -
  have dom: "dom (get (remove k m)) = dom (get m) - {k}"
    by (auto simp: get_remove dom_def)
  have rest: "(\<Sum>x \<in> dom (get m) - {k}. f x (the (get (remove k m) x)))
            = (\<Sum>x \<in> dom (get m) - {k}. f x (the (get m x)))"
    by (rule sum.cong) (auto simp: get_remove)
  show ?thesis
  proof (cases "get m k")
    case None
    then have "dom (get m) - {k} = dom (get m)" by auto
    with None rest show ?thesis by (simp add: sum_entries dom)
  next
    case (Some v)
    then have "k \<in> dom (get m)" by auto
    with Some rest show ?thesis
      using sum.remove [OF finite_dom_get, of k m "\<lambda>x. f x (the (get m x))"]
      by (simp add: sum_entries dom)
  qed
qed

lemma sum_insert:
  "sum_list (map (\<lambda>(k, v). f k v) (entries (insert k v m))) + (case get m k of None \<Rightarrow> 0 | Some u \<Rightarrow> f k u)
   = sum_list (map (\<lambda>(k, v). f k v) (entries m)) + f k v" for f :: "'k \<Rightarrow> 'v \<Rightarrow> nat"
proof -
  have "entries (remove k (insert k v m)) = entries (remove k m)"
    by (rule map_eqI) (simp add: get_insert get_remove)
  with sum_remove [of f k m] sum_remove [of f k "insert k v m"] show ?thesis
    by (simp add: get_insert)
qed

end

interpretation bt: ordered_map bt_empty bt_get bt_insert bt_remove bt_retain bt_entries
proof unfold_locales
  fix k k' :: "'a::linorder" and v :: 'b and m :: "('a, 'b) btree_map" and P
  show "bt_get bt_empty k = (None :: 'b option)" by transfer simp
  show "bt_get (bt_insert k v m) k' = (if k' = k then Some v else bt_get m k')"
    by transfer (simp add: map_of_ins_entry)
  show "bt_get (bt_remove k m) k' = (if k' = k then None else bt_get m k')"
    by transfer (simp add: map_of_filter_key)
  show "bt_get (bt_retain P m) k =
      (case bt_get m k of None \<Rightarrow> None | Some v \<Rightarrow> if P k v then Some v else None)"
    by transfer (simp add: map_of_filter_entry keys_increasing_distinct)
  show "map_of (bt_entries m) = bt_get m" by transfer simp
  show "keys_increasing (bt_entries m)" by transfer simp
qed

lemmas bt_get_simps [simp] = bt.get_empty bt.get_insert bt.get_remove bt.get_retain

lemmas bt_entries_simps [simp] = bt_empty.rep_eq bt_insert.rep_eq bt_remove.rep_eq bt_retain.rep_eq

lemma bt_map_eqI: "(\<And>k. bt_get m k = bt_get m' k) \<Longrightarrow> m = m'"
  using bt.map_eqI bt_entries_inject by blast

lemma bt_get_push [simp]:
  "bt_get (bt_push k x m) k' =
     (if k' = k then Some ((case bt_get m k of None \<Rightarrow> [] | Some xs \<Rightarrow> xs) @ [x]) else bt_get m k')"
  by (simp add: bt_push_def)

lemma in_bt_keys_iff: "k \<in> set (bt_keys m) \<longleftrightarrow> bt_get m k \<noteq> None"
  using bt.dom_get [of m] by (auto simp: bt_keys_def)

lemma in_bt_keys_upto_iff: "k \<in> set (bt_keys_upto m hi) \<longleftrightarrow> bt_get m k \<noteq> None \<and> k \<le> hi"
  by (auto simp: bt_keys_upto_def in_bt_keys_iff)

lemma in_bt_values_iff: "v \<in> set (bt_values m) \<longleftrightarrow> (\<exists>k. bt_get m k = Some v)"
proof -
  have "v \<in> snd ` set (bt_entries m) \<longleftrightarrow> (\<exists>k. (k, v) \<in> set (bt_entries m))" by force
  then show ?thesis by (simp add: bt_values_def bt.in_entries_iff)
qed

end
