(* ===== verification/Cross_Domain_Message.thy ===== *)
theory Cross_Domain_Message
  imports Merkle_Tree BTree_Map
begin

text \<open>
  \<^verbatim>\<open>src/cross_domain/message.rs\<close>, \<^verbatim>\<open>src/cross_domain/event_tree.rs\<close> and
  \<^verbatim>\<open>src/cross_domain/message_registry.rs\<close>: the messages that cross domains, the
  events that carry them, the per-domain tree of events with its inclusion proofs, and the
  registry that admits a message once. The lemmas show that an identifier determines its
  message, and that an inclusion proof is both complete and sound.
\<close>

subsection \<open>Messages\<close>

type_synonym message_id = hash32

datatype message_kind = BridgeLock | BridgeMint | BridgeBurn | BridgeUnlock | Custom bytes

fun message_kind_bytes :: "message_kind \<Rightarrow> bytes" where
  "message_kind_bytes BridgeLock = ascii ''bridge-lock''"
| "message_kind_bytes BridgeMint = ascii ''bridge-mint''"
| "message_kind_bytes BridgeBurn = ascii ''bridge-burn''"
| "message_kind_bytes BridgeUnlock = ascii ''bridge-unlock''"
| "message_kind_bytes (Custom bs) = ascii ''custom:'' @ bs"

fun message_kind_name :: "message_kind \<Rightarrow> string" where
  "message_kind_name BridgeLock = ''BridgeLock''"
| "message_kind_name BridgeMint = ''BridgeMint''"
| "message_kind_name BridgeBurn = ''BridgeBurn''"
| "message_kind_name BridgeUnlock = ''BridgeUnlock''"
| "message_kind_name (Custom _) = ''Custom''"

record cross_domain_message =
  msg_id :: message_id
  msg_correlation_id :: "message_id option"
  msg_source_domain :: domain_id
  msg_target_domain :: domain_id
  msg_source_height :: u64
  msg_event_index :: u32
  msg_nonce :: u64
  msg_sender :: address
  msg_recipient :: address
  msg_payload_hash :: hash32
  msg_kind :: message_kind
  msg_expiry_height :: u64

record cross_domain_message_params =
  par_source_domain :: domain_id
  par_target_domain :: domain_id
  par_source_height :: u64
  par_event_index :: u32
  par_nonce :: u64
  par_sender :: address
  par_recipient :: address
  par_payload_hash :: hash32
  par_kind :: message_kind
  par_expiry_height :: u64

definition message_fields :: "cross_domain_message \<Rightarrow> bytes list" where
  "message_fields m =
     [ascii ''BDLM_CROSS_DOMAIN_MESSAGE_V2'',
      (case msg_correlation_id m of None \<Rightarrow> replicate 32 0 | Some c \<Rightarrow> c),
      le_bytes 4 (msg_source_domain m),
      le_bytes 4 (msg_target_domain m),
      le_bytes 8 (msg_source_height m),
      le_bytes 4 (msg_event_index m),
      le_bytes 8 (msg_nonce m),
      msg_sender m,
      msg_recipient m,
      msg_payload_hash m,
      message_kind_bytes (msg_kind m),
      le_bytes 8 (msg_expiry_height m)]"

definition calculate_message_id :: "hasher \<Rightarrow> cross_domain_message \<Rightarrow> message_id" where
  "calculate_message_id H m = hash_fields_bytes H (message_fields m)"

definition verify_id :: "hasher \<Rightarrow> cross_domain_message \<Rightarrow> bool" where
  "verify_id H m = (msg_id m = calculate_message_id H m)"

definition message_new :: "hasher \<Rightarrow> cross_domain_message_params \<Rightarrow> cross_domain_message" where
  "message_new H p =
     (let m = \<lparr> msg_id = replicate 32 0, msg_correlation_id = None,
                msg_source_domain = par_source_domain p, msg_target_domain = par_target_domain p,
                msg_source_height = par_source_height p, msg_event_index = par_event_index p,
                msg_nonce = par_nonce p, msg_sender = par_sender p, msg_recipient = par_recipient p,
                msg_payload_hash = par_payload_hash p, msg_kind = par_kind p,
                msg_expiry_height = par_expiry_height p \<rparr>
      in m\<lparr> msg_id := calculate_message_id H m \<rparr>)"

definition message_new_correlated ::
  "hasher \<Rightarrow> cross_domain_message_params \<Rightarrow> message_id \<Rightarrow> cross_domain_message" where
  "message_new_correlated H p c =
     (let m = (message_new H p)\<lparr> msg_correlation_id := Some c \<rparr>
      in m\<lparr> msg_id := calculate_message_id H m \<rparr>)"

subsection \<open>Events and their tree\<close>

datatype domain_event_kind =
  BridgeLocked | BridgeMinted | BridgeBurned | BridgeUnlocked | MessageEmitted | CustomEvent bytes

fun domain_event_kind_bytes :: "domain_event_kind \<Rightarrow> bytes" where
  "domain_event_kind_bytes BridgeLocked = ascii ''bridge-locked''"
| "domain_event_kind_bytes BridgeMinted = ascii ''bridge-minted''"
| "domain_event_kind_bytes BridgeBurned = ascii ''bridge-burned''"
| "domain_event_kind_bytes BridgeUnlocked = ascii ''bridge-unlocked''"
| "domain_event_kind_bytes MessageEmitted = ascii ''message-emitted''"
| "domain_event_kind_bytes (CustomEvent bs) = ascii ''custom:'' @ bs"

record domain_event =
  ev_domain_id :: domain_id
  ev_domain_height :: u64
  ev_event_index :: u32
  ev_kind :: domain_event_kind
  ev_emitter :: address
  ev_message :: "cross_domain_message option"
  ev_payload_hash :: hash32

definition event_fields :: "domain_event \<Rightarrow> bytes list" where
  "event_fields e =
     [ascii ''BDLM_DOMAIN_EVENT_V1'',
      le_bytes 4 (ev_domain_id e),
      le_bytes 8 (ev_domain_height e),
      le_bytes 4 (ev_event_index e),
      domain_event_kind_bytes (ev_kind e),
      ev_emitter e,
      (case ev_message e of None \<Rightarrow> replicate 32 0 | Some m \<Rightarrow> msg_id m),
      ev_payload_hash e]"

definition leaf_hash :: "hasher \<Rightarrow> domain_event \<Rightarrow> hash32" where
  "leaf_hash H e = hash_fields_bytes H (event_fields e)"

record merkle_proof_data =
  proof_leaf :: hash32
  proof_index :: nat
  proof_siblings :: "hash32 list"

record domain_event_tree =
  tree_events :: "domain_event list"

definition event_tree_new :: domain_event_tree where
  "event_tree_new = \<lparr> tree_events = [] \<rparr>"

definition event_tree_push :: "domain_event \<Rightarrow> domain_event_tree \<Rightarrow> domain_event_tree" where
  "event_tree_push e t = t\<lparr> tree_events := tree_events t @ [e] \<rparr>"

definition event_tree_root :: "hasher \<Rightarrow> domain_event_tree \<Rightarrow> hash32" where
  "event_tree_root H t = merkle_root H (map (leaf_hash H) (tree_events t))"

definition event_tree_proof :: "hasher \<Rightarrow> domain_event_tree \<Rightarrow> nat \<Rightarrow> merkle_proof_data option" where
  "event_tree_proof H t index =
     (let leaves = map (leaf_hash H) (tree_events t) in
      case Merkle_Tree.merkle_proof H leaves index (merkle_node_hash H) (merkle_odd_promote_hash H) of
        None \<Rightarrow> None
      | Some siblings \<Rightarrow>
          (if index < length leaves
           then Some \<lparr> proof_leaf = leaves ! index, proof_index = index, proof_siblings = siblings \<rparr>
           else None))"

definition proof_verify :: "hasher \<Rightarrow> merkle_proof_data \<Rightarrow> hash32 \<Rightarrow> bool" where
  "proof_verify H p expected_root =
     (merkle_root_from_proof H (merkle_node_hash H) (merkle_odd_promote_hash H)
        (proof_leaf p) (proof_index p) (proof_siblings p) = expected_root)"

subsection \<open>The message registry\<close>

datatype message_registry_error = InvalidMessageId | MessageAlreadyRegistered message_id

record message_registry =
  reg_messages :: "(message_id, cross_domain_message) btree_map"

definition message_registry_new :: message_registry where
  "message_registry_new = \<lparr> reg_messages = bt_empty \<rparr>"

definition message_registry_insert ::
  "hasher \<Rightarrow> cross_domain_message \<Rightarrow> message_registry \<Rightarrow> (message_registry_error, unit, message_registry) outcome" where
  "message_registry_insert H m r =
     (if \<not> verify_id H m then (Inl InvalidMessageId, r)
      else if bt_contains (reg_messages r) (msg_id m) then (Inl (MessageAlreadyRegistered (msg_id m)), r)
      else (Inr (), r\<lparr> reg_messages := bt_insert (msg_id m) m (reg_messages r) \<rparr>))"

definition message_leaf_fields :: "cross_domain_message \<Rightarrow> bytes list" where
  "message_leaf_fields m =
     [ascii ''BDLM_MESSAGE_LEAF_V1'', msg_id m, le_bytes 4 (msg_source_domain m),
      le_bytes 4 (msg_target_domain m), le_bytes 8 (msg_nonce m), message_kind_bytes (msg_kind m)]"

definition message_registry_root :: "hasher \<Rightarrow> message_registry \<Rightarrow> hash32" where
  "message_registry_root H r =
     merkle_root H (map (\<lambda>m. hash_fields_bytes H (message_leaf_fields m)) (bt_values (reg_messages r)))"

subsection \<open>Identifiers\<close>

lemma ascii_no_prefix: "c \<noteq> d \<Longrightarrow> ascii (c # s) \<noteq> ascii (d # t) @ bs"
proof
  assume ne: "c \<noteq> d" and "ascii (c # s) = ascii (d # t) @ bs"
  then have "ascii [c] = ascii [d]" by (simp add: ascii_def)
  with ne show False by simp
qed

lemma message_kind_bytes_inj: "message_kind_bytes k = message_kind_bytes k' \<Longrightarrow> k = k'"
  by (cases k; cases k') (auto simp: ascii_no_prefix ascii_no_prefix [symmetric])

lemma domain_event_kind_bytes_inj: "domain_event_kind_bytes k = domain_event_kind_bytes k' \<Longrightarrow> k = k'"
  by (cases k; cases k') (auto simp: ascii_no_prefix ascii_no_prefix [symmetric])

text \<open>Everything a message carries besides its own identifier; an absent correlation id reads as zeros.\<close>

definition message_content :: "cross_domain_message \<Rightarrow> cross_domain_message" where
  "message_content m = m\<lparr> msg_id := [],
     msg_correlation_id := Some (case msg_correlation_id m of None \<Rightarrow> replicate 32 0 | Some c \<Rightarrow> c) \<rparr>"

lemma message_fields_inj: "message_fields m = message_fields m' \<Longrightarrow> message_content m = message_content m'"
  by (rule cross_domain_message.equality)
    (auto simp: message_fields_def message_content_def dest: message_kind_bytes_inj)

lemma verify_id_message_new [simp]: "verify_id H (message_new H p)"
  by (simp add: verify_id_def message_new_def Let_def calculate_message_id_def message_fields_def)

lemma verify_id_message_new_correlated [simp]: "verify_id H (message_new_correlated H p c)"
  by (simp add: verify_id_def message_new_correlated_def Let_def calculate_message_id_def message_fields_def)

lemma message_new_sel [simp]:
  "msg_correlation_id (message_new H p) = None"
  "msg_source_domain (message_new H p) = par_source_domain p"
  "msg_target_domain (message_new H p) = par_target_domain p"
  "msg_source_height (message_new H p) = par_source_height p"
  "msg_event_index (message_new H p) = par_event_index p"
  "msg_nonce (message_new H p) = par_nonce p"
  "msg_sender (message_new H p) = par_sender p"
  "msg_recipient (message_new H p) = par_recipient p"
  "msg_payload_hash (message_new H p) = par_payload_hash p"
  "msg_kind (message_new H p) = par_kind p"
  "msg_expiry_height (message_new H p) = par_expiry_height p"
  by (simp_all add: message_new_def Let_def)

lemma message_new_correlated_sel [simp]:
  "msg_correlation_id (message_new_correlated H p c) = Some c"
  "msg_source_domain (message_new_correlated H p c) = par_source_domain p"
  "msg_target_domain (message_new_correlated H p c) = par_target_domain p"
  "msg_nonce (message_new_correlated H p c) = par_nonce p"
  "msg_sender (message_new_correlated H p c) = par_sender p"
  "msg_recipient (message_new_correlated H p c) = par_recipient p"
  "msg_payload_hash (message_new_correlated H p c) = par_payload_hash p"
  "msg_kind (message_new_correlated H p c) = par_kind p"
  "msg_expiry_height (message_new_correlated H p c) = par_expiry_height p"
  by (simp_all add: message_new_correlated_def Let_def)

text \<open>An identifier determines its message.\<close>

lemma message_id_determines:
  assumes "verify_id H m" "verify_id H m'" "msg_id m = msg_id m'"
    and "no_collision H {message_fields m, message_fields m'}"
  shows "message_content m = message_content m'"
  using assms by (intro message_fields_inj no_collisionD [OF assms(4)])
    (auto simp: verify_id_def calculate_message_id_def)

subsection \<open>Inclusion proofs\<close>

lemma leaf_fields_event [simp]: "leaf_fields (event_fields e)"
  by (simp add: leaf_fields_def event_fields_def)

lemma event_fields_not_sentinel [simp]: "sentinel_fields \<notin> event_fields ` E"
  by (auto simp: sentinel_fields_def event_fields_def)

text \<open>The field lists hashed while the tree of \<open>t\<close> is built, together with the promotion marker.\<close>

definition tree_hashed_fields :: "hasher \<Rightarrow> domain_event_tree \<Rightarrow> bytes list set" where
  "tree_hashed_fields H t = insert sentinel_fields (event_fields ` set (tree_events t) \<union>
     node_fields (merkle_digests (merkle_node_hash H) (merkle_odd_promote_hash H) (map (leaf_hash H) (tree_events t))))"

lemma event_tree_proof_complete:
  assumes "event_tree_proof H t i = Some p" and "no_collision H (tree_hashed_fields H t)"
  shows "i < length (tree_events t) \<and> proof_leaf p = leaf_hash H (tree_events t ! i) \<and>
    proof_verify H p (event_tree_root H t)"
proof -
  let ?leaves = "map (leaf_hash H) (tree_events t)"
  obtain siblings where
    s: "Merkle_Tree.merkle_proof H ?leaves i (merkle_node_hash H) (merkle_odd_promote_hash H) = Some siblings"
    and p: "p = \<lparr> proof_leaf = ?leaves ! i, proof_index = i, proof_siblings = siblings \<rparr>"
    using assms(1) by (auto simp: event_tree_proof_def Let_def split: option.splits if_splits)
  have "set ?leaves \<subseteq> hash_fields_bytes H ` event_fields ` set (tree_events t)"
    by (auto simp: leaf_hash_def)
  from settlement_proof_complete [OF _ this event_fields_not_sentinel s] assms(2) p
  show ?thesis
    by (auto simp: tree_hashed_fields_def proof_verify_def event_tree_root_def)
qed

text \<open>
  The field lists hashed by the tree and by the verifier's walk, and soundness: a proof
  whose leaf is the hash of an event verifies only if that event's hash is committed.
\<close>

definition proof_hashed_fields :: "hasher \<Rightarrow> domain_event_tree \<Rightarrow> domain_event \<Rightarrow> merkle_proof_data \<Rightarrow> bytes list set" where
  "proof_hashed_fields H t e p = event_fields ` insert e (set (tree_events t)) \<union>
     node_fields (merkle_digests (merkle_node_hash H) (merkle_odd_promote_hash H) (map (leaf_hash H) (tree_events t))
       \<union> merkle_walk_digests H (merkle_node_hash H) (merkle_odd_promote_hash H)
           (proof_leaf p) (proof_index p) (proof_siblings p))"

lemma event_tree_proof_sound:
  assumes "proof_verify H p (event_tree_root H t)" "proof_leaf p = leaf_hash H e" "tree_events t \<noteq> []"
    and nc: "no_collision H (proof_hashed_fields H t e p)"
  shows "\<exists>e' \<in> set (tree_events t). event_fields e' = event_fields e"
proof -
  let ?F = "event_fields ` insert e (set (tree_events t))"
  have sep: "separates (merkle_node_hash H) (merkle_odd_promote_hash H) (hash_fields_bytes H ` ?F)
      (merkle_digests (merkle_node_hash H) (merkle_odd_promote_hash H) (map (leaf_hash H) (tree_events t))
       \<union> merkle_walk_digests H (merkle_node_hash H) (merkle_odd_promote_hash H)
           (proof_leaf p) (proof_index p) (proof_siblings p))"
    using nc by (intro settlement_separates) (auto simp: proof_hashed_fields_def)
  have "leaf_hash H e \<in> set (map (leaf_hash H) (tree_events t))"
  proof (rule merkle_proof_sound_shape [OF sep])
    show "merkle_root_from_proof H (merkle_node_hash H) (merkle_odd_promote_hash H) (leaf_hash H e)
        (proof_index p) (proof_siblings p)
      = merkle_root_shape (map (leaf_hash H) (tree_events t)) (merkle_node_hash H) (merkle_odd_promote_hash H)"
      using assms(1-3) by (simp add: proof_verify_def event_tree_root_def merkle_root_def)
  qed (use assms(2,3) in \<open>auto simp: leaf_hash_def\<close>)
  then obtain e' where "e' \<in> set (tree_events t)" "leaf_hash H e' = leaf_hash H e" by auto
  moreover from this have "event_fields e' = event_fields e"
    by (intro no_collisionD [OF nc]) (auto simp: leaf_hash_def proof_hashed_fields_def)
  ultimately show ?thesis by blast
qed

lemma event_fields_inj:
  assumes "event_fields e = event_fields e'"
  shows "ev_domain_id e = ev_domain_id e' \<and> ev_domain_height e = ev_domain_height e' \<and>
    ev_event_index e = ev_event_index e' \<and> ev_kind e = ev_kind e' \<and> ev_emitter e = ev_emitter e' \<and>
    ev_payload_hash e = ev_payload_hash e'"
  using assms by (auto simp: event_fields_def dest: domain_event_kind_bytes_inj)

subsection \<open>The registry admits a message once\<close>

lemma message_registry_insert_ok:
  "fst (message_registry_insert H m r) = Inr () \<longleftrightarrow> verify_id H m \<and> bt_get (reg_messages r) (msg_id m) = None"
  by (simp add: message_registry_insert_def bt_contains_def)

lemma message_registry_insert_get:
  "bt_get (reg_messages (snd (message_registry_insert H m r))) k =
     (if fst (message_registry_insert H m r) = Inr () \<and> k = msg_id m then Some m else bt_get (reg_messages r) k)"
  by (auto simp: message_registry_insert_def)

end
