(* ===== verification/Replay_Nonce.thy ===== *)
theory Replay_Nonce
  imports Cross_Domain_Message
begin

text \<open>
  \<^verbatim>\<open>src/cross_domain/nonce.rs\<close>: replay protection for cross-domain messages. Each
  direction and sender has one outbound counter and one high-water mark of processed
  nonces. The interface a replay guard offers its clients is stated as a locale; what the
  bridge relies on, that an accepted nonce is refused for ever after, is proved there once.
\<close>

type_synonym direction = "domain_id \<times> domain_id \<times> address"

definition FINALITY_PRUNE_DEPTH :: u64 where
  "FINALITY_PRUNE_DEPTH = 1000"

record replay_nonce_store =
  outbound_nonces :: "(direction, u64) btree_map"
  processed_high_water :: "(direction, u64 \<times> u64) btree_map"

datatype replay_error = AlreadyProcessed

definition replay_new :: replay_nonce_store where
  "replay_new = \<lparr> outbound_nonces = bt_empty, processed_high_water = bt_empty \<rparr>"

definition outbound_nonce :: "replay_nonce_store \<Rightarrow> direction \<Rightarrow> u64" where
  "outbound_nonce r key = (case bt_get (outbound_nonces r) key of None \<Rightarrow> 0 | Some n \<Rightarrow> n)"

definition next_nonce ::
  "domain_id \<Rightarrow> domain_id \<Rightarrow> address \<Rightarrow> replay_nonce_store \<Rightarrow> u64 \<times> replay_nonce_store" where
  "next_nonce source target sender r =
     (let key = (source, target, sender); nonce = outbound_nonce r key
      in (nonce, r\<lparr> outbound_nonces := bt_insert key (sat_add nonce 1) (outbound_nonces r) \<rparr>))"

definition is_processed ::
  "replay_nonce_store \<Rightarrow> domain_id \<Rightarrow> domain_id \<Rightarrow> address \<Rightarrow> u64 \<Rightarrow> bool" where
  "is_processed r source target sender nonce =
     (case bt_get (processed_high_water r) (source, target, sender) of
        None \<Rightarrow> False | Some (high_water, _) \<Rightarrow> nonce \<le> high_water)"

definition mark_processed_at ::
  "domain_id \<Rightarrow> domain_id \<Rightarrow> address \<Rightarrow> u64 \<Rightarrow> u64 \<Rightarrow> replay_nonce_store \<Rightarrow>
   (replay_error, unit, replay_nonce_store) outcome" where
  "mark_processed_at source target sender nonce current_height r =
     (let key = (source, target, sender);
          advanced = r\<lparr> processed_high_water := bt_insert key (nonce, current_height) (processed_high_water r) \<rparr>
      in case bt_get (processed_high_water r) key of
           None \<Rightarrow> (Inr (), advanced)
         | Some (high_water, _) \<Rightarrow> if nonce \<le> high_water then (Inl AlreadyProcessed, r) else (Inr (), advanced))"

definition processed_count :: "replay_nonce_store \<Rightarrow> nat" where
  "processed_count r = bt_len (processed_high_water r)"

definition nonce_leaf_fields :: "direction \<times> u64 \<Rightarrow> bytes list" where
  "nonce_leaf_fields = (\<lambda>((source, target, sender), nonce).
     [ascii ''BDLM_NONCE_LEAF_V1'', le_bytes 4 source, le_bytes 4 target, sender, le_bytes 8 nonce])"

definition high_water_leaf_fields :: "direction \<times> u64 \<times> u64 \<Rightarrow> bytes list" where
  "high_water_leaf_fields = (\<lambda>((source, target, sender), (high_water, height)).
     [ascii ''BDLM_PROCESSED_HIGH_WATER_LEAF_V1'', le_bytes 4 source, le_bytes 4 target, sender,
      le_bytes 8 high_water, le_bytes 8 height])"

definition replay_leaf_fields :: "replay_nonce_store \<Rightarrow> bytes list list" where
  "replay_leaf_fields r = map nonce_leaf_fields (bt_entries (outbound_nonces r))
     @ map high_water_leaf_fields (bt_entries (processed_high_water r))"

definition replay_root :: "hasher \<Rightarrow> replay_nonce_store \<Rightarrow> hash32" where
  "replay_root H r = merkle_root H (map (hash_fields_bytes H) (replay_leaf_fields r))"

subsection \<open>The interface of a replay guard\<close>

locale replay_guard =
  fixes spent :: "'s \<Rightarrow> 'k \<Rightarrow> 'n::linorder \<Rightarrow> bool"
    and spend :: "'k \<Rightarrow> 'n \<Rightarrow> 'h \<Rightarrow> 's \<Rightarrow> ('e, unit, 's) outcome"
  assumes spend_ok_iff: "fst (spend k n h s) = Inr () \<longleftrightarrow> \<not> spent s k n"
    and spend_refused: "spent s k n \<Longrightarrow> snd (spend k n h s) = s"
    and spent_spend: "\<not> spent s k n \<Longrightarrow> spent (snd (spend k n h s)) k' n' \<longleftrightarrow> spent s k' n' \<or> (k' = k \<and> n' \<le> n)"
    and spent_down: "spent s k n \<Longrightarrow> n' \<le> n \<Longrightarrow> spent s k n'"
begin

lemma spent_mono: "spent s k' n' \<Longrightarrow> spent (snd (spend k n h s)) k' n'"
  by (cases "spent s k n") (simp_all add: spend_refused spent_spend)

lemma spend_spends: "spent (snd (spend k n h s)) k n"
  by (cases "spent s k n") (simp_all add: spend_refused spent_spend)

text \<open>No sequence of further calls makes an accepted nonce acceptable again.\<close>

lemma spent_forever:
  "spent s k n \<Longrightarrow> spent (fold (\<lambda>(k, n, h) s. snd (spend k n h s)) calls s) k n"
  by (induction calls arbitrary: s) (auto intro: spent_mono)

lemma never_accepted_twice:
  assumes "fst (spend k n h s) = Inr ()"
  shows "fst (spend k n h' (fold (\<lambda>(k, n, h) s. snd (spend k n h s)) calls (snd (spend k n h s)))) \<noteq> Inr ()"
  using spent_forever [OF spend_spends, of calls k n h s] by (simp add: spend_ok_iff)

end

definition replay_spent :: "replay_nonce_store \<Rightarrow> direction \<Rightarrow> u64 \<Rightarrow> bool" where
  "replay_spent r = (\<lambda>(source, target, sender) nonce. is_processed r source target sender nonce)"

definition replay_spend ::
  "direction \<Rightarrow> u64 \<Rightarrow> u64 \<Rightarrow> replay_nonce_store \<Rightarrow> (replay_error, unit, replay_nonce_store) outcome" where
  "replay_spend = (\<lambda>(source, target, sender). mark_processed_at source target sender)"

interpretation rg: replay_guard replay_spent replay_spend
proof unfold_locales
  fix k k' :: direction and n n' h :: u64 and s :: replay_nonce_store
  obtain a b c where k: "k = (a, b, c)" by (cases k) auto
  obtain a' b' c' where k': "k' = (a', b', c')" by (cases k') auto
  show "fst (replay_spend k n h s) = Inr () \<longleftrightarrow> \<not> replay_spent s k n"
    by (auto simp: k replay_spend_def replay_spent_def mark_processed_at_def is_processed_def Let_def
        split: option.splits)
  show "replay_spent s k n \<Longrightarrow> snd (replay_spend k n h s) = s"
    by (auto simp: k replay_spend_def replay_spent_def mark_processed_at_def is_processed_def Let_def
        split: option.splits)
  show "\<not> replay_spent s k n \<Longrightarrow>
      replay_spent (snd (replay_spend k n h s)) k' n' \<longleftrightarrow> replay_spent s k' n' \<or> (k' = k \<and> n' \<le> n)"
    by (auto simp: k k' replay_spend_def replay_spent_def mark_processed_at_def is_processed_def Let_def
        split: option.splits)
  show "replay_spent s k n \<Longrightarrow> n' \<le> n \<Longrightarrow> replay_spent s k n'"
    by (auto simp: k replay_spent_def is_processed_def split: option.splits)
qed

lemma mark_processed_at_outbound [simp]:
  "outbound_nonces (snd (mark_processed_at source target sender n h r)) = outbound_nonces r"
  by (auto simp: mark_processed_at_def Let_def split: option.splits)

lemma next_nonce_processed [simp]:
  "processed_high_water (snd (next_nonce source target sender r)) = processed_high_water r"
  by (simp add: next_nonce_def Let_def)

lemma is_processed_next_nonce [simp]:
  "is_processed (snd (next_nonce source target sender r)) a b c n = is_processed r a b c n"
  by (simp add: is_processed_def)

lemma outbound_next_nonce:
  "outbound_nonce (snd (next_nonce source target sender r)) k =
     (if k = (source, target, sender) then sat_add (outbound_nonce r k) 1 else outbound_nonce r k)"
  by (simp add: next_nonce_def Let_def outbound_nonce_def)

end
