(* ===== verification/Bridge.thy ===== *)
theory Bridge
  imports Replay_Nonce
begin

text \<open>
  \<^verbatim>\<open>src/cross_domain/bridge.rs\<close>: the custody state of the bridge. An asset is active in one
  domain, is locked there, minted in the target domain, burned again, and unlocked, or its lock
  expires and the owner is refunded. Every operation is the whole function of the source,
  with the state it leaves behind on refusal; what the operations keep is shown in
  \<^verbatim>\<open>Bridge_Custody.thy\<close>.
\<close>

type_synonym asset_id = bytes

datatype bridge_status =
  Active domain_id | Locked domain_id | Minted domain_id | Burned domain_id | Unlocked domain_id

record bridge_transfer =
  xfer_message_id :: message_id
  xfer_asset_id :: asset_id
  xfer_source_domain :: domain_id
  xfer_target_domain :: domain_id
  xfer_owner :: address
  xfer_recipient :: address
  xfer_amount :: Bud
  xfer_status :: bridge_status
  xfer_source_event_hash :: hash32
  xfer_expiry_height :: u64

text \<open>One constructor for each message a \<open>BridgeError\<close> is built with.\<close>

datatype bridge_error =
    FeeNotCovered | RecipientExceedsU64 | FeeExceedsU64 | BurnDomainMismatch
  | AssetAlreadyRegistered | UnknownAsset | AssetNotActive
  | InvalidCrossDomainMessageId | UnknownTransfer | PayloadHashMismatch | MessageAlreadyProcessed
  | NotLockedOnSource | NotMintedOnBurnDomain | NotBurnedOnTarget | UnlockNotFromBurnDomain

record bridge_state =
  asset_locations :: "(asset_id, bridge_status) btree_map"
  transfers :: "(message_id, bridge_transfer) btree_map"
  expiry_queue :: "(u64, message_id list) btree_map"
  replay :: replay_nonce_store
  settled_queue :: "(u64, message_id list) btree_map"

definition SETTLED_RETENTION_BLOCKS :: u64 where
  "SETTLED_RETENTION_BLOCKS = 10 * FINALITY_PRUNE_DEPTH"

subsection \<open>The relayer's fee\<close>

definition split_bridge_fee_u128 :: "u128 \<Rightarrow> u64 \<Rightarrow> u64 \<Rightarrow> bridge_error + u128 \<times> u128" where
  "split_bridge_fee_u128 amount fee_ppm min_fee =
     (let min_fee = ucast min_fee :: u128 in
      if amount \<le> min_fee then Inl FeeNotCovered
      else let proportional = sat_mul amount (ucast fee_ppm) div 1000000;
               fee = max proportional min_fee;
               recipient = sat_sub amount fee
           in Inr (recipient, fee))"

definition split_bridge_fee :: "Bud \<Rightarrow> u64 \<Rightarrow> u64 \<Rightarrow> bridge_error + Bud \<times> Bud" where
  "split_bridge_fee amount fee_ppm min_fee =
     (case split_bridge_fee_u128 (ucast (bud_get amount)) fee_ppm min_fee of
        Inl e \<Rightarrow> Inl e
      | Inr (recipient, fee) \<Rightarrow>
          (case bud_try_from recipient of
             None \<Rightarrow> Inl RecipientExceedsU64
           | Some recipient \<Rightarrow>
               (case bud_try_from fee of
                  None \<Rightarrow> Inl FeeExceedsU64
                | Some fee \<Rightarrow> Inr (recipient, fee))))"

definition check_burn_matches_lock_domain :: "domain_id \<Rightarrow> domain_id \<Rightarrow> bridge_error + unit" where
  "check_burn_matches_lock_domain lock_source_domain burn_target_domain =
     (if lock_source_domain \<noteq> burn_target_domain then Inl BurnDomainMismatch else Inr ())"

subsection \<open>Operations\<close>

definition bridge_payload_hash :: "hasher \<Rightarrow> asset_id \<Rightarrow> u64 \<Rightarrow> hash32" where
  "bridge_payload_hash H asset amount =
     hash_fields_bytes H [ascii ''BDLM_BRIDGE_PAYLOAD_V1'', asset, le_bytes 8 amount]"

definition bridge_new :: bridge_state where
  "bridge_new = \<lparr> asset_locations = bt_empty, transfers = bt_empty, expiry_queue = bt_empty,
     replay = replay_new, settled_queue = bt_empty \<rparr>"

definition transfer_count :: "bridge_state \<Rightarrow> nat" where
  "transfer_count b = bt_len (transfers b)"

definition mark_settled :: "message_id \<Rightarrow> u64 \<Rightarrow> bridge_state \<Rightarrow> bridge_state" where
  "mark_settled mid height b = b\<lparr> settled_queue := bt_push height mid (settled_queue b) \<rparr>"

definition bridge_register_asset ::
  "asset_id \<Rightarrow> domain_id \<Rightarrow> bridge_state \<Rightarrow> (bridge_error, unit, bridge_state) outcome" where
  "bridge_register_asset asset domain b =
     (if bt_contains (asset_locations b) asset then (Inl AssetAlreadyRegistered, b)
      else (Inr (), b\<lparr> asset_locations := bt_insert asset (Active domain) (asset_locations b) \<rparr>))"

definition require_asset_status :: "bridge_state \<Rightarrow> asset_id \<Rightarrow> bridge_status \<Rightarrow> bridge_error + unit" where
  "require_asset_status b asset expected =
     (case bt_get (asset_locations b) asset of
        None \<Rightarrow> Inl UnknownAsset
      | Some current \<Rightarrow> if current \<noteq> expected then Inl AssetNotActive else Inr ())"

definition bridge_lock ::
  "hasher \<Rightarrow> domain_id \<Rightarrow> domain_id \<Rightarrow> u64 \<Rightarrow> u32 \<Rightarrow> asset_id \<Rightarrow> address \<Rightarrow> address \<Rightarrow> u64 \<Rightarrow> u64 \<Rightarrow>
   bridge_state \<Rightarrow> (bridge_error, bridge_transfer \<times> domain_event, bridge_state) outcome" where
  "bridge_lock H source target source_height event_index asset owner recipient amount expiry b =
     (case require_asset_status b asset (Active source) of
        Inl e \<Rightarrow> (Inl e, b)
      | Inr _ \<Rightarrow>
          let (nonce, store) = next_nonce source target owner (replay b);
              payload_hash = bridge_payload_hash H asset amount;
              message = message_new H
                \<lparr> par_source_domain = source, par_target_domain = target,
                  par_source_height = source_height, par_event_index = event_index,
                  par_nonce = nonce, par_sender = owner, par_recipient = recipient,
                  par_payload_hash = payload_hash, par_kind = BridgeLock, par_expiry_height = expiry \<rparr>;
              event = \<lparr> ev_domain_id = source, ev_domain_height = source_height,
                ev_event_index = event_index, ev_kind = BridgeLocked, ev_emitter = owner,
                ev_message = Some message, ev_payload_hash = payload_hash \<rparr>;
              transfer = \<lparr> xfer_message_id = msg_id message, xfer_asset_id = asset,
                xfer_source_domain = source, xfer_target_domain = target, xfer_owner = owner,
                xfer_recipient = recipient, xfer_amount = bud_new amount,
                xfer_status = Locked source, xfer_source_event_hash = leaf_hash H event,
                xfer_expiry_height = expiry \<rparr>;
              b = b\<lparr> replay := store,
                asset_locations := bt_insert asset (Locked source) (asset_locations b),
                transfers := bt_insert (xfer_message_id transfer) transfer (transfers b) \<rparr>;
              b = (if expiry > 0
                   then b\<lparr> expiry_queue := bt_push expiry (xfer_message_id transfer) (expiry_queue b) \<rparr>
                   else b)
          in (Inr (transfer, event), b))"

definition bridge_mint ::
  "hasher \<Rightarrow> cross_domain_message \<Rightarrow> u64 \<Rightarrow> bridge_state \<Rightarrow> (bridge_error, unit, bridge_state) outcome" where
  "bridge_mint H message current_height b =
     (if \<not> verify_id H message then (Inl InvalidCrossDomainMessageId, b)
      else case bt_get (transfers b) (msg_id message) of
        None \<Rightarrow> (Inl UnknownTransfer, b)
      | Some transfer \<Rightarrow>
          if msg_payload_hash message \<noteq> bridge_payload_hash H (xfer_asset_id transfer) (bud_get (xfer_amount transfer))
          then (Inl PayloadHashMismatch, b)
          else if is_processed (replay b) (msg_source_domain message) (msg_target_domain message)
                    (msg_sender message) (msg_nonce message)
          then (Inl MessageAlreadyProcessed, b)
          else if xfer_status transfer \<noteq> Locked (msg_source_domain message)
          then (Inl NotLockedOnSource, b)
          else case mark_processed_at (msg_source_domain message) (msg_target_domain message)
                      (msg_sender message) (msg_nonce message) current_height (replay b) of
            (Inl _, store) \<Rightarrow> (Inl MessageAlreadyProcessed, b\<lparr> replay := store \<rparr>)
          | (Inr _, store) \<Rightarrow>
              (Inr (), b\<lparr> replay := store,
                 transfers := bt_insert (msg_id message)
                   (transfer\<lparr> xfer_status := Minted (msg_target_domain message) \<rparr>) (transfers b),
                 asset_locations := bt_insert (xfer_asset_id transfer)
                   (Minted (msg_target_domain message)) (asset_locations b) \<rparr>))"

definition get_transfer :: "bridge_state \<Rightarrow> message_id \<Rightarrow> bridge_transfer option" where
  "get_transfer b mid = bt_get (transfers b) mid"

fun status_is_locked :: "bridge_status \<Rightarrow> bool" where
  "status_is_locked (Locked _) = True"
| "status_is_locked _ = False"

definition locked_amount_total :: "bridge_state \<Rightarrow> u128" where
  "locked_amount_total b =
     fold (\<lambda>t total. if status_is_locked (xfer_status t)
                     then sat_add total (ucast (bud_get (xfer_amount t))) else total)
       (bt_values (transfers b)) 0"

definition burn_with_event ::
  "hasher \<Rightarrow> message_id \<Rightarrow> domain_id \<Rightarrow> u64 \<Rightarrow> u32 \<Rightarrow> u64 \<Rightarrow> bridge_state \<Rightarrow>
   (bridge_error, domain_event, bridge_state) outcome" where
  "burn_with_event H mid domain domain_height event_index expiry b =
     (case bt_get (transfers b) mid of
        None \<Rightarrow> (Inl UnknownTransfer, b)
      | Some transfer \<Rightarrow>
          if xfer_status transfer \<noteq> Minted domain then (Inl NotMintedOnBurnDomain, b)
          else
            let asset = xfer_asset_id transfer;
                amount = bud_get (xfer_amount transfer);
                source = xfer_source_domain transfer;
                owner = xfer_owner transfer;
                recipient = xfer_recipient transfer;
                (nonce, store) = next_nonce domain source recipient (replay b);
                payload_hash = bridge_payload_hash H asset amount;
                message = message_new_correlated H
                  \<lparr> par_source_domain = domain, par_target_domain = source,
                    par_source_height = domain_height, par_event_index = event_index,
                    par_nonce = nonce, par_sender = recipient, par_recipient = owner,
                    par_payload_hash = payload_hash, par_kind = BridgeBurn, par_expiry_height = expiry \<rparr> mid;
                event = \<lparr> ev_domain_id = domain, ev_domain_height = domain_height,
                  ev_event_index = event_index, ev_kind = BridgeBurned, ev_emitter = recipient,
                  ev_message = Some message, ev_payload_hash = payload_hash \<rparr>
            in (Inr event, b\<lparr> replay := store,
                  transfers := bt_insert mid (transfer\<lparr> xfer_status := Burned domain \<rparr>) (transfers b),
                  asset_locations := bt_insert asset (Burned domain) (asset_locations b) \<rparr>))"

definition bridge_burn ::
  "hasher \<Rightarrow> message_id \<Rightarrow> domain_id \<Rightarrow> bridge_state \<Rightarrow> (bridge_error, unit, bridge_state) outcome" where
  "bridge_burn H mid domain b =
     (case burn_with_event H mid domain 0 0 0 b of
        (Inl e, b) \<Rightarrow> (Inl e, b)
      | (Inr _, b) \<Rightarrow> (Inr (), b))"

definition bridge_unlock ::
  "message_id \<Rightarrow> domain_id \<Rightarrow> u64 \<Rightarrow> bridge_state \<Rightarrow> (bridge_error, unit, bridge_state) outcome" where
  "bridge_unlock mid source_domain settled_height b =
     (case bt_get (transfers b) mid of
        None \<Rightarrow> (Inl UnknownTransfer, b)
      | Some transfer \<Rightarrow>
          if xfer_status transfer \<noteq> Burned (xfer_target_domain transfer) then (Inl NotBurnedOnTarget, b)
          else if xfer_target_domain transfer \<noteq> source_domain then (Inl UnlockNotFromBurnDomain, b)
          else
            let original_source = xfer_source_domain transfer;
                b = b\<lparr> transfers := bt_insert mid (transfer\<lparr> xfer_status := Unlocked original_source \<rparr>) (transfers b),
                       asset_locations := bt_insert (xfer_asset_id transfer) (Active original_source) (asset_locations b) \<rparr>
            in (Inr (), mark_settled mid settled_height b))"

subsection \<open>The commitment to the state\<close>

fun status_bytes :: "bridge_status \<Rightarrow> bytes" where
  "status_bytes (Active d) = ascii ''active'' @ le_bytes 4 d"
| "status_bytes (Locked d) = ascii ''locked'' @ le_bytes 4 d"
| "status_bytes (Minted d) = ascii ''minted'' @ le_bytes 4 d"
| "status_bytes (Burned d) = ascii ''burned'' @ le_bytes 4 d"
| "status_bytes (Unlocked d) = ascii ''unlocked'' @ le_bytes 4 d"

definition asset_leaf_fields :: "asset_id \<times> bridge_status \<Rightarrow> bytes list" where
  "asset_leaf_fields = (\<lambda>(asset, status). [ascii ''BDLM_BRIDGE_ASSET_LEAF_V1'', asset, status_bytes status])"

definition transfer_leaf_fields :: "message_id \<times> bridge_transfer \<Rightarrow> bytes list" where
  "transfer_leaf_fields = (\<lambda>(mid, t).
     [ascii ''BDLM_BRIDGE_TRANSFER_V1'', mid, xfer_asset_id t, le_bytes 4 (xfer_source_domain t),
      le_bytes 4 (xfer_target_domain t), xfer_owner t, xfer_recipient t,
      le_bytes 8 (bud_get (xfer_amount t)), status_bytes (xfer_status t), xfer_source_event_hash t,
      le_bytes 8 (xfer_expiry_height t)])"

definition queue_leaf_fields :: "bytes \<Rightarrow> (u64, message_id list) btree_map \<Rightarrow> bytes list list" where
  "queue_leaf_fields tag q =
     concat (map (\<lambda>(height, mids). map (\<lambda>mid. [tag, le_bytes 8 height, mid]) mids) (bt_entries q))"

definition bridge_leaf_fields :: "bridge_state \<Rightarrow> bytes list list" where
  "bridge_leaf_fields b =
     map asset_leaf_fields (bt_entries (asset_locations b))
     @ map transfer_leaf_fields (bt_entries (transfers b))
     @ queue_leaf_fields (ascii ''BDLM_BRIDGE_SETTLED_V1'') (settled_queue b)
     @ queue_leaf_fields (ascii ''BDLM_BRIDGE_EXPIRY_V1'') (expiry_queue b)"

definition bridge_root :: "hasher \<Rightarrow> bridge_state \<Rightarrow> hash32" where
  "bridge_root H b = merkle_root H (map (hash_fields_bytes H) (bridge_leaf_fields b))"

definition bridge_replay_root :: "hasher \<Rightarrow> bridge_state \<Rightarrow> hash32" where
  "bridge_replay_root H b = replay_root H (replay b)"

definition source_event_hash :: "bridge_state \<Rightarrow> message_id \<Rightarrow> hash32 option" where
  "source_event_hash b mid = map_option xfer_source_event_hash (bt_get (transfers b) mid)"

subsection \<open>The sweep\<close>

fun status_is_terminal :: "bridge_status \<Rightarrow> bool" where
  "status_is_terminal (Unlocked _) = True"
| "status_is_terminal (Active _) = True"
| "status_is_terminal _ = False"

text \<open>The bodies of the loops over one queue entry, and the loops over the heights that are due.\<close>

definition release_lock ::
  "u64 \<Rightarrow> message_id \<Rightarrow> bridge_state \<times> (address \<times> Bud) list \<Rightarrow> bridge_state \<times> (address \<times> Bud) list" where
  "release_lock current_height mid = (\<lambda>(b, released).
     case bt_get (transfers b) mid of
       None \<Rightarrow> (b, released)
     | Some t \<Rightarrow>
         (case xfer_status t of
            Locked domain \<Rightarrow>
              (mark_settled mid current_height
                 (b\<lparr> transfers := bt_insert mid (t\<lparr> xfer_status := Active domain \<rparr>) (transfers b),
                     asset_locations := bt_insert (xfer_asset_id t) (Active domain) (asset_locations b) \<rparr>),
               released @ [(xfer_owner t, xfer_amount t)])
          | _ \<Rightarrow> (b, released)))"

definition release_height ::
  "u64 \<Rightarrow> u64 \<Rightarrow> bridge_state \<times> (address \<times> Bud) list \<Rightarrow> bridge_state \<times> (address \<times> Bud) list" where
  "release_height current_height h = (\<lambda>(b, released).
     case bt_get (expiry_queue b) h of
       None \<Rightarrow> (b, released)
     | Some mids \<Rightarrow>
         fold (release_lock current_height) mids (b\<lparr> expiry_queue := bt_remove h (expiry_queue b) \<rparr>, released))"

definition drop_settled_row :: "message_id \<Rightarrow> bridge_state \<Rightarrow> bridge_state" where
  "drop_settled_row mid b =
     (let terminal = (case bt_get (transfers b) mid of
                        None \<Rightarrow> False | Some t \<Rightarrow> status_is_terminal (xfer_status t))
      in if terminal then b\<lparr> transfers := bt_remove mid (transfers b) \<rparr> else b)"

definition drop_settled_height :: "u64 \<Rightarrow> bridge_state \<Rightarrow> bridge_state" where
  "drop_settled_height h b =
     (case bt_get (settled_queue b) h of
        None \<Rightarrow> b
      | Some mids \<Rightarrow> fold drop_settled_row mids (b\<lparr> settled_queue := bt_remove h (settled_queue b) \<rparr>))"

definition drop_settled_rows :: "u64 \<Rightarrow> bridge_state \<Rightarrow> bridge_state" where
  "drop_settled_rows current_height b =
     (let cutoff = sat_sub current_height SETTLED_RETENTION_BLOCKS;
          due = bt_keys_upto (settled_queue b) cutoff
      in fold drop_settled_height due b)"

definition sweep_expired_locks :: "u64 \<Rightarrow> bridge_state \<Rightarrow> (address \<times> Bud) list \<times> bridge_state" where
  "sweep_expired_locks current_height b =
     (let heights = bt_keys_upto (expiry_queue b) current_height;
          (b', released) = fold (release_height current_height) heights (b, [])
      in (released, drop_settled_rows current_height b'))"

end
