(* ===== verification/Relayer.thy ===== *)
theory Relayer
  imports Bridge
begin

text \<open>
  \<^verbatim>\<open>src/cross_domain/relayer.rs\<close>: the ledger of completed relays, the pending relays and the
  acceptance of a relay submission. \<open>serialize\<close> stands for \<^verbatim>\<open>bincode::serialize\<close>, which
  returns the bytes of a proof or an error.
\<close>

datatype relayer_error =
    NotActiveRelayer address
  | AlreadyRelayed message_id
  | InvalidProof string
  | Expired message_id u64 u64
  | InvalidTransferState message_id
  | SourceDomainMismatch domain_id domain_id
  | OtherRelayerError string

record relay_record =
  rec_relayer :: address
  rec_relay_height :: u64
  rec_proof_hash :: hash32

record relay_ledger =
  relayed :: "(message_id, relay_record) btree_map"

type_synonym serializer = "merkle_proof_data \<Rightarrow> bytes option"

definition ledger_new :: relay_ledger where
  "ledger_new = \<lparr> relayed = bt_empty \<rparr>"

definition ledger_record ::
  "message_id \<Rightarrow> address \<Rightarrow> u64 \<Rightarrow> hash32 \<Rightarrow> relay_ledger \<Rightarrow> (relayer_error, unit, relay_ledger) outcome" where
  "ledger_record mid relayer height proof_hash l =
     (if bt_contains (relayed l) mid then (Inl (AlreadyRelayed mid), l)
      else (Inr (), l\<lparr> relayed := bt_insert mid
              \<lparr> rec_relayer = relayer, rec_relay_height = height, rec_proof_hash = proof_hash \<rparr> (relayed l) \<rparr>))"

definition is_relayed :: "relay_ledger \<Rightarrow> message_id \<Rightarrow> bool" where
  "is_relayed l mid = bt_contains (relayed l) mid"

definition drop_records_through :: "u64 \<Rightarrow> relay_ledger \<Rightarrow> relay_ledger" where
  "drop_records_through cutoff l = l\<lparr> relayed := bt_retain (\<lambda>_ r. rec_relay_height r > cutoff) (relayed l) \<rparr>"

definition relay_leaf_fields :: "message_id \<times> relay_record \<Rightarrow> bytes list" where
  "relay_leaf_fields = (\<lambda>(mid, r). [ascii ''BDLM_RELAY_RECORD_V1'', mid, rec_relayer r,
     le_bytes 8 (rec_relay_height r), rec_proof_hash r])"

definition ledger_root :: "hasher \<Rightarrow> relay_ledger \<Rightarrow> hash32" where
  "ledger_root H l = merkle_root H (map (hash_fields_bytes H \<circ> relay_leaf_fields) (bt_entries (relayed l)))"

definition RELAY_RETENTION_BLOCKS :: u64 where
  "RELAY_RETENTION_BLOCKS = 10 * FINALITY_PRUNE_DEPTH"

record relayer_config =
  relay_window_blocks :: u64
  min_relayer_stake :: u64
  slash_ratio_invalid :: u64
  slash_ratio_expired :: u64

definition relayer_config_default :: relayer_config where
  "relayer_config_default = \<lparr> relay_window_blocks = 100, min_relayer_stake = 10000000,
     slash_ratio_invalid = 50, slash_ratio_expired = 25 \<rparr>"

record pending_relay =
  pend_message_id :: message_id
  pend_source_domain :: domain_id
  pend_target_domain :: domain_id
  pend_source_event :: domain_event
  pend_created_height :: u64
  pend_expiry_height :: u64

record universal_relayer =
  config :: relayer_config
  ledger :: relay_ledger
  pending :: "(message_id, pending_relay) btree_map"

definition relayer_new :: "relayer_config \<Rightarrow> universal_relayer" where
  "relayer_new c = \<lparr> config = c, ledger = ledger_new, pending = bt_empty \<rparr>"

definition enqueue_relay ::
  "domain_event \<Rightarrow> cross_domain_message \<Rightarrow> u64 \<Rightarrow> universal_relayer \<Rightarrow> universal_relayer" where
  "enqueue_relay source_event message created_height u =
     (let relay = \<lparr> pend_message_id = msg_id message, pend_source_domain = msg_source_domain message,
            pend_target_domain = msg_target_domain message, pend_source_event = source_event,
            pend_created_height = created_height, pend_expiry_height = msg_expiry_height message \<rparr>
      in u\<lparr> pending := bt_insert (msg_id message) relay (pending u) \<rparr>)"

definition relay_is_expired :: "u64 \<Rightarrow> pending_relay \<Rightarrow> bool" where
  "relay_is_expired current_height p = (pend_expiry_height p > 0 \<and> current_height > pend_expiry_height p)"

definition process_relay ::
  "hasher \<Rightarrow> serializer \<Rightarrow> message_id \<Rightarrow> address \<Rightarrow> merkle_proof_data \<Rightarrow> domain_id \<Rightarrow> hash32 \<Rightarrow> u64 \<Rightarrow>
   universal_relayer \<Rightarrow> (relayer_error, cross_domain_message, universal_relayer) outcome" where
  "process_relay H serialize mid relayer prf source_domain event_root current_height u =
     (if is_relayed (ledger u) mid then (Inl (AlreadyRelayed mid), u)
      else case bt_get (pending u) mid of
        None \<Rightarrow> (Inl (OtherRelayerError ''no pending relay for message''), u)
      | Some p \<Rightarrow>
          if relay_is_expired current_height p
          then (Inl (Expired mid (pend_expiry_height p) current_height), u)
          else if pend_source_domain p \<noteq> source_domain
          then (Inl (SourceDomainMismatch (pend_source_domain p) source_domain), u)
          else if \<not> proof_verify H prf event_root
          then (Inl (InvalidProof ''Merkle proof does not verify against event tree root''), u)
          else if proof_leaf prf \<noteq> leaf_hash H (pend_source_event p)
          then (Inl (InvalidProof ''proof leaf does not match source event hash''), u)
          else case serialize prf of
            None \<Rightarrow> (Inl (OtherRelayerError ''proof serialization failed''), u)
          | Some proof_bytes \<Rightarrow>
              let proof_hash = hash_fields_bytes H [ascii ''BDLM_RELAY_PROOF_HASH_V1'', proof_bytes] in
              case ledger_record mid relayer current_height proof_hash (ledger u) of
                (Inl e, l) \<Rightarrow> (Inl e, u\<lparr> ledger := l \<rparr>)
              | (Inr _, l) \<Rightarrow>
                  let u = u\<lparr> ledger := l \<rparr> in
                  case ev_message (pend_source_event p) of
                    None \<Rightarrow> (Inl (OtherRelayerError ''source event has no cross-domain message''), u)
                  | Some message \<Rightarrow>
                      if \<not> verify_id H message
                      then (Inl (InvalidProof ''Relayed message ID does not match computed ID (tamper check)''), u)
                      else (Inr message, u\<lparr> pending := bt_remove mid (pending u) \<rparr>))"

definition expired_relays :: "universal_relayer \<Rightarrow> u64 \<Rightarrow> pending_relay list" where
  "expired_relays u current_height = filter (relay_is_expired current_height) (bt_values (pending u))"

definition sweep_retired :: "u64 \<Rightarrow> universal_relayer \<Rightarrow> nat \<times> universal_relayer" where
  "sweep_retired current_height u =
     (let cutoff = sat_sub current_height RELAY_RETENTION_BLOCKS;
          before = bt_len (pending u) + bt_len (relayed (ledger u));
          u = u\<lparr> pending := bt_retain (\<lambda>_ r. pend_expiry_height r = 0 \<or> pend_expiry_height r > cutoff) (pending u),
                 ledger := drop_records_through cutoff (ledger u) \<rparr>
      in (before - (bt_len (pending u) + bt_len (relayed (ledger u))), u))"

subsection \<open>Acceptance\<close>

lemma process_relay_accepted:
  assumes "process_relay H ser mid a prf d root h u = (Inr m, u')"
  obtains p where "\<not> is_relayed (ledger u) mid" "bt_get (pending u) mid = Some p" "\<not> relay_is_expired h p"
    "pend_source_domain p = d" "proof_verify H prf root" "proof_leaf prf = leaf_hash H (pend_source_event p)"
    "ev_message (pend_source_event p) = Some m" "verify_id H m"
    "pending u' = bt_remove mid (pending u)" "config u' = config u"
    "\<forall>i. is_relayed (ledger u') i \<longleftrightarrow> is_relayed (ledger u) i \<or> i = mid"
  using assms by (auto simp: process_relay_def ledger_record_def is_relayed_def bt_contains_def Let_def
      split: option.splits if_splits)

text \<open>
  A refusal leaves the relayer as it was, except when the pending event carries no message
  or one that does not verify: then the ledger already holds the relay.
\<close>

lemma process_relay_refused:
  assumes "process_relay H ser mid a prf d root h u = (Inl e, u')"
    and "\<And>p. bt_get (pending u) mid = Some p \<Longrightarrow> \<exists>m. ev_message (pend_source_event p) = Some m \<and> verify_id H m"
  shows "u' = u"
  using assms by (auto simp: process_relay_def ledger_record_def is_relayed_def Let_def
      split: option.splits if_splits)

lemma process_relay_accepts:
  assumes "\<not> is_relayed (ledger u) mid" "bt_get (pending u) mid = Some p" "\<not> relay_is_expired h p"
    "pend_source_domain p = d" "proof_verify H prf root" "proof_leaf prf = leaf_hash H (pend_source_event p)"
    "ev_message (pend_source_event p) = Some m" "verify_id H m" "ser prf \<noteq> None"
  shows "fst (process_relay H ser mid a prf d root h u) = Inr m"
  using assms by (auto simp: process_relay_def ledger_record_def is_relayed_def Let_def)

lemma sweep_retired_get:
  "bt_get (pending (snd (sweep_retired h u))) i =
     (case bt_get (pending u) i of None \<Rightarrow> None
      | Some p \<Rightarrow> if pend_expiry_height p = 0 \<or> pend_expiry_height p > sat_sub h RELAY_RETENTION_BLOCKS then Some p else None)"
  "bt_get (relayed (ledger (snd (sweep_retired h u)))) i =
     (case bt_get (relayed (ledger u)) i of None \<Rightarrow> None
      | Some r \<Rightarrow> if rec_relay_height r > sat_sub h RELAY_RETENTION_BLOCKS then Some r else None)"
  by (simp_all add: sweep_retired_def Let_def drop_records_through_def)

end
