(* ===== verification/Bridge_Custody.thy ===== *)
theory Bridge_Custody
  imports Bridge
begin

text \<open>
  What the bridge keeps: the invariants over the two maps and the queues of
  \<^verbatim>\<open>BridgeState\<close>, how a single update keeps them, and the effect of each operation of
  \<^verbatim>\<open>Bridge.thy\<close> other than the sweep on each of its branches.
\<close>

subsection \<open>Custody\<close>

fun status_is_live :: "bridge_status \<Rightarrow> bool" where
  "status_is_live (Locked _) = True"
| "status_is_live (Minted _) = True"
| "status_is_live (Burned _) = True"
| "status_is_live _ = False"

lemma terminal_iff_not_live: "status_is_terminal s \<longleftrightarrow> \<not> status_is_live s"
  by (cases s) simp_all

lemma locked_is_live [simp]: "status_is_locked s \<Longrightarrow> status_is_live s"
  by (cases s) simp_all

text \<open>
  \<open>T\<close> is the table of transfers and \<open>A\<close> the location of each asset: an asset
  that is locked, minted or burned belongs to exactly one live transfer, and the two maps
  agree on where it is.
\<close>

definition custody ::
  "(message_id \<Rightarrow> bridge_transfer option) \<Rightarrow> (asset_id \<Rightarrow> bridge_status option) \<Rightarrow> bool" where
  "custody T A \<longleftrightarrow>
     (\<forall>i t. T i = Some t \<longrightarrow> xfer_message_id t = i) \<and>
     (\<forall>i t. T i = Some t \<longrightarrow> status_is_live (xfer_status t) \<longrightarrow> A (xfer_asset_id t) = Some (xfer_status t)) \<and>
     (\<forall>i t j u. T i = Some t \<longrightarrow> T j = Some u \<longrightarrow> status_is_live (xfer_status t) \<longrightarrow>
        status_is_live (xfer_status u) \<longrightarrow> xfer_asset_id t = xfer_asset_id u \<longrightarrow> i = j) \<and>
     (\<forall>a s. A a = Some s \<longrightarrow> status_is_live s \<longrightarrow>
        (\<exists>i t. T i = Some t \<and> xfer_asset_id t = a \<and> xfer_status t = s)) \<and>
     (\<forall>a d. A a \<noteq> Some (Unlocked d))"

lemma custodyD:
  assumes "custody T A"
  shows custody_keyed: "T i = Some t \<Longrightarrow> xfer_message_id t = i"
    and custody_located: "T i = Some t \<Longrightarrow> status_is_live (xfer_status t) \<Longrightarrow> A (xfer_asset_id t) = Some (xfer_status t)"
    and custody_unique: "T i = Some t \<Longrightarrow> T j = Some u \<Longrightarrow> status_is_live (xfer_status t) \<Longrightarrow>
      status_is_live (xfer_status u) \<Longrightarrow> xfer_asset_id t = xfer_asset_id u \<Longrightarrow> i = j"
    and custody_owned: "A a = Some s \<Longrightarrow> status_is_live s \<Longrightarrow>
      \<exists>i t. T i = Some t \<and> xfer_asset_id t = a \<and> xfer_status t = s"
    and custody_never_unlocked: "A a \<noteq> Some (Unlocked d)"
  using assms unfolding custody_def by blast+

lemma custody_register: "custody T A \<Longrightarrow> A a = None \<Longrightarrow> custody T (A(a \<mapsto> Active d))"
  unfolding custody_def by (auto split: if_splits)

text \<open>
  Row \<open>i\<close> becomes \<open>t\<close> and its asset moves to \<open>l\<close>, when no other live row holds
  that asset and the row gives up no other asset.
\<close>

lemma custody_put:
  assumes c: "custody T A" and id: "xfer_message_id t = i"
    and free: "\<And>j u. T j = Some u \<Longrightarrow> status_is_live (xfer_status u) \<Longrightarrow> j \<noteq> i \<Longrightarrow> xfer_asset_id u \<noteq> xfer_asset_id t"
    and old: "\<And>u. T i = Some u \<Longrightarrow> status_is_live (xfer_status u) \<Longrightarrow> xfer_asset_id u = xfer_asset_id t"
    and l: "status_is_live (xfer_status t) \<and> l = xfer_status t \<or> \<not> status_is_live (xfer_status t) \<and> (\<exists>d. l = Active d)"
  shows "custody (T(i \<mapsto> t)) (A(xfer_asset_id t \<mapsto> l))"
proof -
  have key: "xfer_message_id u = j" if "(T(i \<mapsto> t)) j = Some u" for j u
    using that id custody_keyed [OF c] by (cases "j = i") auto
  have loc: "(A(xfer_asset_id t \<mapsto> l)) (xfer_asset_id u) = Some (xfer_status u)"
    if "(T(i \<mapsto> t)) j = Some u" "status_is_live (xfer_status u)" for j u
    using that l free custody_located [OF c] by (cases "j = i") auto
  have uniq: "j = k" if "(T(i \<mapsto> t)) j = Some u" "(T(i \<mapsto> t)) k = Some v" "status_is_live (xfer_status u)"
    "status_is_live (xfer_status v)" "xfer_asset_id u = xfer_asset_id v" for j k u v
    using that custody_unique [OF c, of j u k v] free by (cases "j = i"; cases "k = i") auto
  have owned: "\<exists>j u. (T(i \<mapsto> t)) j = Some u \<and> xfer_asset_id u = a \<and> xfer_status u = r"
    if a: "(A(xfer_asset_id t \<mapsto> l)) a = Some r" "status_is_live r" for a r
  proof (cases "a = xfer_asset_id t")
    case True
    then show ?thesis using a l by (intro exI [of _ i]) auto
  next
    case False
    then obtain j u where j: "T j = Some u" "xfer_asset_id u = a" "xfer_status u = r"
      using custody_owned [OF c, of a r] a by auto
    then have "j \<noteq> i" using False old a(2) by blast
    then show ?thesis using j by (intro exI [of _ j] exI [of _ u]) auto
  qed
  have nu: "(A(xfer_asset_id t \<mapsto> l)) a \<noteq> Some (Unlocked e)" for a e
    using custody_never_unlocked [OF c, of a e] l by (cases "xfer_status t") auto
  show ?thesis
    unfolding custody_def using key loc uniq owned nu by blast
qed

lemma custody_open:
  assumes c: "custody T A" and "T i = None" "A (xfer_asset_id t) = Some (Active d)" "xfer_message_id t = i"
    "status_is_live (xfer_status t)"
  shows "custody (T(i \<mapsto> t)) (A(xfer_asset_id t \<mapsto> xfer_status t))"
proof (rule custody_put [OF c assms(4)])
  show "xfer_asset_id u \<noteq> xfer_asset_id t" if "T j = Some u" "status_is_live (xfer_status u)" for j u
    using custody_located [OF c that] assms(3) that(2) by (metis option.inject status_is_live.simps(4))
qed (use assms in auto)

text \<open>A live transfer moves on to status \<open>s\<close> and takes its asset along, to \<open>l\<close>.\<close>

lemma custody_move:
  assumes c: "custody T A" and T: "T i = Some t" "status_is_live (xfer_status t)"
    and s: "status_is_live s \<and> l = s \<or> \<not> status_is_live s \<and> (\<exists>d. l = Active d)"
  shows "custody (T(i \<mapsto> t\<lparr>xfer_status := s\<rparr>)) (A(xfer_asset_id t \<mapsto> l))"
proof -
  have "custody (T(i \<mapsto> t\<lparr>xfer_status := s\<rparr>)) (A(xfer_asset_id (t\<lparr>xfer_status := s\<rparr>) \<mapsto> l))"
  proof (rule custody_put [OF c])
    show "xfer_asset_id u \<noteq> xfer_asset_id (t\<lparr>xfer_status := s\<rparr>)"
      if "T j = Some u" "status_is_live (xfer_status u)" "j \<noteq> i" for j u
      using custody_unique [OF c that(1) T(1) that(2) T(2)] that(3) by auto
  qed (use T s custody_keyed [OF c T(1)] in auto)
  then show ?thesis by simp
qed

lemma custody_drop:
  assumes c: "custody T A" and "\<forall>t. T i = Some t \<longrightarrow> \<not> status_is_live (xfer_status t)"
  shows "custody (T(i := None)) A"
proof -
  have "\<exists>j u. (T(i := None)) j = Some u \<and> xfer_asset_id u = a \<and> xfer_status u = s"
    if as: "A a = Some s" "status_is_live s" for a s
  proof -
    obtain j u where j: "T j = Some u" "xfer_asset_id u = a" "xfer_status u = s"
      using custody_owned [OF c as] by auto
    then have "j \<noteq> i" using assms(2) as by auto
    then show ?thesis using j by (intro exI [of _ j] exI [of _ u]) auto
  qed
  then show ?thesis
    unfolding custody_def using custodyD(1,2,3,5) [OF c] by (auto split: if_splits)
qed

subsection \<open>Queues\<close>

definition queued :: "(u64, message_id list) btree_map \<Rightarrow> u64 \<Rightarrow> message_id \<Rightarrow> bool" where
  "queued q k i \<longleftrightarrow> (case bt_get q k of None \<Rightarrow> False | Some ids \<Rightarrow> i \<in> set ids)"

lemma queued_empty [simp]: "\<not> queued bt_empty k i"
  by (simp add: queued_def)

lemma queued_push [simp]: "queued (bt_push k x q) k' i \<longleftrightarrow> queued q k' i \<or> (k' = k \<and> i = x)"
  by (auto simp: queued_def split: option.splits)

lemma queued_remove [simp]: "queued (bt_remove k q) k' i \<longleftrightarrow> k' \<noteq> k \<and> queued q k' i"
  by (auto simp: queued_def)

lemma queued_keys_upto: "(\<exists>h \<in> set (bt_keys_upto q hi). queued q h i) \<longleftrightarrow> (\<exists>h \<le> hi. queued q h i)"
proof -
  have "bt_get q h \<noteq> None" if "queued q h i" for h
    using that by (auto simp: queued_def split: option.splits)
  then show ?thesis by (meson in_bt_keys_upto_iff)
qed

text \<open>
  A lock that expires is queued at its expiry height and nowhere else; a settled row is queued
  at the one height it settled at, and no live row is queued as settled.
\<close>

definition queues_ok ::
  "(message_id \<Rightarrow> bridge_transfer option) \<Rightarrow> (u64 \<Rightarrow> message_id \<Rightarrow> bool) \<Rightarrow> (u64 \<Rightarrow> message_id \<Rightarrow> bool) \<Rightarrow> bool" where
  "queues_ok T E S \<longleftrightarrow>
     (\<forall>i t. T i = Some t \<longrightarrow> status_is_locked (xfer_status t) \<longrightarrow> xfer_expiry_height t > 0 \<longrightarrow> E (xfer_expiry_height t) i) \<and>
     (\<forall>i t k. T i = Some t \<longrightarrow> E k i \<longrightarrow> xfer_expiry_height t = k \<and> k > 0) \<and>
     (\<forall>i t. T i = Some t \<longrightarrow> \<not> status_is_live (xfer_status t) \<longrightarrow> (\<exists>k. S k i)) \<and>
     (\<forall>i t k. T i = Some t \<longrightarrow> S k i \<longrightarrow> \<not> status_is_live (xfer_status t)) \<and>
     (\<forall>i t k l. T i = Some t \<longrightarrow> S k i \<longrightarrow> S l i \<longrightarrow> k = l)"

lemma queues_okD:
  assumes "queues_ok T E S"
  shows queued_expiry: "T i = Some t \<Longrightarrow> status_is_locked (xfer_status t) \<Longrightarrow> xfer_expiry_height t > 0 \<Longrightarrow> E (xfer_expiry_height t) i"
    and queued_expiry_eq: "T i = Some t \<Longrightarrow> E k i \<Longrightarrow> xfer_expiry_height t = k \<and> k > 0"
    and queued_settled: "T i = Some t \<Longrightarrow> \<not> status_is_live (xfer_status t) \<Longrightarrow> \<exists>k. S k i"
    and queued_settled_terminal: "T i = Some t \<Longrightarrow> S k i \<Longrightarrow> \<not> status_is_live (xfer_status t)"
    and queued_settled_eq: "T i = Some t \<Longrightarrow> S k i \<Longrightarrow> S l i \<Longrightarrow> k = l"
  using assms unfolding queues_ok_def by blast+

lemma queues_ok_open:
  assumes q: "queues_ok T E S" and new: "\<And>k. \<not> E k i" "\<And>k. \<not> S k i"
    and t: "status_is_live (xfer_status t)"
    and E': "\<And>k j. E' k j \<longleftrightarrow> E k j \<or> (k = xfer_expiry_height t \<and> k > 0 \<and> j = i)"
  shows "queues_ok (T(i \<mapsto> t)) E' S"
  using assms unfolding queues_ok_def by (auto split: if_splits)

lemma queues_ok_live:
  assumes q: "queues_ok T E S" and T: "T i = Some t" "status_is_live (xfer_status t)"
    and s: "status_is_live s" "\<not> status_is_locked s"
  shows "queues_ok (T(i \<mapsto> t\<lparr>xfer_status := s\<rparr>)) E S"
  using assms queued_settled_terminal [OF q T(1)] unfolding queues_ok_def by (auto split: if_splits)

lemma queues_ok_settle:
  assumes q: "queues_ok T E S" and T: "T i = Some t" "status_is_live (xfer_status t)"
    and s: "\<not> status_is_live s"
    and S': "\<And>k j. S' k j \<longleftrightarrow> S k j \<or> (k = h \<and> j = i)"
  shows "queues_ok (T(i \<mapsto> t\<lparr>xfer_status := s\<rparr>)) E S'"
  using assms queued_settled_terminal [OF q T(1)] unfolding queues_ok_def by (auto split: if_splits)

subsection \<open>The effect of each operation\<close>

lemma bt_get_insert_fun: "bt_get (bt_insert k v m) = (bt_get m)(k \<mapsto> v)"
  by (auto simp: fun_eq_iff)

lemma bt_get_remove_fun: "bt_get (bt_remove k m) = (bt_get m)(k := None)"
  by (auto simp: fun_eq_iff)

lemma require_asset_status_ok:
  "require_asset_status b asset s = Inr () \<longleftrightarrow> bt_get (asset_locations b) asset = Some s"
  by (auto simp: require_asset_status_def split: option.splits)

text \<open>The message \<open>m\<close> announces the lock recorded in row \<open>t\<close>.\<close>

definition announces :: "hasher \<Rightarrow> cross_domain_message \<Rightarrow> bridge_transfer \<Rightarrow> bool" where
  "announces H m t \<longleftrightarrow> msg_id m = xfer_message_id t \<and> msg_correlation_id m = None \<and>
     msg_source_domain m = xfer_source_domain t \<and> msg_target_domain m = xfer_target_domain t \<and>
     msg_sender m = xfer_owner t \<and> msg_recipient m = xfer_recipient t \<and>
     msg_payload_hash m = bridge_payload_hash H (xfer_asset_id t) (bud_get (xfer_amount t)) \<and>
     msg_kind m = BridgeLock \<and> msg_expiry_height m = xfer_expiry_height t"

definition msg_direction :: "cross_domain_message \<Rightarrow> direction" where
  "msg_direction m = (msg_source_domain m, msg_target_domain m, msg_sender m)"

lemma bridge_lock_cases:
  obtains (refused) e where
      "bridge_lock H source target height index asset owner recipient amount expiry b = (Inl e, b)"
      "bt_get (asset_locations b) asset \<noteq> Some (Active source)"
  | (locked) t ev m where
      "bt_get (asset_locations b) asset = Some (Active source)"
      "bridge_lock H source target height index asset owner recipient amount expiry b =
         (Inr (t, ev), b\<lparr> asset_locations := bt_insert asset (Locked source) (asset_locations b),
            transfers := bt_insert (msg_id m) t (transfers b),
            expiry_queue := (if expiry > 0 then bt_push expiry (msg_id m) (expiry_queue b) else expiry_queue b),
            replay := snd (next_nonce source target owner (replay b)) \<rparr>)"
      "verify_id H m" "announces H m t" "msg_nonce m = outbound_nonce (replay b) (source, target, owner)"
      "msg_source_height m = height" "msg_event_index m = index"
      "xfer_asset_id t = asset" "xfer_source_domain t = source" "xfer_target_domain t = target"
      "xfer_owner t = owner" "xfer_recipient t = recipient" "xfer_amount t = Bud amount"
      "xfer_status t = Locked source" "xfer_expiry_height t = expiry"
      "ev_message ev = Some m" "ev_kind ev = BridgeLocked" "ev_domain_id ev = source"
      "xfer_source_event_hash t = leaf_hash H ev"
proof (cases "require_asset_status b asset (Active source)")
  case (Inl e)
  then show ?thesis
    using require_asset_status_ok [of b asset "Active source"] by (intro refused) (simp_all add: bridge_lock_def)
next
  case (Inr u)
  let ?m = "message_new H
    \<lparr> par_source_domain = source, par_target_domain = target, par_source_height = height,
      par_event_index = index, par_nonce = outbound_nonce (replay b) (source, target, owner),
      par_sender = owner, par_recipient = recipient, par_payload_hash = bridge_payload_hash H asset amount,
      par_kind = BridgeLock, par_expiry_height = expiry \<rparr>"
  let ?ev = "\<lparr> ev_domain_id = source, ev_domain_height = height, ev_event_index = index,
      ev_kind = BridgeLocked, ev_emitter = owner, ev_message = Some ?m,
      ev_payload_hash = bridge_payload_hash H asset amount \<rparr>"
  let ?t = "\<lparr> xfer_message_id = msg_id ?m, xfer_asset_id = asset, xfer_source_domain = source,
      xfer_target_domain = target, xfer_owner = owner, xfer_recipient = recipient,
      xfer_amount = Bud amount, xfer_status = Locked source, xfer_source_event_hash = leaf_hash H ?ev,
      xfer_expiry_height = expiry \<rparr>"
  show ?thesis
    using Inr require_asset_status_ok [of b asset "Active source"]
    by (intro locked [where m = ?m and ev = ?ev and t = ?t])
      (simp_all add: bridge_lock_def Let_def next_nonce_def announces_def bud_new_def)
qed

lemma mark_processed_at_fresh:
  assumes "\<not> is_processed r source target sender n"
  shows "\<exists>r'. mark_processed_at source target sender n h r = (Inr (), r') \<and> outbound_nonces r' = outbound_nonces r \<and>
    (\<forall>a b c k. is_processed r' a b c k \<longleftrightarrow> is_processed r a b c k \<or> (a, b, c) = (source, target, sender) \<and> k \<le> n)"
proof -
  let ?r = "snd (mark_processed_at source target sender n h r)"
  have "fst (mark_processed_at source target sender n h r) = Inr ()"
    using rg.spend_ok_iff [of "(source, target, sender)" n h r] assms
    by (simp add: replay_spend_def replay_spent_def)
  moreover have "is_processed ?r a b c k \<longleftrightarrow> is_processed r a b c k \<or> (a, b, c) = (source, target, sender) \<and> k \<le> n" for a b c k
    using rg.spent_spend [of r "(source, target, sender)" n h "(a, b, c)" k] assms
    by (simp add: replay_spend_def replay_spent_def)
  ultimately show ?thesis
    by (intro exI [of _ ?r]) (simp add: prod_eq_iff)
qed

lemma bridge_mint_cases:
  obtains (refused) e where "bridge_mint H m h b = (Inl e, b)"
  | (minted) t r where
      "verify_id H m" "bt_get (transfers b) (msg_id m) = Some t" "xfer_status t = Locked (msg_source_domain m)"
      "msg_payload_hash m = bridge_payload_hash H (xfer_asset_id t) (bud_get (xfer_amount t))"
      "\<not> is_processed (replay b) (msg_source_domain m) (msg_target_domain m) (msg_sender m) (msg_nonce m)"
      "mark_processed_at (msg_source_domain m) (msg_target_domain m) (msg_sender m) (msg_nonce m) h (replay b) = (Inr (), r)"
      "outbound_nonces r = outbound_nonces (replay b)"
      "bridge_mint H m h b = (Inr (), b\<lparr> replay := r,
         transfers := bt_insert (msg_id m) (t\<lparr> xfer_status := Minted (msg_target_domain m) \<rparr>) (transfers b),
         asset_locations := bt_insert (xfer_asset_id t) (Minted (msg_target_domain m)) (asset_locations b) \<rparr>)"
proof (cases "\<exists>t. verify_id H m \<and> bt_get (transfers b) (msg_id m) = Some t \<and> xfer_status t = Locked (msg_source_domain m) \<and>
    msg_payload_hash m = bridge_payload_hash H (xfer_asset_id t) (bud_get (xfer_amount t)) \<and>
    \<not> is_processed (replay b) (msg_source_domain m) (msg_target_domain m) (msg_sender m) (msg_nonce m)")
  case True
  then obtain t where t: "verify_id H m" "bt_get (transfers b) (msg_id m) = Some t"
    "xfer_status t = Locked (msg_source_domain m)"
    "msg_payload_hash m = bridge_payload_hash H (xfer_asset_id t) (bud_get (xfer_amount t))"
    "\<not> is_processed (replay b) (msg_source_domain m) (msg_target_domain m) (msg_sender m) (msg_nonce m)"
    by auto
  obtain r where r: "mark_processed_at (msg_source_domain m) (msg_target_domain m) (msg_sender m) (msg_nonce m) h (replay b) = (Inr (), r)"
    "outbound_nonces r = outbound_nonces (replay b)"
    using mark_processed_at_fresh [OF t(5), of h] by auto
  then show ?thesis by (intro minted [OF t r]) (simp add: bridge_mint_def t)
next
  case False
  then have "\<exists>e. bridge_mint H m h b = (Inl e, b)"
    by (auto simp: bridge_mint_def split: option.splits)
  then show ?thesis using refused by auto
qed

lemma burn_with_event_cases:
  obtains (refused) e where "burn_with_event H i d h n x b = (Inl e, b)"
      "\<forall>t. bt_get (transfers b) i = Some t \<longrightarrow> xfer_status t \<noteq> Minted d"
  | (burned) t ev where
      "bt_get (transfers b) i = Some t" "xfer_status t = Minted d"
      "burn_with_event H i d h n x b = (Inr ev, b\<lparr> transfers := bt_insert i (t\<lparr> xfer_status := Burned d \<rparr>) (transfers b),
         asset_locations := bt_insert (xfer_asset_id t) (Burned d) (asset_locations b),
         replay := snd (next_nonce d (xfer_source_domain t) (xfer_recipient t) (replay b)) \<rparr>)"
      "ev_kind ev = BridgeBurned" "ev_domain_id ev = d"
      "\<exists>m. ev_message ev = Some m \<and> verify_id H m \<and> msg_correlation_id m = Some i \<and> msg_kind m = BridgeBurn \<and>
         msg_source_domain m = d \<and> msg_target_domain m = xfer_source_domain t \<and>
         msg_sender m = xfer_recipient t \<and> msg_recipient m = xfer_owner t \<and>
         msg_nonce m = outbound_nonce (replay b) (d, xfer_source_domain t, xfer_recipient t) \<and>
         msg_payload_hash m = bridge_payload_hash H (xfer_asset_id t) (bud_get (xfer_amount t))"
proof (cases "\<exists>t. bt_get (transfers b) i = Some t \<and> xfer_status t = Minted d")
  case True
  then obtain t where t: "bt_get (transfers b) i = Some t" "xfer_status t = Minted d" by auto
  let ?m = "message_new_correlated H
    \<lparr> par_source_domain = d, par_target_domain = xfer_source_domain t, par_source_height = h,
      par_event_index = n, par_nonce = outbound_nonce (replay b) (d, xfer_source_domain t, xfer_recipient t),
      par_sender = xfer_recipient t, par_recipient = xfer_owner t,
      par_payload_hash = bridge_payload_hash H (xfer_asset_id t) (bud_get (xfer_amount t)),
      par_kind = BridgeBurn, par_expiry_height = x \<rparr> i"
  show ?thesis
    by (rule burned [OF t, where ev = "\<lparr> ev_domain_id = d, ev_domain_height = h, ev_event_index = n,
        ev_kind = BridgeBurned, ev_emitter = xfer_recipient t, ev_message = Some ?m,
        ev_payload_hash = bridge_payload_hash H (xfer_asset_id t) (bud_get (xfer_amount t)) \<rparr>"])
      (simp_all add: burn_with_event_def t Let_def next_nonce_def)
next
  case False
  then have "\<exists>e. burn_with_event H i d h n x b = (Inl e, b)"
    by (auto simp: burn_with_event_def split: option.splits)
  then show ?thesis using refused False by blast
qed

lemma bridge_unlock_cases:
  obtains (refused) e where "bridge_unlock i d h b = (Inl e, b)"
      "\<forall>t. bt_get (transfers b) i = Some t \<longrightarrow> xfer_status t \<noteq> Burned d \<or> xfer_target_domain t \<noteq> d"
  | (unlocked) t where
      "bt_get (transfers b) i = Some t" "xfer_status t = Burned d" "xfer_target_domain t = d"
      "bridge_unlock i d h b = (Inr (), b\<lparr>
         transfers := bt_insert i (t\<lparr> xfer_status := Unlocked (xfer_source_domain t) \<rparr>) (transfers b),
         asset_locations := bt_insert (xfer_asset_id t) (Active (xfer_source_domain t)) (asset_locations b),
         settled_queue := bt_push h i (settled_queue b) \<rparr>)"
proof (cases "\<exists>t. bt_get (transfers b) i = Some t \<and> xfer_status t = Burned d \<and> xfer_target_domain t = d")
  case True
  then obtain t where t: "bt_get (transfers b) i = Some t" "xfer_status t = Burned d" "xfer_target_domain t = d"
    by auto
  show ?thesis
    by (rule unlocked [OF t]) (simp add: bridge_unlock_def t Let_def mark_settled_def)
next
  case False
  then have "\<exists>e. bridge_unlock i d h b = (Inl e, b)"
    by (auto simp: bridge_unlock_def Let_def split: option.splits)
  then show ?thesis using refused False by blast
qed

subsection \<open>The fee split\<close>

lemma split_bridge_fee_exact:
  assumes "unat fee_ppm < 1000000"
  shows "case split_bridge_fee amount fee_ppm min_fee of
      Inl e \<Rightarrow> e = FeeNotCovered \<and> bud_get amount \<le> min_fee
    | Inr (recipient, fee) \<Rightarrow> bud_get amount > min_fee \<and>
        unat (bud_get fee) = max (unat (bud_get amount) * unat fee_ppm div 1000000) (unat min_fee) \<and>
        unat (bud_get recipient) + unat (bud_get fee) = unat (bud_get amount) \<and> 0 < unat (bud_get recipient)"
proof -
  let ?a = "unat (bud_get amount)" and ?A = "ucast (bud_get amount) :: u128" and ?M = "ucast min_fee :: u128"
  let ?P = "sat_mul ?A (ucast fee_ppm) div 1000000"
  have up: "unat (ucast v :: u128) = unat v" for v :: u64 by (simp add: unat_ucast_up)
  have a64: "?a < 2 ^ 64" using unat_le_max [of "bud_get amount"] by simp
  have prod: "?a * unat fee_ppm < 2 ^ 128"
  proof -
    have "?a * unat fee_ppm \<le> 2 ^ 64 * 1000000" using a64 assms by (intro mult_mono) simp_all
    also have "\<dots> < 2 ^ 128" by simp
    finally show ?thesis .
  qed
  have P: "unat ?P = ?a * unat fee_ppm div 1000000"
    using prod by (simp add: unat_div_distrib unat_sat_mul up)
  have Plt: "unat ?P < ?a" if "0 < ?a"
    using assms that by (simp add: P div_less_iff_less_mult)
  show ?thesis
  proof (cases "bud_get amount \<le> min_fee")
    case True
    then show ?thesis
      by (simp add: split_bridge_fee_def split_bridge_fee_u128_def word_le_nat_alt up)
  next
    case False
    let ?F = "max ?P ?M"
    have F: "unat ?F = max (unat ?P) (unat min_fee)" by (simp add: max_def word_le_nat_alt up)
    have Fa: "unat ?F < ?a" using False Plt by (simp add: F word_le_nat_alt)
    have R: "unat (sat_sub ?A ?F) = ?a - unat ?F" by (simp add: unat_sat_sub up)
    have down: "unat (ucast w :: u64) = unat w" if "unat w < 2 ^ 64" for w :: u128
      using that by (simp add: unsigned_ucast_eq take_bit_nat_eq_self)
    have small: "unat ?F < 2 ^ 64" "unat (sat_sub ?A ?F) < 2 ^ 64" using Fa a64 by (simp_all add: R)
    have "split_bridge_fee amount fee_ppm min_fee = Inr (Bud (ucast (sat_sub ?A ?F)), Bud (ucast ?F))"
      using False small by (simp add: split_bridge_fee_def split_bridge_fee_u128_def word_le_nat_alt up Let_def bud_try_from_def)
    then show ?thesis
      using False Fa small by (simp add: down R F P word_less_nat_alt word_le_nat_alt)
  qed
qed

end
