(* ===== verification/Bridge_Sweep.thy ===== *)
theory Bridge_Sweep
  imports Bridge_Custody
begin

text \<open>
  The sweep of \<^verbatim>\<open>src/cross_domain/bridge.rs\<close>: what its loops over the expiry queue and
  the settled queue do to every row, to the queues and to the sum that is locked. The sweep
  is shown to release exactly the expired locks and to refund exactly what they held.
\<close>

subsection \<open>Releasing locks\<close>

definition expire_row :: "bridge_transfer \<Rightarrow> bridge_transfer" where
  "expire_row t = (case xfer_status t of Locked d \<Rightarrow> t\<lparr> xfer_status := Active d \<rparr> | _ \<Rightarrow> t)"

definition locked_at :: "(message_id \<Rightarrow> bridge_transfer option) \<Rightarrow> message_id \<Rightarrow> bool" where
  "locked_at T i = (case T i of None \<Rightarrow> False | Some t \<Rightarrow> status_is_locked (xfer_status t))"

lemma expire_row_unlocked [simp]: "\<not> status_is_locked (xfer_status t) \<Longrightarrow> expire_row t = t"
  by (cases "xfer_status t") (simp_all add: expire_row_def)

lemma not_locked_expire_row [simp]: "\<not> status_is_locked (xfer_status (expire_row t))"
  by (cases "xfer_status t") (simp_all add: expire_row_def)

lemma expire_row_sel [simp]:
  "xfer_message_id (expire_row t) = xfer_message_id t" "xfer_asset_id (expire_row t) = xfer_asset_id t"
  "xfer_source_domain (expire_row t) = xfer_source_domain t" "xfer_target_domain (expire_row t) = xfer_target_domain t"
  "xfer_owner (expire_row t) = xfer_owner t" "xfer_recipient (expire_row t) = xfer_recipient t"
  "xfer_amount (expire_row t) = xfer_amount t" "xfer_expiry_height (expire_row t) = xfer_expiry_height t"
  "xfer_source_event_hash (expire_row t) = xfer_source_event_hash t"
  by (cases "xfer_status t"; simp add: expire_row_def)+

lemma expire_row_idem [simp]: "map_option expire_row (map_option expire_row x) = map_option expire_row x"
  by (cases x) simp_all

lemma live_expire_row: "status_is_live (xfer_status (expire_row t)) \<longleftrightarrow> status_is_live (xfer_status t) \<and> \<not> status_is_locked (xfer_status t)"
  by (cases "xfer_status t") (simp_all add: expire_row_def)

text \<open>
  The weight of the locked rows under any weight \<open>g\<close> of an owner and an amount: with
  \<open>g\<close> the amount it is the sum in custody, with \<open>g\<close> the amount of one owner, what
  that owner has locked.
\<close>

definition row_weight :: "(address \<times> Bud \<Rightarrow> nat) \<Rightarrow> bridge_transfer \<Rightarrow> nat" where
  "row_weight g t = (if status_is_locked (xfer_status t) then g (xfer_owner t, xfer_amount t) else 0)"

definition locked_weight :: "(address \<times> Bud \<Rightarrow> nat) \<Rightarrow> bridge_state \<Rightarrow> nat" where
  "locked_weight g b = sum_list (map (\<lambda>(i, t). row_weight g t) (bt_entries (transfers b)))"

lemma locked_weight_insert:
  "transfers b' = bt_insert i t (transfers b) \<Longrightarrow>
   locked_weight g b' + (case bt_get (transfers b) i of None \<Rightarrow> 0 | Some u \<Rightarrow> row_weight g u) = locked_weight g b + row_weight g t"
  using bt.sum_insert [of "\<lambda>_. row_weight g" i t "transfers b"] by (simp add: locked_weight_def del: bt_entries_simps)

lemma locked_weight_remove:
  "transfers b' = bt_remove i (transfers b) \<Longrightarrow>
   locked_weight g b' + (case bt_get (transfers b) i of None \<Rightarrow> 0 | Some u \<Rightarrow> row_weight g u) = locked_weight g b"
  using bt.sum_remove [of "\<lambda>_. row_weight g" i "transfers b"] by (simp add: locked_weight_def del: bt_entries_simps)

text \<open>What a run of the release loops does, for the set \<open>I\<close> of identifiers it visits.\<close>

definition releases ::
  "u64 \<Rightarrow> (message_id \<Rightarrow> bool) \<Rightarrow> bridge_state \<Rightarrow> (address \<times> Bud) list \<Rightarrow> bridge_state \<Rightarrow> (address \<times> Bud) list \<Rightarrow> bool" where
  "releases h I b r b' r' \<longleftrightarrow>
     (\<forall>i. bt_get (transfers b') i = (if I i then map_option expire_row (bt_get (transfers b) i) else bt_get (transfers b) i)) \<and>
     replay b' = replay b \<and>
     (\<forall>k i. queued (settled_queue b') k i \<longleftrightarrow>
        queued (settled_queue b) k i \<or> (k = h \<and> I i \<and> locked_at (bt_get (transfers b)) i)) \<and>
     (\<exists>new. r' = r @ new \<and> (\<forall>g. locked_weight g b = locked_weight g b' + sum_list (map g new))) \<and>
     (\<forall>a. bt_get (asset_locations b') a = bt_get (asset_locations b) a \<or>
        (\<exists>i t d. I i \<and> bt_get (transfers b) i = Some t \<and> xfer_status t = Locked d \<and> xfer_asset_id t = a \<and>
           bt_get (asset_locations b') a = Some (Active d))) \<and>
     (custody (bt_get (transfers b)) (bt_get (asset_locations b)) \<longrightarrow>
        custody (bt_get (transfers b')) (bt_get (asset_locations b')))"

lemma releasesD:
  assumes "releases h I b r b' r'"
  shows releases_get: "bt_get (transfers b') i = (if I i then map_option expire_row (bt_get (transfers b) i) else bt_get (transfers b) i)"
    and releases_replay: "replay b' = replay b"
    and releases_settled: "queued (settled_queue b') k i \<longleftrightarrow>
        queued (settled_queue b) k i \<or> (k = h \<and> I i \<and> locked_at (bt_get (transfers b)) i)"
    and releases_weight: "\<exists>new. r' = r @ new \<and> (\<forall>g. locked_weight g b = locked_weight g b' + sum_list (map g new))"
    and releases_assets: "bt_get (asset_locations b') a = bt_get (asset_locations b) a \<or>
        (\<exists>i t d. I i \<and> bt_get (transfers b) i = Some t \<and> xfer_status t = Locked d \<and> xfer_asset_id t = a \<and>
           bt_get (asset_locations b') a = Some (Active d))"
    and releases_custody: "custody (bt_get (transfers b)) (bt_get (asset_locations b)) \<Longrightarrow>
        custody (bt_get (transfers b')) (bt_get (asset_locations b'))"
  using assms unfolding releases_def by blast+

lemma releases_refl:
  assumes "transfers b' = transfers b" "replay b' = replay b" "settled_queue b' = settled_queue b"
    "asset_locations b' = asset_locations b"
  shows "releases h (\<lambda>_. False) b r b' r"
  using assms by (simp add: releases_def locked_weight_def)

lemma releases_trans:
  assumes 1: "releases h I b r b' r'" and 2: "releases h J b' r' b'' r''"
  shows "releases h (\<lambda>i. I i \<or> J i) b r b'' r''"
proof -
  have T: "bt_get (transfers b'') i = (if I i \<or> J i then map_option expire_row (bt_get (transfers b) i) else bt_get (transfers b) i)" for i
    by (simp add: releases_get [OF 1] releases_get [OF 2])
  have L: "J i \<Longrightarrow> locked_at (bt_get (transfers b')) i \<longleftrightarrow> \<not> I i \<and> locked_at (bt_get (transfers b)) i" for i
    by (auto simp: locked_at_def releases_get [OF 1] split: option.splits)
  have S: "queued (settled_queue b'') k i \<longleftrightarrow>
      queued (settled_queue b) k i \<or> (k = h \<and> (I i \<or> J i) \<and> locked_at (bt_get (transfers b)) i)" for k i
    using L [of i] by (auto simp: releases_settled [OF 1] releases_settled [OF 2])
  obtain n m where n: "r' = r @ n" "\<forall>g. locked_weight g b = locked_weight g b' + sum_list (map g n)"
    and m: "r'' = r' @ m" "\<forall>g. locked_weight g b' = locked_weight g b'' + sum_list (map g m)"
    using releases_weight [OF 1] releases_weight [OF 2] by auto
  have W: "\<exists>new. r'' = r @ new \<and> (\<forall>g. locked_weight g b = locked_weight g b'' + sum_list (map g new))"
    using n m by (intro exI [of _ "n @ m"]) simp
  have A: "bt_get (asset_locations b'') a = bt_get (asset_locations b) a \<or>
      (\<exists>i t d. (I i \<or> J i) \<and> bt_get (transfers b) i = Some t \<and> xfer_status t = Locked d \<and> xfer_asset_id t = a \<and>
         bt_get (asset_locations b'') a = Some (Active d))" for a
  proof -
    have earlier: "bt_get (transfers b) i = Some t" if "bt_get (transfers b') i = Some t" "xfer_status t = Locked d" for i t d
      using that releases_get [OF 1, of i] not_locked_expire_row
      by (metis map_option_eq_Some status_is_locked.simps(1))
    show ?thesis
      using releases_assets [OF 1, of a] releases_assets [OF 2, of a] earlier by metis
  qed
  show ?thesis
    unfolding releases_def using T S W A releases_replay [OF 1] releases_replay [OF 2]
      releases_custody [OF 1] releases_custody [OF 2] by simp
qed

lemma releases_cong: "releases h I b r b' r' \<Longrightarrow> (\<And>i. I i \<longleftrightarrow> J i) \<Longrightarrow> releases h J b r b' r'"
  by (simp add: releases_def)

lemma release_lock_releases:
  assumes "release_lock h i (b, r) = (b', r')"
  shows "releases h (\<lambda>j. j = i) b r b' r' \<and> expiry_queue b' = expiry_queue b"
proof (cases "locked_at (bt_get (transfers b)) i")
  case False
  then have "b' = b" "r' = r"
    using assms by (auto simp: release_lock_def locked_at_def split: option.splits bridge_status.splits)
  moreover have "map_option expire_row (bt_get (transfers b) i) = bt_get (transfers b) i"
    using False by (cases "bt_get (transfers b) i") (auto simp: locked_at_def)
  ultimately show ?thesis
    using False by (auto simp: releases_def)
next
  case True
  then obtain t d where t: "bt_get (transfers b) i = Some t" "xfer_status t = Locked d"
    by (auto simp: locked_at_def split: option.splits elim: status_is_locked.elims)
  let ?b = "b\<lparr> transfers := bt_insert i (t\<lparr> xfer_status := Active d \<rparr>) (transfers b),
    asset_locations := bt_insert (xfer_asset_id t) (Active d) (asset_locations b),
    settled_queue := bt_push h i (settled_queue b) \<rparr>"
  have b': "b' = ?b" and r': "r' = r @ [(xfer_owner t, xfer_amount t)]"
    using assms t by (simp_all add: release_lock_def mark_settled_def)
  have x: "expire_row t = t\<lparr> xfer_status := Active d \<rparr>" by (simp add: expire_row_def t)
  have W: "locked_weight g b = locked_weight g b' + g (xfer_owner t, xfer_amount t)" for g
    using locked_weight_insert [of b' i "t\<lparr> xfer_status := Active d \<rparr>" b g]
    by (simp add: b' t row_weight_def)
  have C: "custody (bt_get (transfers b')) (bt_get (asset_locations b'))"
    if "custody (bt_get (transfers b)) (bt_get (asset_locations b))"
    using custody_move [OF that t(1), of "Active d" "Active d"] t
    by (simp add: b' bt_get_insert_fun)
  show ?thesis
    unfolding releases_def
    using True W C by (auto simp: b' r' t x)
qed

lemma fold_release_lock:
  "fold (release_lock h) ids (b, r) = (b', r') \<Longrightarrow>
   releases h (\<lambda>i. i \<in> set ids) b r b' r' \<and> expiry_queue b' = expiry_queue b"
proof (induction ids arbitrary: b r)
  case Nil
  then show ?case using releases_refl [of b b] by simp
next
  case (Cons i ids)
  obtain c s where c: "release_lock h i (b, r) = (c, s)" by (cases "release_lock h i (b, r)")
  with Cons have rest: "releases h (\<lambda>i. i \<in> set ids) c s b' r' \<and> expiry_queue b' = expiry_queue c" by simp
  from releases_trans [OF conjunct1 [OF release_lock_releases [OF c]] conjunct1 [OF rest]]
  show ?case
    using rest release_lock_releases [OF c] by (auto intro: releases_cong)
qed

lemma release_height_releases:
  assumes "release_height h k (b, r) = (b', r')"
  shows "releases h (queued (expiry_queue b) k) b r b' r' \<and> expiry_queue b' = bt_remove k (expiry_queue b)"
proof (cases "bt_get (expiry_queue b) k")
  case None
  then have "b' = b" "r' = r" using assms by (simp_all add: release_height_def)
  moreover have "bt_remove k (expiry_queue b) = expiry_queue b"
    using None by (intro bt_map_eqI) simp
  ultimately show ?thesis
    using releases_cong [OF releases_refl [of b b], of "queued (expiry_queue b) k"] None
    by (simp add: queued_def)
next
  case (Some ids)
  let ?c = "b\<lparr> expiry_queue := bt_remove k (expiry_queue b) \<rparr>"
  have "fold (release_lock h) ids (?c, r) = (b', r')" using assms Some by (simp add: release_height_def)
  from fold_release_lock [OF this]
  have f: "releases h (\<lambda>i. i \<in> set ids) ?c r b' r'" "expiry_queue b' = bt_remove k (expiry_queue b)" by simp_all
  from releases_trans [OF releases_refl [of ?c b h r] f(1)]
  show ?thesis using f(2) Some by (auto simp: queued_def intro: releases_cong)
qed

lemma fold_release_height:
  "fold (release_height h) ks (b, r) = (b', r') \<Longrightarrow>
   releases h (\<lambda>i. \<exists>k \<in> set ks. queued (expiry_queue b) k i) b r b' r' \<and>
   (\<forall>k i. queued (expiry_queue b') k i \<longleftrightarrow> k \<notin> set ks \<and> queued (expiry_queue b) k i)"
proof (induction ks arbitrary: b r)
  case Nil
  then show ?case using releases_refl [of b b] by simp
next
  case (Cons k ks)
  obtain c s where c: "release_height h k (b, r) = (c, s)" by (cases "release_height h k (b, r)")
  note first = release_height_releases [OF c]
  from c Cons have rest: "releases h (\<lambda>i. \<exists>k \<in> set ks. queued (expiry_queue c) k i) c s b' r'"
    "\<forall>k i. queued (expiry_queue b') k i \<longleftrightarrow> k \<notin> set ks \<and> queued (expiry_queue c) k i" by simp_all
  have "releases h (\<lambda>i. queued (expiry_queue b) k i \<or> (\<exists>k \<in> set ks. queued (expiry_queue c) k i)) b r b' r'"
    by (rule releases_trans [OF conjunct1 [OF first] rest(1)])
  then have "releases h (\<lambda>i. \<exists>k \<in> set (k # ks). queued (expiry_queue b) k i) b r b' r'"
    by (rule releases_cong) (use first in auto)
  then show ?case using first rest(2) by auto
qed

subsection \<open>Dropping settled rows\<close>

definition drop_if :: "bool \<Rightarrow> bridge_transfer option \<Rightarrow> bridge_transfer option" where
  "drop_if c x = (case x of None \<Rightarrow> None | Some t \<Rightarrow> if c \<and> status_is_terminal (xfer_status t) then None else Some t)"

lemma drop_if_False [simp]: "drop_if False x = x"
  by (simp add: drop_if_def split: option.split)

lemma drop_if_drop_if [simp]: "drop_if c (drop_if d x) = drop_if (d \<or> c) x"
  by (auto simp: drop_if_def split: option.splits)

definition drops :: "(message_id \<Rightarrow> bool) \<Rightarrow> bridge_state \<Rightarrow> bridge_state \<Rightarrow> bool" where
  "drops D b b' \<longleftrightarrow>
     (\<forall>i. bt_get (transfers b') i = drop_if (D i) (bt_get (transfers b) i)) \<and>
     replay b' = replay b \<and> asset_locations b' = asset_locations b \<and> expiry_queue b' = expiry_queue b \<and>
     (\<forall>g. locked_weight g b' = locked_weight g b) \<and>
     (custody (bt_get (transfers b)) (bt_get (asset_locations b)) \<longrightarrow>
        custody (bt_get (transfers b')) (bt_get (asset_locations b')))"

lemma drops_refl:
  assumes "transfers b' = transfers b" "replay b' = replay b" "expiry_queue b' = expiry_queue b"
    "asset_locations b' = asset_locations b"
  shows "drops (\<lambda>_. False) b b'"
  using assms by (simp add: drops_def locked_weight_def)

lemma drops_trans: "drops D b b' \<Longrightarrow> drops E b' b'' \<Longrightarrow> drops (\<lambda>i. D i \<or> E i) b b''"
  by (auto simp: drops_def)

lemma drops_cong: "drops D b b' \<Longrightarrow> (\<And>i. D i \<longleftrightarrow> E i) \<Longrightarrow> drops E b b'"
  by (auto simp: drops_def)

lemma drop_settled_row_drops:
  "drops (\<lambda>j. j = i) b (drop_settled_row i b) \<and> settled_queue (drop_settled_row i b) = settled_queue b"
proof (cases "\<exists>t. bt_get (transfers b) i = Some t \<and> status_is_terminal (xfer_status t)")
  case False
  then have "drop_settled_row i b = b" and "drop_if (j = i) (bt_get (transfers b) j) = bt_get (transfers b) j" for j
    by (auto simp: drop_settled_row_def drop_if_def split: option.splits)
  then show ?thesis by (auto simp: drops_def)
next
  case True
  then obtain t where t: "bt_get (transfers b) i = Some t" "status_is_terminal (xfer_status t)" by auto
  have d: "drop_settled_row i b = b\<lparr> transfers := bt_remove i (transfers b) \<rparr>"
    by (simp add: drop_settled_row_def t)
  have nl: "\<not> status_is_locked (xfer_status t)" using t(2) by (cases "xfer_status t") simp_all
  have W: "locked_weight g (drop_settled_row i b) = locked_weight g b" for g
    using locked_weight_remove [of "drop_settled_row i b" i b g] nl by (simp add: d t row_weight_def)
  have C: "custody (bt_get (transfers (drop_settled_row i b))) (bt_get (asset_locations (drop_settled_row i b)))"
    if "custody (bt_get (transfers b)) (bt_get (asset_locations b))"
    using custody_drop [OF that, of i] t by (simp add: d bt_get_remove_fun terminal_iff_not_live)
  show ?thesis
    unfolding drops_def using W C t by (auto simp: d drop_if_def split: option.splits)
qed

lemma fold_drop_settled_row:
  "drops (\<lambda>i. i \<in> set ids) b (fold drop_settled_row ids b) \<and> settled_queue (fold drop_settled_row ids b) = settled_queue b"
proof (induction ids arbitrary: b)
  case Nil
  then show ?case using drops_refl [of b b] by simp
next
  case (Cons i ids)
  from drops_trans [OF conjunct1 [OF drop_settled_row_drops] conjunct1 [OF Cons.IH [of "drop_settled_row i b"]]]
  show ?case using Cons.IH [of "drop_settled_row i b"] drop_settled_row_drops [of i b]
    by (auto intro: drops_cong)
qed

lemma drop_settled_height_drops:
  "drops (queued (settled_queue b) k) b (drop_settled_height k b) \<and>
   settled_queue (drop_settled_height k b) = bt_remove k (settled_queue b)"
proof (cases "bt_get (settled_queue b) k")
  case None
  then have "drop_settled_height k b = b" by (simp add: drop_settled_height_def)
  moreover have "bt_remove k (settled_queue b) = settled_queue b"
    using None by (intro bt_map_eqI) simp
  ultimately show ?thesis
    using drops_cong [OF drops_refl [of b b], of "queued (settled_queue b) k"] None by (simp add: queued_def)
next
  case (Some ids)
  let ?c = "b\<lparr> settled_queue := bt_remove k (settled_queue b) \<rparr>"
  have d: "drop_settled_height k b = fold drop_settled_row ids ?c"
    using Some by (simp add: drop_settled_height_def)
  from drops_trans [OF drops_refl [of ?c b] conjunct1 [OF fold_drop_settled_row [of ids ?c]]]
  show ?thesis using fold_drop_settled_row [of ids ?c] Some
    by (auto simp: d queued_def intro: drops_cong)
qed

lemma fold_drop_settled_height:
  "drops (\<lambda>i. \<exists>k \<in> set ks. queued (settled_queue b) k i) b (fold drop_settled_height ks b) \<and>
   (\<forall>k i. queued (settled_queue (fold drop_settled_height ks b)) k i \<longleftrightarrow> k \<notin> set ks \<and> queued (settled_queue b) k i)"
proof (induction ks arbitrary: b)
  case Nil
  then show ?case using drops_refl [of b b] by simp
next
  case (Cons k ks)
  let ?c = "drop_settled_height k b"
  note first = drop_settled_height_drops [of b k]
  have "drops (\<lambda>i. queued (settled_queue b) k i \<or> (\<exists>k \<in> set ks. queued (settled_queue ?c) k i)) b
      (fold drop_settled_height ks ?c)"
    by (rule drops_trans [OF conjunct1 [OF first] conjunct1 [OF Cons.IH]])
  then have "drops (\<lambda>i. \<exists>k \<in> set (k # ks). queued (settled_queue b) k i) b (fold drop_settled_height ks ?c)"
    by (rule drops_cong) (use first in auto)
  then show ?case using first Cons.IH [of ?c] by auto
qed

subsection \<open>The whole sweep\<close>

definition retention_cutoff :: "u64 \<Rightarrow> u64" where
  "retention_cutoff h = sat_sub h SETTLED_RETENTION_BLOCKS"

lemma sweep_effect:
  assumes "sweep_expired_locks h b = (released, b')"
  obtains c where
    "releases h (\<lambda>i. \<exists>k \<le> h. queued (expiry_queue b) k i) b [] c released"
    "drops (\<lambda>i. \<exists>k \<le> retention_cutoff h. queued (settled_queue c) k i) c b'"
    "\<And>k i. queued (expiry_queue b') k i \<longleftrightarrow> \<not> k \<le> h \<and> queued (expiry_queue b) k i"
    "\<And>k i. queued (settled_queue b') k i \<longleftrightarrow> \<not> k \<le> retention_cutoff h \<and> queued (settled_queue c) k i"
proof -
  obtain c r where c: "fold (release_height h) (bt_keys_upto (expiry_queue b) h) (b, []) = (c, r)"
    by (cases "fold (release_height h) (bt_keys_upto (expiry_queue b) h) (b, [])")
  then have r: "r = released" and b': "b' = drop_settled_rows h c"
    using assms by (simp_all add: sweep_expired_locks_def)
  have key: "queued q k i \<Longrightarrow> k \<notin> set (bt_keys_upto q x) \<longleftrightarrow> \<not> k \<le> x" for q k i x
    by (auto simp: in_bt_keys_upto_iff queued_def split: option.splits)
  note rel = fold_release_height [OF c]
  let ?ks = "bt_keys_upto (settled_queue c) (retention_cutoff h)"
  have d: "b' = fold drop_settled_height ?ks c"
    by (simp add: b' drop_settled_rows_def retention_cutoff_def Let_def)
  note dr = fold_drop_settled_height [of ?ks c, folded d]
  have D: "drops (\<lambda>i. \<exists>k \<le> retention_cutoff h. queued (settled_queue c) k i) c b'"
    using dr queued_keys_upto by (auto intro: drops_cong)
  have R: "releases h (\<lambda>i. \<exists>k \<le> h. queued (expiry_queue b) k i) b [] c released"
    using rel queued_keys_upto r by (auto intro: releases_cong)
  have "expiry_queue b' = expiry_queue c" using D by (simp add: drops_def)
  then have "queued (expiry_queue b') k i \<longleftrightarrow> \<not> k \<le> h \<and> queued (expiry_queue b) k i" for k i
    using rel key by auto
  moreover have "queued (settled_queue b') k i \<longleftrightarrow> \<not> k \<le> retention_cutoff h \<and> queued (settled_queue c) k i" for k i
    using dr key by auto
  ultimately show ?thesis using R D that by blast
qed

definition lock_expired :: "u64 \<Rightarrow> bridge_transfer \<Rightarrow> bool" where
  "lock_expired h t \<longleftrightarrow> status_is_locked (xfer_status t) \<and> 0 < xfer_expiry_height t \<and> xfer_expiry_height t \<le> h"

abbreviation bridge_custody :: "bridge_state \<Rightarrow> bool" where
  "bridge_custody b \<equiv> custody (bt_get (transfers b)) (bt_get (asset_locations b))"

abbreviation bridge_queues_ok :: "bridge_state \<Rightarrow> bool" where
  "bridge_queues_ok b \<equiv> queues_ok (bt_get (transfers b)) (queued (expiry_queue b)) (queued (settled_queue b))"

text \<open>
  With the queues in order, a run of the sweep expires a row if and only if its lock is due, and drops
  it if and only if it settled at or below the retention cutoff.
\<close>

lemma sweep_rows:
  assumes q: "bridge_queues_ok b" and sw: "sweep_expired_locks h b = (released, b')"
  obtains S where
    "\<And>i. bt_get (transfers b') i = drop_if (\<exists>k \<le> retention_cutoff h. S k i)
       (map_option (\<lambda>t. if lock_expired h t then expire_row t else t) (bt_get (transfers b) i))"
    "\<And>k i t. bt_get (transfers b) i = Some t \<Longrightarrow> S k i \<longleftrightarrow> queued (settled_queue b) k i \<or> (k = h \<and> lock_expired h t)"
    "\<And>k i. queued (expiry_queue b') k i \<longleftrightarrow> \<not> k \<le> h \<and> queued (expiry_queue b) k i"
    "\<And>k i. queued (settled_queue b') k i \<longleftrightarrow> \<not> k \<le> retention_cutoff h \<and> S k i"
    "\<And>k i. S k i \<Longrightarrow> queued (settled_queue b) k i \<or> bt_get (transfers b) i \<noteq> None"
    "bridge_custody b \<Longrightarrow> bridge_custody b'" "replay b' = replay b"
    "\<And>a. bt_get (asset_locations b') a = bt_get (asset_locations b) a \<or>
       (\<exists>i t d. bt_get (transfers b) i = Some t \<and> xfer_status t = Locked d \<and> xfer_asset_id t = a \<and>
          bt_get (asset_locations b') a = Some (Active d))"
    "\<And>g. locked_weight g b = locked_weight g b' + sum_list (map g released)"
proof -
  obtain c where c: "releases h (\<lambda>i. \<exists>k \<le> h. queued (expiry_queue b) k i) b [] c released"
    and d: "drops (\<lambda>i. \<exists>k \<le> retention_cutoff h. queued (settled_queue c) k i) c b'"
    and E: "\<And>k i. queued (expiry_queue b') k i \<longleftrightarrow> \<not> k \<le> h \<and> queued (expiry_queue b) k i"
    and S: "\<And>k i. queued (settled_queue b') k i \<longleftrightarrow> \<not> k \<le> retention_cutoff h \<and> queued (settled_queue c) k i"
    by (rule sweep_effect [OF sw]) (rule that)
  have due: "lock_expired h t \<longleftrightarrow> status_is_locked (xfer_status t) \<and> (\<exists>k \<le> h. queued (expiry_queue b) k i)"
    if "bt_get (transfers b) i = Some t" for i t
    using queued_expiry [OF q that] queued_expiry_eq [OF q that] by (auto simp: lock_expired_def)
  have T: "bt_get (transfers c) i = map_option (\<lambda>t. if lock_expired h t then expire_row t else t) (bt_get (transfers b) i)" for i
    using due [of i] by (cases "bt_get (transfers b) i") (auto simp: releases_get [OF c])
  have S': "queued (settled_queue c) k i \<longleftrightarrow> queued (settled_queue b) k i \<or> (k = h \<and> lock_expired h t)"
    if "bt_get (transfers b) i = Some t" for k i t
    using due [OF that] that by (auto simp: releases_settled [OF c] locked_at_def)
  have N: "queued (settled_queue b) k i \<or> bt_get (transfers b) i \<noteq> None" if "queued (settled_queue c) k i" for k i
    using that by (auto simp: releases_settled [OF c] locked_at_def split: option.splits)
  have W: "locked_weight g b = locked_weight g b' + sum_list (map g released)" for g
    using releases_weight [OF c] d by (auto simp: drops_def)
  have T': "bt_get (transfers b') i = drop_if (\<exists>k \<le> retention_cutoff h. queued (settled_queue c) k i)
      (map_option (\<lambda>t. if lock_expired h t then expire_row t else t) (bt_get (transfers b) i))" for i
    using d by (simp add: drops_def T)
  have C: "bridge_custody b'" if "bridge_custody b"
    using releases_custody [OF c that] d unfolding drops_def by blast
  have R: "replay b' = replay b"
    using d releases_replay [OF c] by (simp add: drops_def)
  have A: "bt_get (asset_locations b') a = bt_get (asset_locations b) a \<or>
      (\<exists>i t d. bt_get (transfers b) i = Some t \<and> xfer_status t = Locked d \<and> xfer_asset_id t = a \<and>
         bt_get (asset_locations b') a = Some (Active d))" for a
    using releases_assets [OF c, of a] d unfolding drops_def by metis
  show thesis
    by (rule that [OF T' S' E S N C R A W])
qed

lemma sweep_queues_ok:
  assumes q: "bridge_queues_ok b" and sw: "sweep_expired_locks h b = (released, b')"
  shows "bridge_queues_ok b'"
proof -
  obtain S where T: "\<And>i. bt_get (transfers b') i = drop_if (\<exists>k \<le> retention_cutoff h. S k i)
       (map_option (\<lambda>t. if lock_expired h t then expire_row t else t) (bt_get (transfers b) i))"
    and S: "\<And>k i t. bt_get (transfers b) i = Some t \<Longrightarrow> S k i \<longleftrightarrow> queued (settled_queue b) k i \<or> (k = h \<and> lock_expired h t)"
    and E': "\<And>k i. queued (expiry_queue b') k i \<longleftrightarrow> \<not> k \<le> h \<and> queued (expiry_queue b) k i"
    and S': "\<And>k i. queued (settled_queue b') k i \<longleftrightarrow> \<not> k \<le> retention_cutoff h \<and> S k i"
    by (rule sweep_rows [OF q sw]) (rule that)
  have row: "\<exists>t. bt_get (transfers b) i = Some t \<and> u = (if lock_expired h t then expire_row t else t) \<and>
      (status_is_live (xfer_status u) \<or> \<not> (\<exists>k \<le> retention_cutoff h. S k i))"
    if "bt_get (transfers b') i = Some u" for i u
    using that by (auto simp: T drop_if_def terminal_iff_not_live split: option.splits if_splits)
  show ?thesis
    unfolding queues_ok_def
  proof (intro conjI allI impI)
    fix i u assume u: "bt_get (transfers b') i = Some u" "status_is_locked (xfer_status u)" "xfer_expiry_height u > 0"
    from row [OF u(1)] obtain t where t: "bt_get (transfers b) i = Some t" "u = (if lock_expired h t then expire_row t else t)"
      by blast
    then have "u = t" "\<not> lock_expired h t" using u(2) by (auto split: if_splits)
    then show "queued (expiry_queue b') (xfer_expiry_height u) i"
      using queued_expiry [OF q t(1)] u by (simp add: E' lock_expired_def)
  next
    fix i u k assume u: "bt_get (transfers b') i = Some u" "queued (expiry_queue b') k i"
    from row [OF u(1)] obtain t where t: "bt_get (transfers b) i = Some t" "u = (if lock_expired h t then expire_row t else t)"
      by blast
    then show "xfer_expiry_height u = k" "k > 0"
      using queued_expiry_eq [OF q t(1), of k] u(2) by (simp_all add: E')
  next
    fix i u assume u: "bt_get (transfers b') i = Some u" "\<not> status_is_live (xfer_status u)"
    then obtain t where t: "bt_get (transfers b) i = Some t" "u = (if lock_expired h t then expire_row t else t)"
      "\<not> (\<exists>k \<le> retention_cutoff h. S k i)"
      using row by blast
    have "\<exists>k. S k i"
      using queued_settled [OF q t(1)] u(2) t(2) S [OF t(1)] by (cases "lock_expired h t") auto
    then show "\<exists>k. queued (settled_queue b') k i" using t(3) by (auto simp: S')
  next
    fix i u k assume u: "bt_get (transfers b') i = Some u" "queued (settled_queue b') k i"
    from row [OF u(1)] obtain t where t: "bt_get (transfers b) i = Some t" "u = (if lock_expired h t then expire_row t else t)"
      by blast
    have "queued (settled_queue b) k i \<or> lock_expired h t" using u(2) S [OF t(1)] by (auto simp: S')
    moreover have "status_is_locked (xfer_status t)" if "lock_expired h t"
      using that by (simp add: lock_expired_def)
    ultimately show "\<not> status_is_live (xfer_status u)"
      using queued_settled_terminal [OF q t(1), of k] t(2)
      by (cases "lock_expired h t") (auto simp: live_expire_row)
  next
    fix i u k l assume u: "bt_get (transfers b') i = Some u" "queued (settled_queue b') k i" "queued (settled_queue b') l i"
    from row [OF u(1)] obtain t where t: "bt_get (transfers b) i = Some t" by blast
    have "S k i" "S l i" using u(2,3) by (simp_all add: S')
    moreover have "\<not> queued (settled_queue b) m i" if "lock_expired h t" for m
      using queued_settled_terminal [OF q t, of m] that by (auto simp: lock_expired_def)
    ultimately show "k = l"
      using S [OF t] queued_settled_eq [OF q t, of k l] by (cases "lock_expired h t") simp_all
  qed
qed

end
