(* ===== verification/Bridge_Reach.thy ===== *)
theory Bridge_Reach
  imports Bridge_Sweep
begin

text \<open>
  The bridge as a transition system: any sequence of its operations, accepted or refused, in
  any order and with any arguments. A state is the bridge together with the messages whose
  identifiers it has relied on, those announcing a lock and those an accepted mint carried.
  Every reachable state satisfies the invariants of \<^verbatim>\<open>Bridge_Custody.thy\<close>, provided
  SHA-256 does not collide on those messages and no outbound counter is exhausted.
\<close>

datatype bridge_op =
    RegisterAsset asset_id domain_id
  | Lock domain_id domain_id u64 u32 asset_id address address u64 u64
  | Mint cross_domain_message u64
  | Burn message_id domain_id u64 u32 u64
  | Unlock message_id domain_id u64
  | Sweep u64

type_synonym bridge_world = "bridge_state \<times> cross_domain_message list"

fun bridge_apply :: "hasher \<Rightarrow> bridge_op \<Rightarrow> bridge_state \<Rightarrow> bridge_state" where
  "bridge_apply H (RegisterAsset a d) b = snd (bridge_register_asset a d b)"
| "bridge_apply H (Lock s t h n a p q v x) b = snd (bridge_lock H s t h n a p q v x b)"
| "bridge_apply H (Mint m h) b = snd (bridge_mint H m h b)"
| "bridge_apply H (Burn i d h n x) b = snd (burn_with_event H i d h n x b)"
| "bridge_apply H (Unlock i d h) b = snd (bridge_unlock i d h b)"
| "bridge_apply H (Sweep h) b = snd (sweep_expired_locks h b)"

fun bridge_seen :: "hasher \<Rightarrow> bridge_op \<Rightarrow> bridge_state \<Rightarrow> cross_domain_message list" where
  "bridge_seen H (Lock s t h n a p q v x) b =
     (case fst (bridge_lock H s t h n a p q v x b) of
        Inl _ \<Rightarrow> []
      | Inr (_, ev) \<Rightarrow> (case ev_message ev of None \<Rightarrow> [] | Some m \<Rightarrow> [m]))"
| "bridge_seen H (Mint m h) b = (if is_ok (fst (bridge_mint H m h b)) then [m] else [])"
| "bridge_seen H _ b = []"

definition bridge_exec :: "hasher \<Rightarrow> bridge_op \<Rightarrow> bridge_world \<Rightarrow> bridge_world" where
  "bridge_exec H op w = (bridge_apply H op (fst w), bridge_seen H op (fst w) @ snd w)"

definition bridge_run :: "hasher \<Rightarrow> bridge_op list \<Rightarrow> bridge_world" where
  "bridge_run H ops = fold (bridge_exec H) ops (bridge_new, [])"

inductive bridge_step :: "hasher \<Rightarrow> bridge_world \<Rightarrow> bridge_world \<Rightarrow> bool" for H where
  bridge_step: "bridge_step H w (bridge_exec H op w)"

inductive_cases bridge_stepE: "bridge_step H w w'"

definition bridge_init :: "bridge_world \<Rightarrow> bool" where
  "bridge_init w \<longleftrightarrow> w = (bridge_new, [])"

lemma reach_fold_exec: "reach bridge_init (bridge_step H) w \<Longrightarrow> reach bridge_init (bridge_step H) (fold (bridge_exec H) ops w)"
proof (induction ops arbitrary: w)
  case (Cons op ops)
  then show ?case using reach_step [OF Cons.prems bridge_step [of H w op]] by simp
qed simp

lemma reach_bridge_run: "reach bridge_init (bridge_step H) (bridge_run H ops)"
  unfolding bridge_run_def by (intro reach_fold_exec reach_init) (simp add: bridge_init_def)

text \<open>The proviso: no collision among the messages relied on, and no counter at its ceiling.\<close>

definition counters_open :: "replay_nonce_store \<Rightarrow> bool" where
  "counters_open r \<longleftrightarrow> (\<forall>n \<in> set (bt_values (outbound_nonces r)). n \<noteq> - 1)"

definition bridge_sound :: "hasher \<Rightarrow> bridge_world \<Rightarrow> bool" where
  "bridge_sound H w \<longleftrightarrow> no_collision H (message_fields ` set (snd w)) \<and> counters_open (replay (fst w))"

lemma counters_open_iff: "counters_open r \<longleftrightarrow> (\<forall>k. outbound_nonce r k \<noteq> - 1)"
proof
  assume open_r: "counters_open r"
  show "\<forall>k. outbound_nonce r k \<noteq> - 1"
  proof
    fix k
    have "n \<noteq> - 1" if "bt_get (outbound_nonces r) k = Some n" for n
      using open_r iffD2 [OF in_bt_values_iff exI, OF that] by (simp add: counters_open_def)
    then show "outbound_nonce r k \<noteq> - 1" by (auto simp: outbound_nonce_def split: option.splits)
  qed
next
  assume *: "\<forall>k. outbound_nonce r k \<noteq> - 1"
  show "counters_open r"
    unfolding counters_open_def
  proof
    fix n assume "n \<in> set (bt_values (outbound_nonces r))"
    then obtain k where "bt_get (outbound_nonces r) k = Some n" by (rule iffD1 [OF in_bt_values_iff, THEN exE])
    then show "n \<noteq> - 1" using spec [OF *, of k] by (simp add: outbound_nonce_def)
  qed
qed

subsection \<open>The proviso at a later state implies it at an earlier one\<close>

lemma outbound_next_nonce_mono: "outbound_nonce r k \<le> outbound_nonce (snd (next_nonce s t a r)) k"
  by (simp add: outbound_next_nonce sat_add_mono_left)

lemma sweep_replay: "replay (snd (sweep_expired_locks h b)) = replay b"
proof -
  obtain r b' where sw: "sweep_expired_locks h b = (r, b')" by (cases "sweep_expired_locks h b")
  obtain c where "releases h (\<lambda>i. \<exists>k \<le> h. queued (expiry_queue b) k i) b [] c r"
    "drops (\<lambda>i. \<exists>k \<le> retention_cutoff h. queued (settled_queue c) k i) c b'"
    by (rule sweep_effect [OF sw]) (rule that)
  then show ?thesis by (simp add: sw releases_def drops_def)
qed

lemma outbound_apply_mono: "outbound_nonce (replay b) k \<le> outbound_nonce (replay (bridge_apply H op b)) k"
proof (cases op)
  case (Lock s t h n a p q v x)
  then show ?thesis
    by (cases rule: bridge_lock_cases [of H s t h n a p q v x b]) (simp_all add: outbound_next_nonce_mono)
next
  case (Mint m h)
  then show ?thesis
    by (cases rule: bridge_mint_cases [of H m h b]) (simp_all add: outbound_nonce_def)
next
  case (Burn i d h n x)
  then show ?thesis
    by (cases rule: burn_with_event_cases [of H i d h n x b]) (simp_all add: outbound_next_nonce_mono)
next
  case (Unlock i d h)
  then show ?thesis by (cases rule: bridge_unlock_cases [of i d h b]) simp_all
qed (simp_all add: bridge_register_asset_def sweep_replay)

lemma no_collision_subset: "no_collision H G \<Longrightarrow> F \<subseteq> G \<Longrightarrow> no_collision H F"
  unfolding no_collision_def by (meson image_mono inj_on_subset subsetD)

lemma bridge_sound_back: "bridge_sound H (bridge_exec H op w) \<Longrightarrow> bridge_sound H w"
proof -
  assume s: "bridge_sound H (bridge_exec H op w)"
  have "outbound_nonce (replay (fst w)) k \<noteq> - 1" for k
  proof
    assume "outbound_nonce (replay (fst w)) k = - 1"
    then have "outbound_nonce (replay (bridge_apply H op (fst w))) k = - 1"
      using outbound_apply_mono [of "fst w" k H op] by (simp add: word_order.extremum_unique)
    moreover have "outbound_nonce (replay (bridge_apply H op (fst w))) k \<noteq> - 1"
      using s by (simp add: bridge_sound_def counters_open_iff bridge_exec_def del: split_paired_All)
    ultimately show False by simp
  qed
  moreover have "no_collision H (message_fields ` set (snd w))"
    by (rule no_collision_subset [of H "message_fields ` set (snd (bridge_exec H op w))"])
      (use s in \<open>auto simp: bridge_sound_def bridge_exec_def\<close>)
  ultimately show ?thesis
    by (simp add: bridge_sound_def counters_open_iff)
qed

lemma bridge_sound_fold: "bridge_sound H (fold (bridge_exec H) ops w) \<Longrightarrow> bridge_sound H w"
proof (induction ops arbitrary: w)
  case (Cons op ops)
  then show ?case using bridge_sound_back [of H op w] by simp
qed simp

subsection \<open>The invariant\<close>

text \<open>Where a transfer can be: at its source domain, or, minted and burned, at its target domain.\<close>

definition homed :: "bridge_transfer \<Rightarrow> bool" where
  "homed t \<longleftrightarrow> xfer_status t \<in> {Active (xfer_source_domain t), Locked (xfer_source_domain t),
     Unlocked (xfer_source_domain t), Minted (xfer_target_domain t), Burned (xfer_target_domain t)}"

definition rows_traced :: "hasher \<Rightarrow> bridge_state \<Rightarrow> cross_domain_message list \<Rightarrow> bool" where
  "rows_traced H b seen \<longleftrightarrow>
     (\<forall>i t. bt_get (transfers b) i = Some t \<longrightarrow> homed t \<and> (\<exists>m \<in> set seen. announces H m t))"

definition seen_issued :: "hasher \<Rightarrow> bridge_state \<Rightarrow> cross_domain_message list \<Rightarrow> bool" where
  "seen_issued H b seen \<longleftrightarrow>
     (\<forall>m \<in> set seen. verify_id H m \<and> msg_nonce m < outbound_nonce (replay b) (msg_direction m))"

definition queues_known :: "bridge_state \<Rightarrow> cross_domain_message list \<Rightarrow> bool" where
  "queues_known b seen \<longleftrightarrow>
     (\<forall>k i. queued (expiry_queue b) k i \<or> queued (settled_queue b) k i \<longrightarrow> i \<in> msg_id ` set seen)"

definition bridge_inv :: "hasher \<Rightarrow> bridge_world \<Rightarrow> bool" where
  "bridge_inv H w \<longleftrightarrow> bridge_custody (fst w) \<and> bridge_queues_ok (fst w) \<and>
     rows_traced H (fst w) (snd w) \<and> seen_issued H (fst w) (snd w) \<and> queues_known (fst w) (snd w)"

lemma bridge_invD:
  assumes "bridge_inv H w"
  shows bridge_inv_custody: "bridge_custody (fst w)"
    and bridge_inv_queues: "bridge_queues_ok (fst w)"
    and bridge_inv_traced: "rows_traced H (fst w) (snd w)"
    and bridge_inv_issued: "seen_issued H (fst w) (snd w)"
    and bridge_inv_known: "queues_known (fst w) (snd w)"
  using assms by (simp_all add: bridge_inv_def)

lemma message_content_eqD:
  assumes "message_content m = message_content m'"
  shows "msg_direction m = msg_direction m'" "msg_nonce m = msg_nonce m'"
    "msg_source_domain m = msg_source_domain m'" "msg_target_domain m = msg_target_domain m'"
    "msg_sender m = msg_sender m'" "msg_recipient m = msg_recipient m'"
    "msg_payload_hash m = msg_payload_hash m'" "msg_kind m = msg_kind m'"
    "msg_expiry_height m = msg_expiry_height m'"
proof -
  show fields: "msg_source_domain m = msg_source_domain m'" "msg_target_domain m = msg_target_domain m'"
    "msg_sender m = msg_sender m'" "msg_recipient m = msg_recipient m'" "msg_nonce m = msg_nonce m'"
    "msg_payload_hash m = msg_payload_hash m'" "msg_kind m = msg_kind m'"
    "msg_expiry_height m = msg_expiry_height m'"
    using arg_cong [OF assms, of msg_source_domain] arg_cong [OF assms, of msg_target_domain]
      arg_cong [OF assms, of msg_sender] arg_cong [OF assms, of msg_recipient] arg_cong [OF assms, of msg_nonce]
      arg_cong [OF assms, of msg_payload_hash] arg_cong [OF assms, of msg_kind]
      arg_cong [OF assms, of msg_expiry_height]
    by (simp_all add: message_content_def)
  then show "msg_direction m = msg_direction m'" by (simp add: msg_direction_def)
qed

lemma seen_same_id:
  assumes "no_collision H (message_fields ` F)" "m \<in> F" "m' \<in> F" "verify_id H m" "verify_id H m'" "msg_id m = msg_id m'"
  shows "message_content m = message_content m'"
  using assms(4-6) by (rule message_id_determines) (use assms(2,3) in \<open>auto intro: no_collision_subset [OF assms(1)]\<close>)

text \<open>A message with the next nonce of its direction has an identifier that has not been seen.\<close>

lemma fresh_message_id:
  assumes "no_collision H (message_fields ` set (m # seen))" "seen_issued H b seen" "verify_id H m"
    "msg_nonce m = outbound_nonce (replay b) (msg_direction m)"
  shows "msg_id m \<notin> msg_id ` set seen"
proof
  assume "msg_id m \<in> msg_id ` set seen"
  then obtain m' where m': "m' \<in> set seen" "msg_id m' = msg_id m" by auto
  have "message_content m' = message_content m"
    by (rule seen_same_id [OF assms(1)]) (use m' assms(2,3) in \<open>auto simp: seen_issued_def\<close>)
  then show False
    using m'(1) assms(2,4) message_content_eqD(1,2) [of m' m] by (auto simp: seen_issued_def)
qed

lemma lock_id_unseen:
  assumes "bridge_inv H (b, seen)" "bridge_sound H (bridge_exec H (Lock so ta h n a ow re v x) (b, seen))"
    "bridge_lock H so ta h n a ow re v x b = (Inr (t, ev), b')" "ev_message ev = Some m"
    "verify_id H m" "announces H m t" "msg_nonce m = outbound_nonce (replay b) (so, ta, ow)"
    "xfer_source_domain t = so" "xfer_target_domain t = ta" "xfer_owner t = ow"
  shows "msg_id m \<notin> msg_id ` set seen"
proof (rule fresh_message_id)
  show "no_collision H (message_fields ` set (m # seen))"
    using assms(2-4) by (simp add: bridge_exec_def bridge_sound_def)
  show "seen_issued H b seen" using bridge_inv_issued [OF assms(1)] by simp
  show "msg_nonce m = outbound_nonce (replay b) (msg_direction m)"
    using assms(6-10) by (simp add: msg_direction_def announces_def)
qed (rule assms(5))

lemma rows_traced_put:
  assumes "rows_traced H b seen" "\<And>j. bt_get (transfers b') j = (if j = i then Some u else bt_get (transfers b) j)"
    "homed u" "\<exists>m \<in> set seen'. announces H m u" "set seen \<subseteq> set seen'"
  shows "rows_traced H b' seen'"
  unfolding rows_traced_def
proof (intro allI impI)
  fix j t assume "bt_get (transfers b') j = Some t"
  then have "t = u \<or> bt_get (transfers b) j = Some t" using assms(2) [of j] by (auto split: if_splits)
  then show "homed t \<and> (\<exists>m \<in> set seen'. announces H m t)"
    using assms(1,3-5) unfolding rows_traced_def by blast
qed

lemma seen_issued_mono:
  assumes "seen_issued H b seen" "\<And>k. outbound_nonce (replay b) k \<le> outbound_nonce (replay b') k"
  shows "seen_issued H b' seen"
  using assms unfolding seen_issued_def by (meson order_less_le_trans)

lemma announces_status [simp]: "announces H m (t\<lparr> xfer_status := s \<rparr>) = announces H m t"
  by (simp add: announces_def)

lemma row_id_seen:
  assumes i: "bridge_inv H (b, seen)" and row: "bt_get (transfers b) j = Some t"
  shows "j \<in> msg_id ` set seen"
proof -
  obtain m where "m \<in> set seen" "announces H m t"
    using bridge_inv_traced [OF i] row by (auto simp: rows_traced_def)
  moreover from this have "msg_id m = j"
    using custody_keyed [OF bridge_inv_custody [OF i], of j t] row by (simp add: announces_def)
  ultimately show ?thesis by blast
qed

subsection \<open>Every operation keeps it\<close>

lemma inv_register:
  assumes i: "bridge_inv H (b, seen)"
  shows "bridge_inv H (snd (bridge_register_asset a d b), seen)"
  using assms custody_register [OF bridge_inv_custody [OF i], of a d]
  by (simp add: bridge_inv_def bridge_register_asset_def bt_contains_def bt_get_insert_fun
      rows_traced_def seen_issued_def queues_known_def)

lemma inv_lock:
  assumes i: "bridge_inv H (b, seen)"
    and s: "bridge_sound H (bridge_exec H (Lock so ta h n a ow re v x) (b, seen))"
  shows "bridge_inv H (bridge_exec H (Lock so ta h n a ow re v x) (b, seen))"
proof (cases rule: bridge_lock_cases [of H so ta h n a ow re v x b])
  case (refused e)
  then show ?thesis using i by (simp add: bridge_exec_def)
next
  case (locked t ev m)
  let ?b = "snd (bridge_lock H so ta h n a ow re v x b)"
  have b: "asset_locations ?b = bt_insert a (Locked so) (asset_locations b)"
    "transfers ?b = bt_insert (msg_id m) t (transfers b)"
    "expiry_queue ?b = (if x > 0 then bt_push x (msg_id m) (expiry_queue b) else expiry_queue b)"
    "settled_queue ?b = settled_queue b" "replay ?b = snd (next_nonce so ta ow (replay b))"
    by (simp_all add: locked(2))
  have seen': "bridge_exec H (Lock so ta h n a ow re v x) (b, seen) = (?b, m # seen)"
    by (simp add: bridge_exec_def locked(2,16))
  have dir: "msg_direction m = (so, ta, ow)" and mid: "xfer_message_id t = msg_id m"
    using locked(4,9-11) by (simp_all add: msg_direction_def announces_def)
  have co: "counters_open (replay ?b)" using s by (simp add: seen' bridge_sound_def)
  have issued: "seen_issued H b seen" using bridge_inv_issued [OF i] by simp
  have fresh: "msg_id m \<notin> msg_id ` set seen"
    by (rule lock_id_unseen [OF i s locked(2,16,3,4,5,9-11)])
  then have noq: "\<not> queued (expiry_queue b) k (msg_id m)" "\<not> queued (settled_queue b) k (msg_id m)" for k
    using bridge_inv_known [OF i] by (auto simp: queues_known_def)
  have free: "bt_get (transfers b) (msg_id m) = None"
    using row_id_seen [OF i, of "msg_id m"] fresh by (cases "bt_get (transfers b) (msg_id m)") auto
  have C: "bridge_custody ?b"
    using custody_open [OF bridge_inv_custody [OF i], of "msg_id m" t so] free mid locked(1,8,14)
    by (simp add: b bt_get_insert_fun)
  have "queues_ok ((bt_get (transfers b))(msg_id m \<mapsto> t)) (queued (expiry_queue ?b)) (queued (settled_queue b))"
    using noq by (intro queues_ok_open [OF bridge_inv_queues [OF i, unfolded fst_conv]])
      (auto simp: b locked(14,15))
  then have Q: "bridge_queues_ok ?b" by (simp add: b bt_get_insert_fun)
  have T: "rows_traced H ?b (m # seen)"
    by (rule rows_traced_put [where i = "msg_id m" and u = t, OF bridge_inv_traced [OF i]])
      (use locked(4,9,14) in \<open>auto simp: b homed_def\<close>)
  have "outbound_nonce (replay ?b) (so, ta, ow) \<noteq> - 1" using co by (simp add: counters_open_iff)
  then have "outbound_nonce (replay b) (so, ta, ow) < outbound_nonce (replay ?b) (so, ta, ow)"
    using sat_add_one_less by (simp add: b outbound_next_nonce)
  then have "msg_nonce m < outbound_nonce (replay ?b) (msg_direction m)" by (simp add: dir locked(5))
  moreover have "seen_issued H ?b seen"
    by (rule seen_issued_mono [OF issued]) (simp add: b outbound_next_nonce_mono)
  ultimately have S: "seen_issued H ?b (m # seen)" using locked(3) by (simp add: seen_issued_def)
  have K: "queues_known ?b (m # seen)"
    using bridge_inv_known [OF i] by (auto simp: queues_known_def b)
  show ?thesis using C Q T S K by (simp add: seen' bridge_inv_def)
qed

lemma inv_mint:
  assumes i: "bridge_inv H (b, seen)" and s: "bridge_sound H (bridge_exec H (Mint m h) (b, seen))"
  shows "bridge_inv H (bridge_exec H (Mint m h) (b, seen))"
proof (cases rule: bridge_mint_cases [of H m h b])
  case (refused e)
  then show ?thesis using i by (simp add: bridge_exec_def)
next
  case (minted t r)
  let ?b = "snd (bridge_mint H m h b)"
  have seen': "bridge_exec H (Mint m h) (b, seen) = (?b, m # seen)"
    using minted by (simp add: bridge_exec_def)
  have nc: "no_collision H (message_fields ` set (m # seen))"
    using s by (simp add: seen' bridge_sound_def)
  obtain m0 where m0: "m0 \<in> set seen" "announces H m0 t" and home: "homed t"
    using bridge_inv_traced [OF i] minted(2) by (auto simp: rows_traced_def)
  have issued: "verify_id H m0" "msg_nonce m0 < outbound_nonce (replay b) (msg_direction m0)"
    using bridge_inv_issued [OF i] m0(1) by (auto simp: seen_issued_def)
  have "message_content m = message_content m0"
    by (rule seen_same_id [OF nc])
      (use m0 issued minted(1) custody_keyed [OF bridge_inv_custody [OF i], of "msg_id m" t] minted(2) in \<open>auto simp: announces_def\<close>)
  note same = message_content_eqD [OF this]
  have tgt: "msg_target_domain m = xfer_target_domain t" using same m0(2) by (simp add: announces_def)
  have C: "bridge_custody ?b"
    using custody_move [OF bridge_inv_custody [OF i], of "msg_id m" t "Minted (msg_target_domain m)"] minted
    by (simp add: bt_get_insert_fun)
  have Q: "bridge_queues_ok ?b"
    using queues_ok_live [OF bridge_inv_queues [OF i], of "msg_id m" t "Minted (msg_target_domain m)"] minted
    by (simp add: bt_get_insert_fun)
  have T: "rows_traced H ?b (m # seen)"
    by (rule rows_traced_put [where i = "msg_id m" and u = "t\<lparr> xfer_status := Minted (msg_target_domain m) \<rparr>",
          OF bridge_inv_traced [OF i]])
      (use minted tgt m0 in \<open>auto simp: homed_def\<close>)
  have "seen_issued H ?b seen"
    using bridge_inv_issued [OF i] minted by (simp add: seen_issued_def outbound_nonce_def)
  moreover have "msg_nonce m < outbound_nonce (replay ?b) (msg_direction m)"
    using issued(2) same(1,2) minted by (simp add: outbound_nonce_def)
  ultimately have S: "seen_issued H ?b (m # seen)" using minted(1) by (simp add: seen_issued_def)
  have K: "queues_known ?b (m # seen)"
    using bridge_inv_known [OF i] minted by (auto simp: queues_known_def)
  show ?thesis using C Q T S K by (simp add: seen' bridge_inv_def)
qed

lemma inv_burn:
  assumes i: "bridge_inv H (b, seen)"
  shows "bridge_inv H (snd (burn_with_event H mid d h n x b), seen)"
proof (cases rule: burn_with_event_cases [of H mid d h n x b])
  case (refused e)
  then show ?thesis using i by simp
next
  case (burned t ev)
  let ?b = "snd (burn_with_event H mid d h n x b)"
  have "homed t" and ann: "\<exists>m \<in> set seen. announces H m t"
    using bridge_inv_traced [OF i] burned(1) by (auto simp: rows_traced_def)
  then have d: "d = xfer_target_domain t" using burned(2) by (auto simp: homed_def)
  have C: "bridge_custody ?b"
    using custody_move [OF bridge_inv_custody [OF i], of mid t "Burned d"] burned by (simp add: bt_get_insert_fun)
  have Q: "bridge_queues_ok ?b"
    using queues_ok_live [OF bridge_inv_queues [OF i], of mid t "Burned d"] burned by (simp add: bt_get_insert_fun)
  have T: "rows_traced H ?b seen"
    by (rule rows_traced_put [where i = mid and u = "t\<lparr> xfer_status := Burned d \<rparr>", OF bridge_inv_traced [OF i]])
      (use burned d ann in \<open>auto simp: homed_def\<close>)
  have S: "seen_issued H ?b seen"
    using seen_issued_mono [of H b seen ?b] bridge_inv_issued [OF i] outbound_apply_mono [of b _ H "Burn mid d h n x"] by simp
  have K: "queues_known ?b seen"
    using bridge_inv_known [OF i] burned by (simp add: queues_known_def)
  show ?thesis using C Q T S K by (simp add: bridge_inv_def)
qed

lemma inv_unlock:
  assumes i: "bridge_inv H (b, seen)"
  shows "bridge_inv H (snd (bridge_unlock mid d h b), seen)"
proof (cases rule: bridge_unlock_cases [of mid d h b])
  case (refused e)
  then show ?thesis using i by simp
next
  case (unlocked t)
  let ?b = "snd (bridge_unlock mid d h b)"
  have ann: "\<exists>m \<in> set seen. announces H m t"
    using bridge_inv_traced [OF i] unlocked(1) by (auto simp: rows_traced_def)
  have C: "bridge_custody ?b"
    using custody_move [OF bridge_inv_custody [OF i], of mid t "Unlocked (xfer_source_domain t)" "Active (xfer_source_domain t)"] unlocked
    by (simp add: bt_get_insert_fun)
  have Q: "bridge_queues_ok ?b"
    using queues_ok_settle [OF bridge_inv_queues [OF i], of mid t "Unlocked (xfer_source_domain t)" "queued (settled_queue ?b)" h] unlocked
    by (simp add: bt_get_insert_fun)
  have T: "rows_traced H ?b seen"
    by (rule rows_traced_put [where i = mid and u = "t\<lparr> xfer_status := Unlocked (xfer_source_domain t) \<rparr>", OF bridge_inv_traced [OF i]])
      (use unlocked ann in \<open>auto simp: homed_def\<close>)
  have S: "seen_issued H ?b seen"
    using bridge_inv_issued [OF i] unlocked by (simp add: seen_issued_def)
  have K: "queues_known ?b seen"
    using bridge_inv_known [OF i] row_id_seen [OF i unlocked(1)] unlocked by (auto simp: queues_known_def)
  show ?thesis using C Q T S K by (simp add: bridge_inv_def)
qed

lemma homed_expire_row [simp]: "homed (expire_row t) = homed t"
  by (cases "xfer_status t") (auto simp: homed_def expire_row_def)

lemma announces_expire_row [simp]: "announces H m (expire_row t) = announces H m t"
  by (simp add: announces_def)

lemma inv_sweep:
  assumes i: "bridge_inv H (b, seen)"
  shows "bridge_inv H (snd (sweep_expired_locks h b), seen)"
proof -
  obtain r b' where sw: "sweep_expired_locks h b = (r, b')" by (cases "sweep_expired_locks h b")
  have q: "bridge_queues_ok b" using bridge_inv_queues [OF i] by simp
  obtain S where T: "\<And>i. bt_get (transfers b') i = drop_if (\<exists>k \<le> retention_cutoff h. S k i)
       (map_option (\<lambda>t. if lock_expired h t then expire_row t else t) (bt_get (transfers b) i))"
    and E': "\<And>k i. queued (expiry_queue b') k i \<longleftrightarrow> \<not> k \<le> h \<and> queued (expiry_queue b) k i"
    and S': "\<And>k i. queued (settled_queue b') k i \<longleftrightarrow> \<not> k \<le> retention_cutoff h \<and> S k i"
    and N: "\<And>k i. S k i \<Longrightarrow> queued (settled_queue b) k i \<or> bt_get (transfers b) i \<noteq> None"
    and C: "bridge_custody b \<Longrightarrow> bridge_custody b'" and R: "replay b' = replay b"
    by (rule sweep_rows [OF q sw]) (rule that)
  have "queues_known b' seen"
    unfolding queues_known_def
  proof (intro allI impI)
    fix k j assume "queued (expiry_queue b') k j \<or> queued (settled_queue b') k j"
    then have "queued (expiry_queue b) k j \<or> queued (settled_queue b) k j \<or> (\<exists>t. bt_get (transfers b) j = Some t)"
      using N [of k j] by (auto simp: E' S')
    then show "j \<in> msg_id ` set seen"
      using bridge_inv_known [OF i] row_id_seen [OF i, of j] by (auto simp: queues_known_def)
  qed
  moreover have "rows_traced H b' seen"
    unfolding rows_traced_def
  proof (intro allI impI)
    fix j u assume "bt_get (transfers b') j = Some u"
    then obtain t where "bt_get (transfers b) j = Some t" "u = t \<or> u = expire_row t"
      by (auto simp: T drop_if_def split: option.splits if_splits)
    then show "homed u \<and> (\<exists>m \<in> set seen. announces H m u)"
      using bridge_inv_traced [OF i] by (auto simp: rows_traced_def)
  qed
  moreover have "seen_issued H b' seen" using bridge_inv_issued [OF i] by (simp add: seen_issued_def R)
  ultimately show ?thesis
    using C bridge_inv_custody [OF i] sweep_queues_ok [OF q sw] by (simp add: bridge_inv_def sw)
qed

lemma bridge_inv_exec:
  assumes i: "bridge_inv H w" and "bridge_sound H (bridge_exec H op w)"
  shows "bridge_inv H (bridge_exec H op w)"
proof -
  obtain b seen where w: "w = (b, seen)" by (cases w)
  show ?thesis
  proof (cases op)
    case (Lock so ta h n a ow re v x)
    then show ?thesis using inv_lock assms by (simp add: w)
  next
    case (Mint m h)
    then show ?thesis using inv_mint assms by (simp add: w)
  qed (use i in \<open>simp_all add: w bridge_exec_def inv_register inv_burn inv_unlock inv_sweep\<close>)
qed

lemma bridge_inv_new: "bridge_inv H (bridge_new, [])"
  by (simp add: bridge_inv_def bridge_new_def replay_new_def custody_def queues_ok_def rows_traced_def
      seen_issued_def queues_known_def)

interpretation bridge_safe: inductive_invariant bridge_init "bridge_step H" "\<lambda>w. bridge_sound H w \<longrightarrow> bridge_inv H w"
proof unfold_locales
  show "bridge_sound H w \<longrightarrow> bridge_inv H w" if "bridge_init w" for w
    using that bridge_inv_new by (simp add: bridge_init_def)
  show "bridge_sound H w' \<longrightarrow> bridge_inv H w'" if "bridge_sound H w \<longrightarrow> bridge_inv H w" "bridge_step H w w'" for w w'
  proof -
    from that(2) obtain op where "w' = bridge_exec H op w" by (rule bridge_stepE)
    then show ?thesis using that(1) bridge_inv_exec [of H w op] bridge_sound_back [of H op w] by blast
  qed
qed

lemma bridge_run_inv: "bridge_sound H (bridge_run H ops) \<Longrightarrow> bridge_inv H (bridge_run H ops)"
  using bridge_safe.inv_reach [OF reach_bridge_run] by blast

end
