(* ===== verification/Bridge_Theorems.thy ===== *)
theory Bridge_Theorems
  imports Bridge_Reach "HOL-Library.Multiset"
begin

text \<open>
  What the bridge guarantees over any history of operations: one custodian per asset, no
  message minted twice, refunds that match the expired locks exactly, transfers that only move
  forward and can always be wound down, and the arithmetic of the relayer's fee.
\<close>

subsection \<open>Vocabulary\<close>

definition live_transfers :: "bridge_state \<Rightarrow> asset_id \<Rightarrow> bridge_transfer list" where
  "live_transfers b a = filter (\<lambda>t. xfer_asset_id t = a \<and> status_is_live (xfer_status t)) (bt_values (transfers b))"

text \<open>The order in which a transfer may change status.\<close>

fun status_le :: "bridge_status \<Rightarrow> bridge_status \<Rightarrow> bool" where
  "status_le (Locked _) _ = True"
| "status_le (Minted _) s = (case s of Minted _ \<Rightarrow> True | Burned _ \<Rightarrow> True | Unlocked _ \<Rightarrow> True | _ \<Rightarrow> False)"
| "status_le (Burned _) s = (case s of Burned _ \<Rightarrow> True | Unlocked _ \<Rightarrow> True | _ \<Rightarrow> False)"
| "status_le (Unlocked _) s = (case s of Unlocked _ \<Rightarrow> True | _ \<Rightarrow> False)"
| "status_le (Active _) s = (case s of Active _ \<Rightarrow> True | _ \<Rightarrow> False)"

definition row_le :: "bridge_transfer \<Rightarrow> bridge_transfer \<Rightarrow> bool" where
  "row_le t u \<longleftrightarrow> u = t\<lparr> xfer_status := xfer_status u \<rparr> \<and> status_le (xfer_status t) (xfer_status u)"

text \<open>A short history used by the examples: an asset is registered in domain 1 and locked towards domain 2.\<close>

definition example_history :: "bridge_op list" where
  "example_history = [RegisterAsset [1] 1, Lock 1 2 10 0 [1] [7] [8] 500 100]"

definition example_message :: "hasher \<Rightarrow> cross_domain_message" where
  "example_message H = message_new H
     \<lparr> par_source_domain = 1, par_target_domain = 2, par_source_height = 10, par_event_index = 0,
       par_nonce = 0, par_sender = [7], par_recipient = [8],
       par_payload_hash = bridge_payload_hash H [1] 500, par_kind = BridgeLock, par_expiry_height = 100 \<rparr>"

lemmas bridge_eval = bridge_run_def bridge_exec_def bridge_new_def replay_new_def bridge_register_asset_def
  bt_contains_def bridge_lock_def require_asset_status_def next_nonce_def outbound_nonce_def Let_def
  bridge_mint_def burn_with_event_def bridge_unlock_def mark_settled_def bud_new_def

lemma example_seen: "snd (bridge_run H example_history) = [example_message H]"
  by (simp add: example_history_def example_message_def bridge_eval)

lemma example_sound: "bridge_sound (\<lambda>bs. bs) (bridge_run (\<lambda>bs. bs) example_history)"
proof -
  have "fields_fit (message_fields (example_message (\<lambda>bs. bs)))"
    by (simp add: fields_fit_def message_fields_def example_message_def bridge_payload_hash_def
        hash_fields_bytes_def hash_fields_preimage_def encode_field_def)
  moreover have "counters_open (replay (fst (bridge_run (\<lambda>bs. bs) example_history)))"
    by (simp add: counters_open_def example_history_def bridge_eval bt_values_def sat_add_def)
  ultimately show ?thesis
    by (simp add: bridge_sound_def example_seen no_collision_def)
qed

lemma example_mint_ok:
  "fst (bridge_mint H (example_message H) 50 (fst (bridge_run H example_history))) = Inr ()"
  by (simp add: example_history_def example_message_def bridge_eval is_processed_def mark_processed_at_def)

lemma example_minted_sound:
  "bridge_sound (\<lambda>bs. bs) (bridge_run (\<lambda>bs. bs) (example_history @ [Mint (example_message (\<lambda>bs. bs)) 50]))"
proof -
  let ?H = "\<lambda>bs. bs" and ?m = "example_message (\<lambda>bs. bs)"
  have run: "bridge_run ?H (example_history @ [Mint ?m 50]) = bridge_exec ?H (Mint ?m 50) (bridge_run ?H example_history)"
    by (simp add: bridge_run_def)
  have "replay (fst (bridge_run ?H (example_history @ [Mint ?m 50])))
      = (replay (fst (bridge_run ?H example_history)))\<lparr> processed_high_water := bt_insert (1, 2, [7]) (0, 50) bt_empty \<rparr>"
    by (simp add: example_history_def example_message_def bridge_eval is_processed_def mark_processed_at_def)
  then show ?thesis
    using example_sound example_mint_ok [of ?H]
    by (simp add: run bridge_exec_def bridge_sound_def counters_open_def example_seen no_collision_def)
qed

subsection \<open>One custodian per asset\<close>

lemma filter_unique:
  assumes "distinct (map fst es)" "(k, v) \<in> set es" "P v" "\<And>k' v'. (k', v') \<in> set es \<Longrightarrow> P v' \<Longrightarrow> k' = k"
  shows "filter P (map snd es) = [v]"
  using assms
proof (induction es)
  case (Cons e es)
  obtain k' v' where e: "e = (k', v')" by (cases e)
  show ?case
  proof (cases "(k', v') = (k, v)")
    case True
    have "\<not> P u" if "u \<in> set (map snd es)" for u
    proof
      assume "P u"
      from that obtain j where "(j, u) \<in> set es" by auto
      then have "j = k" using Cons.prems(4) \<open>P u\<close> by (meson list.set_intros(2))
      then show False using Cons.prems(1) e True \<open>(j, u) \<in> set es\<close> by (auto simp: rev_image_eqI)
    qed
    then show ?thesis using e True Cons.prems(3) by (auto simp: filter_empty_conv)
  next
    case False
    then have in_es: "(k, v) \<in> set es" using Cons.prems(2) e by auto
    have "\<not> P v'"
    proof
      assume "P v'"
      then have "k' = k" using Cons.prems(4) e by (meson list.set_intros(1))
      then show False using Cons.prems(1) e in_es by (auto simp: rev_image_eqI)
    qed
    moreover have "filter P (map snd es) = [v]"
      using Cons.prems in_es by (intro Cons.IH) auto
    ultimately show ?thesis using e by simp
  qed
qed simp

lemma live_transfers_row:
  assumes c: "bridge_custody b" and t: "bt_get (transfers b) i = Some t" "status_is_live (xfer_status t)"
  shows "live_transfers b (xfer_asset_id t) = [t]"
  unfolding live_transfers_def bt_values_def
proof (rule filter_unique [OF bt.entries_distinct])
  show "(i, t) \<in> set (bt_entries (transfers b))" using t(1) by (simp add: bt.in_entries_iff)
  show "k = i" if "(k, u) \<in> set (bt_entries (transfers b))"
    "xfer_asset_id u = xfer_asset_id t \<and> status_is_live (xfer_status u)" for k u
    using custody_unique [OF c, of k u i t] that t by (simp add: bt.in_entries_iff)
qed (use t in simp)

lemma live_transfers_custody:
  assumes c: "bridge_custody b"
  shows "map xfer_status (live_transfers b a) =
    (case bt_get (asset_locations b) a of None \<Rightarrow> [] | Some s \<Rightarrow> if status_is_live s then [s] else [])"
proof (cases "\<exists>t \<in> set (bt_values (transfers b)). xfer_asset_id t = a \<and> status_is_live (xfer_status t)")
  case True
  then obtain i t where t: "bt_get (transfers b) i = Some t" "xfer_asset_id t = a" "status_is_live (xfer_status t)"
    by (auto simp: in_bt_values_iff)
  then show ?thesis
    using live_transfers_row [OF c t(1,3)] custody_located [OF c t(1,3)] by simp
next
  case False
  then have "live_transfers b a = []" by (auto simp: live_transfers_def filter_empty_conv)
  moreover have "\<not> status_is_live s" if "bt_get (asset_locations b) a = Some s" for s
  proof
    assume "status_is_live s"
    from custody_owned [OF c that this]
    obtain i t where "bt_get (transfers b) i = Some t" "xfer_asset_id t = a" "xfer_status t = s" by blast
    moreover from this have "t \<in> set (bt_values (transfers b))" by (auto simp: in_bt_values_iff)
    ultimately show False using False \<open>status_is_live s\<close> by blast
  qed
  ultimately show ?thesis by (auto split: option.splits)
qed

text \<open>
  C1: Whatever operations ran, in whatever order and whether they were accepted or refused, an asset
  that is away from home (locked, minted or burned) is backed by exactly one live transfer,
  whose status is the location the bridge records for the asset; an asset at home and an
  unregistered one are backed by none.
\<close>

theorem single_custody:
  assumes "bridge_sound H (bridge_run H ops)"
  shows "map xfer_status (live_transfers (fst (bridge_run H ops)) a) =
    (case bt_get (asset_locations (fst (bridge_run H ops))) a of
       None \<Rightarrow> [] | Some s \<Rightarrow> if status_is_live s then [s] else [])"
  by (rule live_transfers_custody [OF bridge_inv_custody [OF bridge_run_inv [OF assms]]])

theorem single_custody_witness:
  "map xfer_status (live_transfers (fst (bridge_run (\<lambda>bs. bs) example_history)) [1]) = [Locked 1]"
  using single_custody [OF example_sound, of "[1]"] by (simp add: example_history_def bridge_eval)

subsection \<open>No message is minted twice\<close>

lemma bridge_run_snoc: "bridge_run H (ops @ [op]) = bridge_exec H op (bridge_run H ops)"
  by (simp add: bridge_run_def)

lemma bridge_run_append: "bridge_run H (ops @ ops') = fold (bridge_exec H) ops' (bridge_run H ops)"
  by (simp add: bridge_run_def)

lemma seen_fold: "set (snd w) \<subseteq> set (snd (fold (bridge_exec H) ops w))"
proof (induction ops arbitrary: w)
  case (Cons op ops)
  have "set (snd w) \<subseteq> set (snd (bridge_exec H op w))" by (simp add: bridge_exec_def)
  then show ?case using Cons.IH [of "bridge_exec H op w"] by simp
qed simp

lemma processed_mono:
  assumes "is_processed (replay b) s t a n"
  shows "is_processed (replay (bridge_apply H op b)) s t a n"
proof (cases op)
  case (Lock so ta h k as ow re v x)
  then show ?thesis
    using assms by (cases rule: bridge_lock_cases [of H so ta h k as ow re v x b]) simp_all
next
  case (Mint m h)
  show ?thesis
  proof (cases rule: bridge_mint_cases [of H m h b])
    case (minted u r)
    have "replay_spent (snd (replay_spend (msg_source_domain m, msg_target_domain m, msg_sender m) (msg_nonce m) h (replay b))) (s, t, a) n"
      by (rule rg.spent_mono) (use assms in \<open>simp add: replay_spent_def\<close>)
    then show ?thesis using Mint minted(6,8) by (simp add: replay_spend_def replay_spent_def)
  qed (use Mint assms in simp)
next
  case (Burn i d h k x)
  then show ?thesis
    using assms by (cases rule: burn_with_event_cases [of H i d h k x b]) simp_all
next
  case (Unlock i d h)
  then show ?thesis using assms by (cases rule: bridge_unlock_cases [of i d h b]) simp_all
qed (use assms in \<open>simp_all add: bridge_register_asset_def sweep_replay\<close>)

lemma processed_fold:
  "is_processed (replay (fst w)) s t a n \<Longrightarrow> is_processed (replay (fst (fold (bridge_exec H) ops w))) s t a n"
proof (induction ops arbitrary: w)
  case (Cons op ops)
  then show ?case using processed_mono [of "fst w" s t a n H op] by (simp add: bridge_exec_def)
qed simp

text \<open>
  C2: Once a mint is accepted, no later mint of a message with the same identifier is accepted,
  however many operations lie between the two, even after the row of the transfer was dropped.
\<close>

theorem no_double_mint:
  assumes first: "fst (bridge_mint H m h (fst (bridge_run H ops))) = Inr ()"
    and same: "msg_id m' = msg_id m"
    and nc: "no_collision H (message_fields ` insert m' (set (snd (bridge_run H (ops @ [Mint m h] @ ops')))))"
  shows "\<exists>e. bridge_mint H m' h' (fst (bridge_run H (ops @ [Mint m h] @ ops')))
    = (Inl e, fst (bridge_run H (ops @ [Mint m h] @ ops')))"
proof -
  let ?w = "bridge_run H (ops @ [Mint m h])" and ?v = "bridge_run H (ops @ [Mint m h] @ ops')"
  have v: "?v = fold (bridge_exec H) ops' ?w" by (simp add: bridge_run_def)
  have ok: "verify_id H m" "is_processed (replay (fst ?w)) (msg_source_domain m) (msg_target_domain m) (msg_sender m) (msg_nonce m)"
    using first mark_processed_at_fresh [of "replay (fst (bridge_run H ops))" "msg_source_domain m" "msg_target_domain m" "msg_sender m" "msg_nonce m" h]
    by (cases rule: bridge_mint_cases [of H m h "fst (bridge_run H ops)"];
        auto simp: bridge_run_snoc bridge_exec_def)+
  have "m \<in> set (snd ?w)" using first by (simp add: bridge_run_snoc bridge_exec_def)
  then have m: "m \<in> set (snd ?v)" using seen_fold [of ?w H ops'] v by auto
  have gone: "is_processed (replay (fst ?v)) (msg_source_domain m) (msg_target_domain m) (msg_sender m) (msg_nonce m)"
    unfolding v by (rule processed_fold [OF ok(2)])
  show ?thesis
  proof (cases rule: bridge_mint_cases [of H m' h' "fst ?v"])
    case (minted t r)
    have "message_content m' = message_content m"
      by (rule seen_same_id [OF nc]) (use m minted(1) ok(1) same in simp_all)
    note eq = message_content_eqD [OF this]
    show ?thesis using minted(5) gone by (simp add: eq)
  qed blast
qed

theorem no_double_mint_witness:
  "\<exists>e. bridge_mint (\<lambda>bs. bs) (example_message (\<lambda>bs. bs)) 60
      (fst (bridge_run (\<lambda>bs. bs) (example_history @ [Mint (example_message (\<lambda>bs. bs)) 50] @ [Sweep 55])))
    = (Inl e, fst (bridge_run (\<lambda>bs. bs) (example_history @ [Mint (example_message (\<lambda>bs. bs)) 50] @ [Sweep 55])))"
proof (rule no_double_mint)
  let ?H = "\<lambda>bs. bs" and ?m = "example_message (\<lambda>bs. bs)"
  show ok: "fst (bridge_mint ?H ?m 50 (fst (bridge_run ?H example_history))) = Inr ()"
    by (rule example_mint_ok)
  have "fields_fit (message_fields ?m)"
    using example_sound by (simp add: bridge_sound_def example_seen no_collision_def)
  then show "no_collision ?H (message_fields ` insert ?m (set (snd (bridge_run ?H (example_history @ [Mint ?m 50] @ [Sweep 55])))))"
    using ok by (simp add: bridge_run_append bridge_exec_def example_seen no_collision_def)
qed simp



subsection \<open>The sweep\<close>

lemma retention_cutoff_less: "0 < h \<Longrightarrow> retention_cutoff h < h"
  by (simp add: retention_cutoff_def word_less_nat_alt unat_sat_sub SETTLED_RETENTION_BLOCKS_def FINALITY_PRUNE_DEPTH_def)

lemma expired_positive: "lock_expired h t \<Longrightarrow> 0 < h"
  by (auto simp: lock_expired_def)

lemma lock_expired_expire_row [simp]: "\<not> lock_expired h (expire_row t)"
  by (simp add: lock_expired_def)

lemma sweep_row_cases:
  assumes q: "bridge_queues_ok b" and sw: "sweep_expired_locks h b = (released, b')"
    and t: "bt_get (transfers b) i = Some t"
  shows "if lock_expired h t then bt_get (transfers b') i = Some (expire_row t)
    else bt_get (transfers b') i = Some t \<or> (bt_get (transfers b') i = None \<and> \<not> status_is_live (xfer_status t))"
proof -
  obtain S where T: "\<And>i. bt_get (transfers b') i = drop_if (\<exists>k \<le> retention_cutoff h. S k i)
       (map_option (\<lambda>t. if lock_expired h t then expire_row t else t) (bt_get (transfers b) i))"
    and S: "\<And>k i t. bt_get (transfers b) i = Some t \<Longrightarrow> S k i \<longleftrightarrow> queued (settled_queue b) k i \<or> (k = h \<and> lock_expired h t)"
    by (rule sweep_rows [OF q sw]) (rule that)
  show ?thesis
  proof (cases "lock_expired h t")
    case True
    then have "status_is_live (xfer_status t)" by (simp add: lock_expired_def)
    then have "\<not> queued (settled_queue b) k i" for k using queued_settled_terminal [OF q t] by blast
    then have "\<not> (\<exists>k \<le> retention_cutoff h. S k i)"
      using S [OF t] retention_cutoff_less [OF expired_positive [OF True]] by auto
    then show ?thesis using True t by (auto simp: T drop_if_def)
  next
    case False
    then show ?thesis using t by (auto simp: T drop_if_def terminal_iff_not_live)
  qed
qed

lemma sweep_only_old_rows:
  assumes q: "bridge_queues_ok b" and sw: "sweep_expired_locks h b = (released, b')"
    and u: "bt_get (transfers b') i = Some u"
  shows "\<exists>t. bt_get (transfers b) i = Some t \<and> u = (if lock_expired h t then expire_row t else t)"
proof (cases "bt_get (transfers b) i")
  case None
  obtain S where T: "\<And>i. bt_get (transfers b') i = drop_if (\<exists>k \<le> retention_cutoff h. S k i)
       (map_option (\<lambda>t. if lock_expired h t then expire_row t else t) (bt_get (transfers b) i))"
    by (rule sweep_rows [OF q sw]) (rule that)
  show ?thesis using u None by (simp add: T drop_if_def)
next
  case (Some t)
  then show ?thesis using sweep_row_cases [OF q sw Some] u by (auto split: if_splits)
qed

lemma sweep_releases_asset:
  assumes c: "bridge_custody b" and q: "bridge_queues_ok b" and sw: "sweep_expired_locks h b = (released, b')"
    and t: "bt_get (transfers b) i = Some t" "xfer_status t = Locked d" "lock_expired h t"
  shows "bt_get (asset_locations b') (xfer_asset_id t) = Some (Active d)"
proof -
  have C': "bridge_custody b'"
    by (rule sweep_rows [OF q sw]) (use c in blast)
  have A: "bt_get (asset_locations b') a = bt_get (asset_locations b) a \<or>
      (\<exists>i t d. bt_get (transfers b) i = Some t \<and> xfer_status t = Locked d \<and> xfer_asset_id t = a \<and>
         bt_get (asset_locations b') a = Some (Active d))" for a
    by (rule sweep_rows [OF q sw]) blast
  have same: "j = i" if "bt_get (transfers b) j = Some u" "status_is_live (xfer_status u)" "xfer_asset_id u = xfer_asset_id t" for j u
    using custody_unique [OF c that(1) t(1) that(2) _ that(3)] t(2) by simp
  have "bt_get (asset_locations b') (xfer_asset_id t) \<noteq> Some (Locked d)"
  proof
    assume "bt_get (asset_locations b') (xfer_asset_id t) = Some (Locked d)"
    from custody_owned [OF C' this]
    obtain j u where u: "bt_get (transfers b') j = Some u" "xfer_asset_id u = xfer_asset_id t" "xfer_status u = Locked d" by auto
    obtain u0 where u0: "bt_get (transfers b) j = Some u0" "u = (if lock_expired h u0 then expire_row u0 else u0)"
      using sweep_only_old_rows [OF q sw u(1)] by blast
    have nex: "\<not> lock_expired h u0"
    proof
      assume "lock_expired h u0"
      then have "\<not> status_is_locked (xfer_status u)" by (simp add: u0(2))
      then show False using u(3) by simp
    qed
    then have "u0 = u" using u0(2) by simp
    then have "j = i" using same [of j u] u u0(1) by simp
    then show False using u0(1) t(1,3) nex by simp
  qed
  moreover have "bt_get (asset_locations b) (xfer_asset_id t) = Some (Locked d)"
    using custody_located [OF c t(1)] t(2) by simp
  moreover have "e = d" if "bt_get (transfers b) j = Some u" "xfer_status u = Locked e" "xfer_asset_id u = xfer_asset_id t" for j u e
    using same [of j u] that t(1,2) by simp
  ultimately show ?thesis using A [of "xfer_asset_id t"] by metis
qed

text \<open>
  C10: After a sweep at height \<open>h\<close> no lock that expires at or below \<open>h\<close> is left: each such
  transfer is back at its source domain, still on record, and so is its asset. A transfer that is locked
  with a later expiry or none, minted or burned is not touched, and neither is its asset.
\<close>

theorem sweep_releases_expired_locks:
  assumes "bridge_sound H (bridge_run H ops)"
    and "get_transfer (fst (bridge_run H ops)) i = Some t" "status_is_live (xfer_status t)"
  shows "let b = fst (bridge_run H ops); b' = snd (sweep_expired_locks h b) in
    if lock_expired h t
    then get_transfer b' i = Some (t\<lparr> xfer_status := Active (xfer_source_domain t) \<rparr>) \<and>
      bt_get (asset_locations b') (xfer_asset_id t) = Some (Active (xfer_source_domain t))
    else get_transfer b' i = Some t \<and>
      bt_get (asset_locations b') (xfer_asset_id t) = bt_get (asset_locations b) (xfer_asset_id t)"
proof -
  let ?b = "fst (bridge_run H ops)"
  note inv = bridge_run_inv [OF assms(1)]
  note c = bridge_inv_custody [OF inv] and q = bridge_inv_queues [OF inv]
  obtain r b' where sw: "sweep_expired_locks h ?b = (r, b')" by (cases "sweep_expired_locks h ?b")
  have t: "bt_get (transfers ?b) i = Some t" using assms(2) by (simp add: get_transfer_def)
  have home: "homed t" using bridge_inv_traced [OF inv] t by (auto simp: rows_traced_def)
  show ?thesis
  proof (cases "lock_expired h t")
    case True
    then have st: "xfer_status t = Locked (xfer_source_domain t)"
      using home by (auto simp: lock_expired_def homed_def)
    then have "expire_row t = t\<lparr> xfer_status := Active (xfer_source_domain t) \<rparr>" by (simp add: expire_row_def)
    then show ?thesis
      using True sweep_row_cases [OF q sw t] sweep_releases_asset [OF c q sw t st True]
      by (simp add: sw get_transfer_def Let_def)
  next
    case False
    then have row: "bt_get (transfers b') i = Some t" using sweep_row_cases [OF q sw t] assms(3) by simp
    have C': "bridge_custody b'" by (rule sweep_rows [OF q sw]) (use c in blast)
    show ?thesis
      using False row custody_located [OF C' row assms(3)] custody_located [OF c t assms(3)]
      by (simp add: sw get_transfer_def Let_def)
  qed
qed

theorem sweep_releases_expired_locks_witness:
  "let b = fst (bridge_run (\<lambda>bs. bs) example_history); b' = snd (sweep_expired_locks 100 b) in
   bt_get (asset_locations b) [1] = Some (Locked 1) \<and> bt_get (asset_locations b') [1] = Some (Active 1)"
proof -
  let ?H = "\<lambda>bs. bs" and ?i = "msg_id (example_message (\<lambda>bs. bs))"
  obtain t where t: "get_transfer (fst (bridge_run ?H example_history)) ?i = Some t" "xfer_asset_id t = [1]"
    "xfer_status t = Locked 1" "xfer_source_domain t = 1" "xfer_expiry_height t = 100"
    by (simp add: get_transfer_def example_history_def example_message_def bridge_eval)
  have "bt_get (asset_locations (fst (bridge_run ?H example_history))) [1] = Some (Locked 1)"
    by (simp add: example_history_def bridge_eval)
  then show ?thesis
    using sweep_releases_expired_locks [OF example_sound t(1), of 100] t by (simp add: lock_expired_def Let_def)
qed

lemma count_mset_sum: "count (mset xs) p = sum_list (map (\<lambda>x. if x = p then 1 else 0) xs)"
  by (induction xs) auto

definition refund_units :: "address \<times> Bud \<Rightarrow> nat" where
  "refund_units p = unat (bud_get (snd p))"

definition refund_of :: "bridge_transfer \<Rightarrow> address \<times> Bud" where
  "refund_of t = (xfer_owner t, xfer_amount t)"

lemma filtered_weight:
  "sum_list (map g (map refund_of (filter P (bt_values (transfers b))))) =
   (\<Sum>k \<in> dom (bt_get (transfers b)). let t = the (bt_get (transfers b) k) in if P t then g (refund_of t) else 0)"
  for g :: "address \<times> Bud \<Rightarrow> nat"
proof -
  have "sum_list (map g (map refund_of (filter P (map snd es)))) = sum_list (map (\<lambda>(k, t). if P t then g (refund_of t) else 0) es)"
    for es :: "(message_id \<times> bridge_transfer) list"
    by (induction es) auto
  then show ?thesis
    using bt.sum_entries [of "\<lambda>k t. if P t then g (refund_of t) else 0" "transfers b"] by (simp add: bt_values_def Let_def)
qed

lemma sweep_weight:
  assumes q: "bridge_queues_ok b" and sw: "sweep_expired_locks h b = (released, b')"
  shows "locked_weight g b = locked_weight g b' + sum_list (map g (map refund_of (filter (lock_expired h) (bt_values (transfers b)))))"
proof -
  let ?T = "bt_get (transfers b)" and ?T' = "bt_get (transfers b')"
  let ?left = "\<lambda>t. if status_is_locked (xfer_status t) \<and> \<not> lock_expired h t then g (refund_of t) else 0"
  have old: "\<exists>t. ?T k = Some t" if k: "k \<in> dom ?T'" for k
  proof -
    from k obtain u where "?T' k = Some u" by auto
    then show ?thesis using sweep_only_old_rows [OF q sw] by blast
  qed
  have "(\<Sum>k \<in> dom ?T'. row_weight g (the (?T' k))) = (\<Sum>k \<in> dom ?T. ?left (the (?T k)))"
  proof (rule sum.mono_neutral_cong_left)
    show "finite (dom ?T)" by (rule bt.finite_dom_get)
    show "dom ?T' \<subseteq> dom ?T" using old by blast
    show "\<forall>k \<in> dom ?T - dom ?T'. ?left (the (?T k)) = 0"
    proof
      fix k assume "k \<in> dom ?T - dom ?T'"
      then obtain t where t: "?T k = Some t" and none: "?T' k = None" by auto
      from sweep_row_cases [OF q sw t] none
      have "lock_expired h t \<or> \<not> status_is_locked (xfer_status t)" by (auto split: if_splits)
      then show "?left (the (?T k)) = 0" using t by auto
    qed
    show "row_weight g (the (?T' k)) = ?left (the (?T k))" if k: "k \<in> dom ?T'" for k
    proof -
      from k obtain u where u: "?T' k = Some u" by auto
      from sweep_only_old_rows [OF q sw u]
      obtain t where t: "?T k = Some t" "u = (if lock_expired h t then expire_row t else t)" by blast
      show ?thesis
        by (cases "lock_expired h t") (simp_all add: u t row_weight_def refund_of_def)
    qed
  qed
  moreover have "(\<Sum>k \<in> dom ?T. row_weight g (the (?T k))) =
      (\<Sum>k \<in> dom ?T. ?left (the (?T k))) + (\<Sum>k \<in> dom ?T. let t = the (?T k) in if lock_expired h t then g (refund_of t) else 0)"
    unfolding sum.distrib [symmetric]
    by (rule sum.cong) (auto simp: row_weight_def refund_of_def lock_expired_def Let_def)
  ultimately show ?thesis
    unfolding filtered_weight locked_weight_def
    using bt.sum_entries [of "\<lambda>_. row_weight g" "transfers b"] bt.sum_entries [of "\<lambda>_. row_weight g" "transfers b'"] by simp
qed

text \<open>
  The refunds a sweep returns are exactly the owners and amounts of the locks that expired,
  one entry for each: no lock is refunded twice, none is forgotten and no other is refunded.
\<close>

theorem sweep_refunds_expired_locks:
  assumes "bridge_sound H (bridge_run H ops)"
  shows "mset (fst (sweep_expired_locks h (fst (bridge_run H ops)))) =
    mset (map (\<lambda>t. (xfer_owner t, xfer_amount t))
      (filter (lock_expired h) (bt_values (transfers (fst (bridge_run H ops))))))"
proof (rule multiset_eqI)
  let ?b = "fst (bridge_run H ops)"
  obtain r b' where sw: "sweep_expired_locks h ?b = (r, b')" by (cases "sweep_expired_locks h ?b")
  note q = bridge_inv_queues [OF bridge_run_inv [OF assms]]
  have W: "locked_weight g ?b = locked_weight g b' + sum_list (map g r)" for g
    by (rule sweep_rows [OF q sw]) blast
  have r: "(\<lambda>t. (xfer_owner t, xfer_amount t)) = refund_of" by (simp add: refund_of_def fun_eq_iff)
  fix p
  show "count (mset (fst (sweep_expired_locks h ?b))) p =
    count (mset (map (\<lambda>t. (xfer_owner t, xfer_amount t)) (filter (lock_expired h) (bt_values (transfers ?b))))) p"
    unfolding count_mset_sum r
    using W [of "\<lambda>x. if x = p then 1 else 0"] sweep_weight [OF q sw, of "\<lambda>x. if x = p then 1 else 0"] by (simp add: sw)
qed

theorem sweep_refunds_expired_locks_witness:
  "fst (sweep_expired_locks 100 (fst (bridge_run (\<lambda>bs. bs) example_history))) = [([7], Bud 500)]"
proof -
  have "bt_values (transfers (fst (bridge_run (\<lambda>bs. bs) example_history))) \<noteq> []"
    "map (\<lambda>t. (xfer_owner t, xfer_amount t)) (filter (lock_expired 100)
       (bt_values (transfers (fst (bridge_run (\<lambda>bs. bs) example_history))))) = [([7], Bud 500)]"
    by (simp_all add: example_history_def bridge_eval bt_values_def lock_expired_def)
  then show ?thesis
    using sweep_refunds_expired_locks [OF example_sound, of 100] by simp
qed

subsection \<open>Transfers only move forward\<close>

lemma status_le_refl [simp]: "status_le s s"
  by (cases s) simp_all

lemma status_le_trans: "status_le s s' \<Longrightarrow> status_le s' s'' \<Longrightarrow> status_le s s''"
  by (cases s; cases s'; cases s'') simp_all

lemma row_le_refl [simp]: "row_le t t"
  by (simp add: row_le_def)

lemma row_le_trans: "row_le t u \<Longrightarrow> row_le u v \<Longrightarrow> row_le t v"
  unfolding row_le_def
  by (metis (no_types, lifting) bridge_transfer.update_convs(8) bridge_transfer.surjective status_le_trans)

lemma row_le_expire_row: "row_le t (expire_row t)"
  by (cases "xfer_status t") (auto simp: expire_row_def row_le_def)

lemma row_step:
  assumes i: "bridge_inv H (b, seen)" and s: "bridge_sound H (bridge_exec H op (b, seen))"
    and t: "bt_get (transfers b) j = Some t"
  shows "case bt_get (transfers (bridge_apply H op b)) j of None \<Rightarrow> \<not> status_is_live (xfer_status t) | Some u \<Rightarrow> row_le t u"
proof (cases op)
  case (RegisterAsset a d)
  then show ?thesis using t by (simp add: bridge_register_asset_def)
next
  case (Lock so ta h n a ow re v x)
  show ?thesis
  proof (cases rule: bridge_lock_cases [of H so ta h n a ow re v x b])
    case (locked u ev m)
    have "msg_id m \<notin> msg_id ` set seen"
      by (rule lock_id_unseen [OF i s [unfolded Lock] locked(2,16,3,4,5,9-11)])
    then have "j \<noteq> msg_id m" using row_id_seen [OF i t] by blast
    then show ?thesis using t by (simp add: Lock locked(2))
  qed (use t Lock in simp)
next
  case (Mint m h)
  then show ?thesis
    using t by (cases rule: bridge_mint_cases [of H m h b]) (auto simp: row_le_def)
next
  case (Burn i d h n x)
  then show ?thesis
    using t by (cases rule: burn_with_event_cases [of H i d h n x b]) (auto simp: row_le_def)
next
  case (Unlock i d h)
  then show ?thesis
    using t by (cases rule: bridge_unlock_cases [of i d h b]) (auto simp: row_le_def)
next
  case (Sweep h)
  obtain r b' where sw: "sweep_expired_locks h b = (r, b')" by (cases "sweep_expired_locks h b")
  have q: "bridge_queues_ok b" using bridge_inv_queues [OF i] by simp
  show ?thesis
    using sweep_row_cases [OF q sw t] by (auto simp: Sweep sw row_le_expire_row split: if_splits)
qed

text \<open>A dropped transfer never comes back: its identifier is not issued again.\<close>

lemma row_gone_step:
  assumes i: "bridge_inv H (b, seen)" and s: "bridge_sound H (bridge_exec H op (b, seen))"
    and gone: "bt_get (transfers b) j = None" "j \<in> msg_id ` set seen"
  shows "bt_get (transfers (bridge_apply H op b)) j = None"
proof (cases op)
  case (RegisterAsset a d)
  then show ?thesis using gone by (simp add: bridge_register_asset_def)
next
  case (Lock so ta h n a ow re v x)
  show ?thesis
  proof (cases rule: bridge_lock_cases [of H so ta h n a ow re v x b])
    case (locked u ev m)
    have "msg_id m \<notin> msg_id ` set seen"
      by (rule lock_id_unseen [OF i s [unfolded Lock] locked(2,16,3,4,5,9-11)])
    then have "j \<noteq> msg_id m" using gone(2) by blast
    then show ?thesis using gone(1) by (simp add: Lock locked(2))
  qed (use gone Lock in simp)
next
  case (Mint m h)
  then show ?thesis
    using gone by (cases rule: bridge_mint_cases [of H m h b]) auto
next
  case (Burn i d h n x)
  then show ?thesis
    using gone by (cases rule: burn_with_event_cases [of H i d h n x b]) auto
next
  case (Unlock i d h)
  then show ?thesis
    using gone by (cases rule: bridge_unlock_cases [of i d h b]) auto
next
  case (Sweep h)
  obtain r b' where sw: "sweep_expired_locks h b = (r, b')" by (cases "sweep_expired_locks h b")
  have q: "bridge_queues_ok b" using bridge_inv_queues [OF i] by simp
  show ?thesis
    using sweep_only_old_rows [OF q sw, of j] gone(1)
    by (cases "bt_get (transfers b') j") (auto simp: Sweep sw)
qed

lemma row_fold:
  assumes "bridge_inv H w" "bridge_sound H (fold (bridge_exec H) ops w)"
    "case bt_get (transfers (fst w)) j of None \<Rightarrow> j \<in> msg_id ` set (snd w) | Some u \<Rightarrow> row_le t u"
  shows "case bt_get (transfers (fst (fold (bridge_exec H) ops w))) j of None \<Rightarrow> True | Some u \<Rightarrow> row_le t u"
  using assms
proof (induction ops arbitrary: w)
  case Nil
  then show ?case by (simp split: option.splits)
next
  case (Cons op ops)
  obtain b seen where w: "w = (b, seen)" by (cases w)
  have i: "bridge_inv H (b, seen)" using Cons.prems(1) w by simp
  have s: "bridge_sound H (bridge_exec H op (b, seen))"
    using Cons.prems(2) bridge_sound_fold [of H ops "bridge_exec H op w"] w by simp
  let ?T' = "bt_get (transfers (bridge_apply H op b))"
  have "case ?T' j of None \<Rightarrow> j \<in> msg_id ` set (snd (bridge_exec H op (b, seen))) | Some u \<Rightarrow> row_le t u"
  proof (cases "bt_get (transfers b) j")
    case None
    then show ?thesis using row_gone_step [OF i s, of j] Cons.prems(3) w by (auto simp: bridge_exec_def)
  next
    case (Some u)
    then show ?thesis
      using row_step [OF i s Some] row_id_seen [OF i Some] Cons.prems(3) w row_le_trans
      by (auto simp: bridge_exec_def split: option.splits)
  qed
  then have "case bt_get (transfers (fst (bridge_exec H op w))) j of
      None \<Rightarrow> j \<in> msg_id ` set (snd (bridge_exec H op w)) | Some u \<Rightarrow> row_le t u"
    unfolding w bridge_exec_def fst_conv snd_conv .
  then show ?case
    using Cons.IH [of "bridge_exec H op w"] Cons.prems(2) bridge_inv_exec [OF i s] w by simp
qed

text \<open>
  From the lock on, a transfer's identifier, asset, domains, parties, amount, event hash and
  expiry never change, and its status only moves forward: locked, minted, burned, unlocked, or
  from locked to refunded. A row that has been dropped does not come back under another meaning.
\<close>

theorem transfers_only_move_forward:
  assumes "bridge_sound H (bridge_run H (ops @ ops'))"
    and "get_transfer (fst (bridge_run H ops)) i = Some t"
    and "get_transfer (fst (bridge_run H (ops @ ops'))) i = Some u"
  shows "u = t\<lparr> xfer_status := xfer_status u \<rparr> \<and> status_le (xfer_status t) (xfer_status u)"
proof -
  let ?w = "bridge_run H ops"
  have run: "bridge_run H (ops @ ops') = fold (bridge_exec H) ops' ?w" by (rule bridge_run_append)
  have "bridge_inv H ?w"
    using bridge_run_inv bridge_sound_fold assms(1) unfolding run by blast
  from row_fold [OF this, of ops' i t] assms
  show ?thesis by (simp add: run get_transfer_def row_le_def)
qed

theorem transfers_only_move_forward_witness:
  "let b = fst (bridge_run (\<lambda>bs. bs) example_history);
       b' = fst (bridge_run (\<lambda>bs. bs) (example_history @ [Sweep 100]));
       i = msg_id (example_message (\<lambda>bs. bs)) in
   \<exists>t u. get_transfer b i = Some t \<and> get_transfer b' i = Some u \<and> xfer_amount u = xfer_amount t"
proof -
  let ?H = "\<lambda>bs. bs" and ?i = "msg_id (example_message (\<lambda>bs. bs))"
  have s: "bridge_sound ?H (bridge_run ?H (example_history @ [Sweep 100]))"
    using example_sound by (simp add: bridge_run_snoc bridge_exec_def bridge_sound_def sweep_replay)
  obtain t where t: "get_transfer (fst (bridge_run ?H example_history)) ?i = Some t" "status_is_live (xfer_status t)"
    by (simp add: get_transfer_def example_history_def example_message_def bridge_eval)
  obtain u where u: "get_transfer (fst (bridge_run ?H (example_history @ [Sweep 100]))) ?i = Some u"
    using sweep_row_cases [OF bridge_inv_queues [OF bridge_run_inv [OF example_sound]], of 100 _ _ ?i t] t
    by (cases "sweep_expired_locks 100 (fst (bridge_run ?H example_history))")
      (auto simp: bridge_run_snoc bridge_exec_def get_transfer_def split: if_splits)
  have eq: "u = t\<lparr> xfer_status := xfer_status u \<rparr>"
    using transfers_only_move_forward [OF s t(1) u] by blast
  have "xfer_amount u = xfer_amount t"
    by (subst eq) simp
  then show ?thesis using t(1) u by (auto simp: Let_def)
qed

subsection \<open>Transfers can be completed\<close>

text \<open>
  C9: A transfer minted anywhere in a reachable state can be wound down: a burn in its target domain
  and an unlock relayed from there are both accepted, the transfer ends unlocked and the
  asset is active again in the domain it was locked in.
\<close>

theorem minted_transfer_can_be_wound_down:
  assumes "bridge_sound H (bridge_run H ops)"
    and "get_transfer (fst (bridge_run H ops)) i = Some t" "xfer_status t = Minted d"
  shows "\<exists>ev b1 b2. burn_with_event H i (xfer_target_domain t) h n x (fst (bridge_run H ops)) = (Inr ev, b1) \<and>
    bridge_unlock i (xfer_target_domain t) h' b1 = (Inr (), b2) \<and>
    get_transfer b2 i = Some (t\<lparr> xfer_status := Unlocked (xfer_source_domain t) \<rparr>) \<and>
    bt_get (asset_locations b2) (xfer_asset_id t) = Some (Active (xfer_source_domain t))"
proof -
  let ?b = "fst (bridge_run H ops)" and ?d = "xfer_target_domain t"
  have t: "bt_get (transfers ?b) i = Some t" using assms(2) by (simp add: get_transfer_def)
  have "homed t" using bridge_inv_traced [OF bridge_run_inv [OF assms(1)]] t by (auto simp: rows_traced_def)
  then have st: "xfer_status t = Minted ?d" using assms(3) by (auto simp: homed_def)
  show ?thesis
  proof (cases rule: burn_with_event_cases [of H i ?d h n x ?b])
    case (burned u ev)
    then have u: "u = t" using t by simp
    let ?b1 = "snd (burn_with_event H i ?d h n x ?b)"
    have row: "bt_get (transfers ?b1) i = Some (t\<lparr> xfer_status := Burned ?d \<rparr>)" by (simp add: burned(3) u)
    show ?thesis
      by (cases rule: bridge_unlock_cases [of i ?d h' ?b1])
        (use row burned(3) u in \<open>auto simp: get_transfer_def\<close>)
  qed (use t st in auto)
qed

theorem minted_transfer_can_be_wound_down_witness:
  "let b = fst (bridge_run (\<lambda>bs. bs) (example_history @ [Mint (example_message (\<lambda>bs. bs)) 50]));
       i = msg_id (example_message (\<lambda>bs. bs)) in
   \<exists>ev b1 b2. burn_with_event (\<lambda>bs. bs) i 2 60 0 0 b = (Inr ev, b1) \<and> bridge_unlock i 2 70 b1 = (Inr (), b2) \<and>
     bt_get (asset_locations b2) [1] = Some (Active 1)"
proof -
  let ?H = "\<lambda>bs. bs" and ?i = "msg_id (example_message (\<lambda>bs. bs))"
  obtain t where "get_transfer (fst (bridge_run ?H (example_history @ [Mint (example_message ?H) 50]))) ?i = Some t"
    "xfer_status t = Minted 2" "xfer_target_domain t = 2" "xfer_source_domain t = 1" "xfer_asset_id t = [1]"
    by (simp add: get_transfer_def example_history_def example_message_def bridge_eval is_processed_def mark_processed_at_def)
  then show ?thesis
    using minted_transfer_can_be_wound_down [OF example_minted_sound, of ?i t 2 60 0 0 70] by (auto simp: Let_def)
qed

text \<open>Every nonce that was processed had been issued in its direction.\<close>

lemma processed_below_outbound:
  "bridge_sound H (bridge_run H ops) \<Longrightarrow>
   is_processed (replay (fst (bridge_run H ops))) s t a n \<Longrightarrow> n < outbound_nonce (replay (fst (bridge_run H ops))) (s, t, a)"
proof (induction ops rule: rev_induct)
  case Nil
  then show ?case by (simp add: bridge_run_def bridge_new_def replay_new_def is_processed_def)
next
  case (snoc op ops)
  let ?w = "bridge_run H ops"
  have run: "bridge_run H (ops @ [op]) = bridge_exec H op ?w" by (rule bridge_run_snoc)
  have sound: "bridge_sound H ?w" using snoc.prems(1) bridge_sound_back unfolding run by blast
  have old: "is_processed (replay (fst ?w)) s t a n \<Longrightarrow> ?case"
    using snoc.IH [OF sound] outbound_apply_mono [of "fst ?w" "(s, t, a)" H op] by (simp add: run bridge_exec_def)
  have issued: "seen_issued H (fst (bridge_exec H op ?w)) (snd (bridge_exec H op ?w))"
    using bridge_inv_issued [OF bridge_run_inv [OF snoc.prems(1)]] by (simp add: run)
  show ?case
  proof (cases "\<exists>m h. op = Mint m h \<and> fst (bridge_mint H m h (fst ?w)) = Inr ()")
    case True
    then obtain m h where m: "op = Mint m h" "fst (bridge_mint H m h (fst ?w)) = Inr ()" by auto
    then have mn: "msg_nonce m < outbound_nonce (replay (fst (bridge_exec H op ?w))) (msg_direction m)"
      using issued by (simp add: seen_issued_def bridge_exec_def)
    show ?thesis
    proof (cases rule: bridge_mint_cases [of H m h "fst ?w"])
      case (minted u r)
      have "is_processed r s t a n \<longleftrightarrow> is_processed (replay (fst ?w)) s t a n \<or> (s, t, a) = msg_direction m \<and> n \<le> msg_nonce m"
        using mark_processed_at_fresh [OF minted(5), of h] minted(6) by (auto simp: msg_direction_def)
      moreover have "replay (fst (bridge_run H (ops @ [op]))) = r"
        unfolding run by (simp add: bridge_exec_def m(1) minted(8))
      ultimately show ?thesis
        using snoc.prems(2) old mn by (auto simp: run)
    qed (use m in simp)
  next
    case False
    have "is_processed (replay (bridge_apply H op (fst ?w))) s t a n = is_processed (replay (fst ?w)) s t a n"
    proof (cases op)
      case (Lock so ta h k as ow re v x)
      then show ?thesis by (cases rule: bridge_lock_cases [of H so ta h k as ow re v x "fst ?w"]) simp_all
    next
      case (Mint m h)
      then show ?thesis using False by (cases rule: bridge_mint_cases [of H m h "fst ?w"]) simp_all
    next
      case (Burn i d h k x)
      then show ?thesis by (cases rule: burn_with_event_cases [of H i d h k x "fst ?w"]) simp_all
    next
      case (Unlock i d h)
      then show ?thesis by (cases rule: bridge_unlock_cases [of i d h "fst ?w"]) simp_all
    qed (simp_all add: bridge_register_asset_def sweep_replay)
    then show ?thesis using old snoc.prems(2) by (simp add: run bridge_exec_def)
  qed
qed

text \<open>
  C7: The round trip completes: in any reachable state an asset that is active in a domain can be locked
  there, the lock's own message mints it in the target domain, a burn there and an unlock
  follow, every step is accepted, all asset locations are what they were before the lock and
  no transfer but the new one has changed.
\<close>

theorem bridge_round_trip:
  assumes "bridge_sound H (bridge_run H ops)"
    and "bt_get (asset_locations (fst (bridge_run H ops))) a = Some (Active s)"
  shows "\<exists>t ev m b1 b2 ev' b3 b4.
    bridge_lock H s d h n a ow re v x (fst (bridge_run H ops)) = (Inr (t, ev), b1) \<and> ev_message ev = Some m \<and>
    bridge_mint H m h1 b1 = (Inr (), b2) \<and>
    burn_with_event H (msg_id m) d h2 n2 x2 b2 = (Inr ev', b3) \<and>
    bridge_unlock (msg_id m) d h3 b3 = (Inr (), b4) \<and>
    asset_locations b4 = asset_locations (fst (bridge_run H ops)) \<and>
    (\<forall>i. get_transfer b4 i = (if i = msg_id m then Some (t\<lparr> xfer_status := Unlocked s \<rparr>)
                             else get_transfer (fst (bridge_run H ops)) i))"
proof -
  let ?b = "fst (bridge_run H ops)"
  have np: "\<not> is_processed (replay ?b) s d ow (outbound_nonce (replay ?b) (s, d, ow))"
    using processed_below_outbound [OF assms(1)] by blast
  show ?thesis
  proof (cases rule: bridge_lock_cases [of H s d h n a ow re v x ?b])
    case (locked t ev m)
    obtain b1 where lock: "bridge_lock H s d h n a ow re v x ?b = (Inr (t, ev), b1)"
      and b1: "transfers b1 = bt_insert (msg_id m) t (transfers ?b)"
        "asset_locations b1 = bt_insert a (Locked s) (asset_locations ?b)"
        "replay b1 = snd (next_nonce s d ow (replay ?b))"
      by (rule that [OF locked(2)]) simp_all
    have m: "msg_source_domain m = s" "msg_target_domain m = d" "msg_sender m = ow"
      "msg_payload_hash m = bridge_payload_hash H (xfer_asset_id t) (bud_get (xfer_amount t))"
      using locked(4,9-11) by (simp_all add: announces_def)
    have fresh: "\<not> is_processed (replay b1) s d ow (msg_nonce m)" using np by (simp add: b1 locked(5))
    obtain b2 where mint: "bridge_mint H m h1 b1 = (Inr (), b2)"
      and b2: "transfers b2 = bt_insert (msg_id m) (t\<lparr> xfer_status := Minted d \<rparr>) (transfers b1)"
        "asset_locations b2 = bt_insert a (Minted d) (asset_locations b1)"
      using mark_processed_at_fresh [OF fresh, of h1] locked(3,8,14) m fresh
      by (auto simp: bridge_mint_def b1)
    obtain ev' b3 where burn: "burn_with_event H (msg_id m) d h2 n2 x2 b2 = (Inr ev', b3)"
      and b3: "transfers b3 = bt_insert (msg_id m) (t\<lparr> xfer_status := Burned d \<rparr>) (transfers b2)"
        "asset_locations b3 = bt_insert a (Burned d) (asset_locations b2)"
      using locked(8) by (simp add: burn_with_event_def b2 Let_def next_nonce_def)
    obtain b4 where unlock: "bridge_unlock (msg_id m) d h3 b3 = (Inr (), b4)"
      and b4: "transfers b4 = bt_insert (msg_id m) (t\<lparr> xfer_status := Unlocked s \<rparr>) (transfers b3)"
        "asset_locations b4 = bt_insert a (Active s) (asset_locations b3)"
      using locked(8-10) by (simp add: bridge_unlock_def b3 Let_def mark_settled_def)
    have "asset_locations b4 = asset_locations ?b"
      by (rule bt_map_eqI) (simp add: b1 b2 b3 b4 locked(1))
    moreover have "\<forall>i. get_transfer b4 i = (if i = msg_id m then Some (t\<lparr> xfer_status := Unlocked s \<rparr>) else get_transfer ?b i)"
      by (simp add: get_transfer_def b1 b2 b3 b4)
    ultimately show ?thesis using lock locked(16) mint burn unlock by blast
  qed (use assms(2) in simp)
qed

theorem bridge_round_trip_witness:
  "\<exists>t ev m b1 b2 ev' b3 b4.
    bridge_lock (\<lambda>bs. bs) 1 2 10 0 [1] [7] [8] 500 100 (fst (bridge_run (\<lambda>bs. bs) [RegisterAsset [1] 1])) = (Inr (t, ev), b1) \<and>
    ev_message ev = Some m \<and> bridge_mint (\<lambda>bs. bs) m 50 b1 = (Inr (), b2) \<and>
    burn_with_event (\<lambda>bs. bs) (msg_id m) 2 60 0 0 b2 = (Inr ev', b3) \<and>
    bridge_unlock (msg_id m) 2 70 b3 = (Inr (), b4) \<and> bt_get (asset_locations b4) [1] = Some (Active 1)"
proof -
  let ?H = "\<lambda>bs. bs" and ?b = "fst (bridge_run (\<lambda>bs. bs) [RegisterAsset [1] 1])"
  have s: "bridge_sound ?H (bridge_run ?H [RegisterAsset [1] 1])"
    by (simp add: bridge_sound_def bridge_eval no_collision_def counters_open_def bt_values_def)
  have a: "bt_get (asset_locations ?b) [1] = Some (Active 1)" by (simp add: bridge_eval)
  from bridge_round_trip [OF s a, of 2 10 0 "[7]" "[8]" 500 100 50 60 0 0 70]
  show ?thesis by (metis a)
qed

subsection \<open>Arithmetic\<close>

text \<open>
  The total the bridge reports as locked is the exact sum of the locked amounts, capped at
  the largest \<open>u128\<close>; the cap is out of reach below \<open>2^64\<close> transfers.
\<close>

theorem locked_amount_total_exact:
  "unat (locked_amount_total b) = min (locked_weight refund_units b) (2 ^ 128 - 1) \<and>
   (transfer_count b < 2 ^ 64 \<longrightarrow> unat (locked_amount_total b) = locked_weight refund_units b)"
proof -
  let ?f = "\<lambda>t (total :: u128). if status_is_locked (xfer_status t) then sat_add total (ucast (bud_get (xfer_amount t))) else total"
  let ?w = "row_weight refund_units"
  have up: "unat (ucast v :: u128) = unat v" for v :: u64 by (simp add: unat_ucast_up)
  have "unat (fold ?f ts acc) = min (unat acc + sum_list (map ?w ts)) (2 ^ 128 - 1)" for ts acc
  proof (induction ts arbitrary: acc)
    case Nil
    then show ?case using unat_le_max [of acc] by simp
  next
    case (Cons t ts)
    have "unat (?f t acc) = min (unat acc + ?w t) (2 ^ 128 - 1)"
      using unat_le_max [of acc] by (simp add: unat_sat_add up row_weight_def refund_units_def)
    moreover have "fold ?f (t # ts) acc = fold ?f ts (?f t acc)" by simp
    ultimately have "unat (fold ?f (t # ts) acc) = min (min (unat acc + ?w t) (2 ^ 128 - 1) + sum_list (map ?w ts)) (2 ^ 128 - 1)"
      using Cons.IH [of "?f t acc"] by presburger
    then show ?case by (simp add: min_def)
  qed
  from this [of "bt_values (transfers b)" 0]
  have exact: "unat (locked_amount_total b) = min (locked_weight refund_units b) (2 ^ 128 - 1)"
    by (simp add: locked_amount_total_def locked_weight_def bt_values_def comp_def case_prod_unfold)
  have small: "sum_list (map (\<lambda>(i, t). ?w t) es) \<le> length es * (2 ^ 64 - 1)" for es :: "(message_id \<times> bridge_transfer) list"
  proof (induction es)
    case (Cons e es)
    have "?w (snd e) \<le> 2 ^ 64 - 1"
      using unat_le_max [of "bud_get (xfer_amount (snd e))"] by (simp add: row_weight_def refund_units_def)
    then show ?case using Cons.IH by (simp add: case_prod_beta)
  qed simp
  have "locked_weight refund_units b \<le> 2 ^ 128 - 1" if "transfer_count b < 2 ^ 64"
  proof -
    have "locked_weight refund_units b \<le> transfer_count b * (2 ^ 64 - 1)"
      using small [of "bt_entries (transfers b)"] by (simp add: locked_weight_def transfer_count_def bt_len_def)
    also have "\<dots> \<le> 2 ^ 64 * (2 ^ 64 - 1)" using that by (intro mult_right_mono) simp_all
    finally show ?thesis by simp
  qed
  then show ?thesis using exact by simp
qed

theorem locked_amount_total_exact_witness:
  "unat (locked_amount_total (fst (bridge_run (\<lambda>bs. bs) example_history))) = 500"
  using locked_amount_total_exact [of "fst (bridge_run (\<lambda>bs. bs) example_history)"]
  by (simp add: example_history_def bridge_eval locked_weight_def row_weight_def refund_units_def transfer_count_def bt_len_def)

text \<open>
  The relayer's fee. With a rate below one hundred percent the split of an amount that covers
  the minimum fee gives the relayer the larger of the proportional and the minimum fee, and
  the recipient the rest, which is never nothing; the two add up to the amount. Any other
  amount is refused as not covering the fee.
\<close>

theorem bridge_fee_split:
  assumes "unat fee_ppm < 1000000"
  shows "case split_bridge_fee amount fee_ppm min_fee of
      Inl e \<Rightarrow> e = FeeNotCovered \<and> bud_get amount \<le> min_fee
    | Inr (recipient, fee) \<Rightarrow> bud_get amount > min_fee \<and>
        unat (bud_get fee) = max (unat (bud_get amount) * unat fee_ppm div 1000000) (unat min_fee) \<and>
        unat (bud_get recipient) + unat (bud_get fee) = unat (bud_get amount) \<and> 0 < unat (bud_get recipient)"
  by (rule split_bridge_fee_exact [OF assms])

theorem bridge_fee_split_witness:
  "split_bridge_fee (Bud 1000) 10000 3 = Inr (Bud 990, Bud 10) \<and>
   unat (bud_get (Bud 990)) + unat (bud_get (Bud 10)) = unat (bud_get (Bud 1000))"
proof -
  have "split_bridge_fee (Bud 1000) 10000 3 = Inr (Bud 990, Bud 10)"
    by (simp add: split_bridge_fee_def split_bridge_fee_u128_def Let_def bud_try_from_def sat_mul_def sat_sub_def)
  then show ?thesis using bridge_fee_split [of 10000 "Bud 1000" 3] by simp
qed

subsection \<open>The state root\<close>

lemma status_bytes_inj: "status_bytes s = status_bytes s' \<Longrightarrow> s = s'"
proof -
  assume eq: "status_bytes s = status_bytes s'"
  then have "length (status_bytes s) = length (status_bytes s')" by simp
  then show "s = s'" using eq by (cases s; cases s') (auto simp: append_eq_append_conv)
qed

lemma asset_leaf_inj: "asset_leaf_fields e = asset_leaf_fields e' \<Longrightarrow> e = e'"
  by (cases e; cases e') (auto simp: asset_leaf_fields_def dest: status_bytes_inj)

lemma transfer_leaf_inj:
  assumes "transfer_leaf_fields (i, t) = transfer_leaf_fields (j, u)"
  shows "i = j \<and> t\<lparr> xfer_message_id := i \<rparr> = u\<lparr> xfer_message_id := i \<rparr>"
proof -
  have "i = j" "xfer_asset_id t = xfer_asset_id u" "xfer_source_domain t = xfer_source_domain u"
    "xfer_target_domain t = xfer_target_domain u" "xfer_owner t = xfer_owner u" "xfer_recipient t = xfer_recipient u"
    "xfer_amount t = xfer_amount u" "xfer_status t = xfer_status u"
    "xfer_source_event_hash t = xfer_source_event_hash u" "xfer_expiry_height t = xfer_expiry_height u"
    using assms by (auto simp: transfer_leaf_fields_def Bud.expand dest: status_bytes_inj)
  then show ?thesis by simp
qed

lemma bridge_leaves_by_tag:
  "filter (\<lambda>fs. hd fs = ascii ''BDLM_BRIDGE_ASSET_LEAF_V1'') (bridge_leaf_fields b)
     = map asset_leaf_fields (bt_entries (asset_locations b))"
  "filter (\<lambda>fs. hd fs = ascii ''BDLM_BRIDGE_TRANSFER_V1'') (bridge_leaf_fields b)
     = map transfer_leaf_fields (bt_entries (transfers b))"
  "filter (\<lambda>fs. hd fs = ascii ''BDLM_BRIDGE_SETTLED_V1'') (bridge_leaf_fields b)
     = queue_leaf_fields (ascii ''BDLM_BRIDGE_SETTLED_V1'') (settled_queue b)"
  "filter (\<lambda>fs. hd fs = ascii ''BDLM_BRIDGE_EXPIRY_V1'') (bridge_leaf_fields b)
     = queue_leaf_fields (ascii ''BDLM_BRIDGE_EXPIRY_V1'') (expiry_queue b)"
proof -
  have tag: "filter (\<lambda>fs. hd fs = t) xs = (if u = t then xs else [])" if "\<forall>fs \<in> set xs. hd fs = u" for t u and xs :: "bytes list list"
    using that by (auto simp: filter_empty_conv)
  have "\<forall>fs \<in> set (map asset_leaf_fields (bt_entries (asset_locations b))). hd fs = ascii ''BDLM_BRIDGE_ASSET_LEAF_V1''"
    by (auto simp: asset_leaf_fields_def)
  note a = tag [OF this]
  have "\<forall>fs \<in> set (map transfer_leaf_fields (bt_entries (transfers b))). hd fs = ascii ''BDLM_BRIDGE_TRANSFER_V1''"
    by (auto simp: transfer_leaf_fields_def)
  note t = tag [OF this]
  have "\<forall>fs \<in> set (queue_leaf_fields u x). hd fs = u" for u x
    by (auto simp: queue_leaf_fields_def)
  note q = tag [OF this]
  show "filter (\<lambda>fs. hd fs = ascii ''BDLM_BRIDGE_ASSET_LEAF_V1'') (bridge_leaf_fields b)
     = map asset_leaf_fields (bt_entries (asset_locations b))"
    "filter (\<lambda>fs. hd fs = ascii ''BDLM_BRIDGE_TRANSFER_V1'') (bridge_leaf_fields b)
     = map transfer_leaf_fields (bt_entries (transfers b))"
    "filter (\<lambda>fs. hd fs = ascii ''BDLM_BRIDGE_SETTLED_V1'') (bridge_leaf_fields b)
     = queue_leaf_fields (ascii ''BDLM_BRIDGE_SETTLED_V1'') (settled_queue b)"
    "filter (\<lambda>fs. hd fs = ascii ''BDLM_BRIDGE_EXPIRY_V1'') (bridge_leaf_fields b)
     = queue_leaf_fields (ascii ''BDLM_BRIDGE_EXPIRY_V1'') (expiry_queue b)"
    unfolding bridge_leaf_fields_def filter_append a t q by simp_all
qed

lemma queued_leaf: "queued q k i \<longleftrightarrow> [tag, le_bytes 8 k, i] \<in> set (queue_leaf_fields tag q)"
proof -
  have "[tag, le_bytes 8 k, i] \<in> set (queue_leaf_fields tag q) \<longleftrightarrow> (\<exists>ids. (k, ids) \<in> set (bt_entries q) \<and> i \<in> set ids)"
    by (auto simp: queue_leaf_fields_def)
  then show ?thesis by (auto simp: queued_def bt.in_entries_iff split: option.splits)
qed

lemma queue_leaves_queued: "queue_leaf_fields tag q = queue_leaf_fields tag q' \<Longrightarrow> queued q = queued q'"
  by (simp add: fun_eq_iff queued_leaf [of _ _ _ tag])

lemma bridge_leaf_tags: "fs \<in> set (bridge_leaf_fields b) \<Longrightarrow> leaf_fields fs \<and> fs \<noteq> empty_root_fields"
  by (auto simp: bridge_leaf_fields_def asset_leaf_fields_def transfer_leaf_fields_def queue_leaf_fields_def
      leaf_fields_def empty_root_fields_def)

lemma transfer_leaves_get:
  assumes "map transfer_leaf_fields (bt_entries m) = map transfer_leaf_fields (bt_entries m')"
  shows "map_option (\<lambda>t. t\<lparr> xfer_message_id := i \<rparr>) (bt_get m i) = map_option (\<lambda>t. t\<lparr> xfer_message_id := i \<rparr>) (bt_get m' i)"
proof -
  have sub: "\<exists>u. bt_get n' i = Some u \<and> t\<lparr> xfer_message_id := i \<rparr> = u\<lparr> xfer_message_id := i \<rparr>"
    if "map transfer_leaf_fields (bt_entries n) = map transfer_leaf_fields (bt_entries n')" "bt_get n i = Some t" for n n' t
  proof -
    have "transfer_leaf_fields (i, t) \<in> set (map transfer_leaf_fields (bt_entries n))"
      using that(2) bt.in_entries_iff [of i t n] by auto
    then have "transfer_leaf_fields (i, t) \<in> set (map transfer_leaf_fields (bt_entries n'))"
      unfolding that(1) .
    then obtain j u where "(j, u) \<in> set (bt_entries n')" "transfer_leaf_fields (i, t) = transfer_leaf_fields (j, u)"
      by auto
    then show ?thesis using transfer_leaf_inj [of i t j u] by (auto simp: bt.in_entries_iff)
  qed
  show ?thesis
  proof (cases "bt_get m i")
    case None
    then have "bt_get m' i = None" using sub [OF assms [symmetric]] by (cases "bt_get m' i") auto
    then show ?thesis using None by simp
  next
    case (Some t)
    from sub [OF assms this] show ?thesis using Some by auto
  qed
qed

text \<open>
  C34: The bridge root commits to the bridge state. Two states with the same root record
  the same location for every asset, the same transfer under every identifier and the same
  identifiers at every height of both queues, unless SHA-256 collides on the leaves and nodes
  of the two trees.
\<close>

theorem bridge_root_binds_state:
  assumes "no_collision H (insert empty_root_fields (set (bridge_leaf_fields b) \<union> set (bridge_leaf_fields b') \<union>
      node_fields (tree_nodes H (bridge_leaf_fields b) \<union> tree_nodes H (bridge_leaf_fields b'))))"
    and "bridge_root H b = bridge_root H b'"
  shows "asset_locations b = asset_locations b' \<and>
    (\<forall>i. map_option (\<lambda>t. t\<lparr> xfer_message_id := i \<rparr>) (get_transfer b i) = map_option (\<lambda>t. t\<lparr> xfer_message_id := i \<rparr>) (get_transfer b' i)) \<and>
    queued (expiry_queue b) = queued (expiry_queue b') \<and> queued (settled_queue b) = queued (settled_queue b')"
proof -
  have leaves: "bridge_leaf_fields b = bridge_leaf_fields b'"
  proof (rule settlement_root_binds [OF assms(1)])
    show "\<forall>fs \<in> set (bridge_leaf_fields b) \<union> set (bridge_leaf_fields b'). leaf_fields fs \<and> fs \<noteq> empty_root_fields"
      using bridge_leaf_tags by blast
  qed (use assms(2) in \<open>simp add: bridge_root_def\<close>)
  note parts = bridge_leaves_by_tag [of b, unfolded leaves, symmetric, THEN trans]
  have "map asset_leaf_fields (bt_entries (asset_locations b)) = map asset_leaf_fields (bt_entries (asset_locations b'))"
    by (rule parts(1) [OF bridge_leaves_by_tag(1)])
  then have "bt_entries (asset_locations b) = bt_entries (asset_locations b')"
    by (rule map_injective) (rule injI, rule asset_leaf_inj)
  then have "asset_locations b = asset_locations b'" by (simp add: bt_entries_inject)
  moreover have "\<forall>i. map_option (\<lambda>t. t\<lparr> xfer_message_id := i \<rparr>) (get_transfer b i) = map_option (\<lambda>t. t\<lparr> xfer_message_id := i \<rparr>) (get_transfer b' i)"
    unfolding get_transfer_def by (intro allI transfer_leaves_get parts(2) [OF bridge_leaves_by_tag(2)])
  moreover have "queued (settled_queue b) = queued (settled_queue b')"
    by (rule queue_leaves_queued [OF parts(3) [OF bridge_leaves_by_tag(3)]])
  moreover have "queued (expiry_queue b) = queued (expiry_queue b')"
    by (rule queue_leaves_queued [OF parts(4) [OF bridge_leaves_by_tag(4)]])
  ultimately show ?thesis by blast
qed

theorem bridge_root_binds_state_witness:
  "asset_locations (fst (bridge_run (\<lambda>bs. bs) [RegisterAsset [1] 1])) = bt_insert [1] (Active 1) bt_empty"
proof -
  let ?H = "\<lambda>bs. bs" and ?b = "fst (bridge_run (\<lambda>bs. bs) [RegisterAsset [1] 1])"
  let ?b' = "bridge_new\<lparr> asset_locations := bt_insert [1] (Active 1) bt_empty \<rparr>"
  have leaves: "bridge_leaf_fields ?b = [[ascii ''BDLM_BRIDGE_ASSET_LEAF_V1'', [1], status_bytes (Active 1)]]"
    "bridge_leaf_fields ?b' = [[ascii ''BDLM_BRIDGE_ASSET_LEAF_V1'', [1], status_bytes (Active 1)]]"
    by (simp_all add: bridge_eval bridge_leaf_fields_def asset_leaf_fields_def queue_leaf_fields_def)
  have nodes: "tree_nodes ?H [fs] = {hash_fields_bytes ?H fs}" for fs
    by (simp add: tree_nodes_def merkle_digests_def merkle_htree_def) (subst tree_over.simps, simp)
  have "no_collision ?H (insert empty_root_fields (set (bridge_leaf_fields ?b) \<union> set (bridge_leaf_fields ?b') \<union>
      node_fields (tree_nodes ?H (bridge_leaf_fields ?b) \<union> tree_nodes ?H (bridge_leaf_fields ?b'))))"
    unfolding leaves nodes no_collision_def
    by (auto simp: fields_fit_def empty_root_fields_def node_fields_def hash_fields_bytes_def
        hash_fields_preimage_def encode_field_def)
  moreover have "bridge_root ?H ?b = bridge_root ?H ?b'" by (simp add: bridge_root_def leaves)
  ultimately show ?thesis using bridge_root_binds_state [of ?H ?b ?b'] by simp
qed

end
