(* ===== verification/Pipeline_Theorems.thy ===== *)
theory Pipeline_Theorems
  imports Bridge_Pipeline Bridge_Theorems
begin

text \<open>
  What the relay pipeline guarantees: its bridge is one the bridge alone could have reached, a
  pending relay that has not expired can be delivered with the proof the pipeline itself
  hands out, an accepted proof shows that the event is committed, a message is delivered at
  most once, and a refused lock or burn is rolled back.
\<close>

text \<open>The history used by the examples: the lock of \<^verbatim>\<open>example_history\<close>, driven through the pipeline.\<close>

definition example_stages :: "pipeline_op list" where
  "example_stages = [PipeRegister [1] 1, PipeLock 1 2 10 [1] [7] [8] 500 100]"

definition example_event :: "hasher \<Rightarrow> domain_event" where
  "example_event H = \<lparr> ev_domain_id = 1, ev_domain_height = 10, ev_event_index = 0, ev_kind = BridgeLocked,
     ev_emitter = [7], ev_message = Some (example_message H), ev_payload_hash = bridge_payload_hash H [1] 500 \<rparr>"

lemmas pipeline_eval = bridge_eval pipeline_run_def pipeline_new_def relayer_new_def ledger_new_def message_registry_new_def
  pipeline_register_asset_def pipeline_lock_def get_or_create_tree_def event_tree_new_def push_event_def event_tree_push_def
  message_registry_insert_def enqueue_relay_def

lemma example_pipeline:
  "pipe_event_trees (pipeline_run H ser c example_stages) = bt_insert 1 \<lparr> tree_events = [example_event H] \<rparr> (bt_insert 1 event_tree_new bt_empty)"
  "pending (pipe_relayer (pipeline_run H ser c example_stages)) = bt_insert (msg_id (example_message H))
     \<lparr> pend_message_id = msg_id (example_message H), pend_source_domain = 1, pend_target_domain = 2,
       pend_source_event = example_event H, pend_created_height = 10, pend_expiry_height = 100 \<rparr> bt_empty"
  "ledger (pipe_relayer (pipeline_run H ser c example_stages)) = ledger_new"
  by (simp_all add: example_stages_def example_event_def example_message_def pipeline_eval)

lemma example_digests: "merkle_digests combine promote [d] = {d}"
  by (simp add: merkle_digests_def merkle_htree_def) (subst tree_over.simps, simp)

lemma example_tree_fields:
  "tree_hashed_fields H \<lparr> tree_events = [e] \<rparr> = insert sentinel_fields (insert (event_fields e) (node_fields {leaf_hash H e}))"
  by (simp add: tree_hashed_fields_def example_digests)

lemma example_no_collision: "no_collision (\<lambda>bs. bs) (tree_hashed_fields (\<lambda>bs. bs) \<lparr> tree_events = [example_event (\<lambda>bs. bs)] \<rparr>)"
proof -
  let ?H = "\<lambda>bs. bs"
  have id: "length (msg_id (example_message ?H)) < 1000"
    by (simp add: example_message_def message_new_def calculate_message_id_def message_fields_def Let_def
        hash_fields_bytes_def hash_fields_preimage_def encode_field_def bridge_payload_hash_def)
  have pay: "length (bridge_payload_hash ?H [1] 500) < 1000"
    by (simp add: hash_fields_bytes_def hash_fields_preimage_def encode_field_def bridge_payload_hash_def)
  have leaf: "length (leaf_hash ?H (example_event ?H)) < 4000"
    using id pay by (simp add: leaf_hash_def event_fields_def example_event_def hash_fields_bytes_def hash_fields_preimage_def encode_field_def)
  have "fields_fit (event_fields (example_event ?H))"
    using id pay by (simp add: fields_fit_def event_fields_def example_event_def)
  then show ?thesis
    using leaf by (auto simp: example_tree_fields no_collision_def fields_fit_def sentinel_fields_def node_fields_def)
qed

definition example_proof :: "hasher \<Rightarrow> merkle_proof_data" where
  "example_proof H = \<lparr> proof_leaf = leaf_hash H (example_event H), proof_index = 0, proof_siblings = [] \<rparr>"

lemma example_root: "event_tree_root H \<lparr> tree_events = [e] \<rparr> = leaf_hash H e"
  by (simp add: event_tree_root_def merkle_root_def merkle_root_shape_def merkle_layers_def merkle_layers_from_single)

lemma example_relay:
  "fst (process_relay H (\<lambda>_. Some []) (msg_id (example_message H)) [9] (example_proof H) 1
      (event_tree_root H \<lparr> tree_events = [example_event H] \<rparr>) 50
      (pipe_relayer (pipeline_run H (\<lambda>_. Some []) c example_stages))) = Inr (example_message H)"
proof (rule process_relay_accepts)
  show "bt_get (pending (pipe_relayer (pipeline_run H (\<lambda>_. Some []) c example_stages))) (msg_id (example_message H)) =
    Some \<lparr> pend_message_id = msg_id (example_message H), pend_source_domain = 1, pend_target_domain = 2,
       pend_source_event = example_event H, pend_created_height = 10, pend_expiry_height = 100 \<rparr>"
    by (simp add: example_pipeline)
qed (simp_all add: example_pipeline ledger_new_def is_relayed_def bt_contains_def relay_is_expired_def example_proof_def
    example_root proof_verify_def example_event_def example_message_def)

subsection \<open>The pipeline refines the bridge\<close>

lemma pipeline_apply_bridge:
  "pipe_bridge (pipeline_apply H ser op p) = pipe_bridge p \<or>
   (\<exists>bop. pipe_bridge (pipeline_apply H ser op p) = bridge_apply H bop (pipe_bridge p))"
proof (cases op)
  case (PipeRegister a d)
  show ?thesis unfolding PipeRegister bridge_only_stages(1) by (simp del: bridge_apply.simps) blast
next
  case (PipeLock s t h a ow re v x)
  then show ?thesis
    by (cases rule: pipeline_lock_cases [of H s t h a ow re v x p])
      (auto simp: pipeline_same_def simp del: bridge_apply.simps)
next
  case (PipeRelay i r q d h)
  then show ?thesis
    by (simp add: pipeline_relay_def split: option.splits prod.splits sum.splits)
next
  case (PipeMint m h)
  show ?thesis unfolding PipeMint bridge_only_stages(2) by (simp del: bridge_apply.simps) blast
next
  case (PipeBurn i d h x)
  then show ?thesis
    by (cases rule: pipeline_burn_cases [of H i d h x p])
      (auto simp: pipeline_same_def simp del: bridge_apply.simps)
next
  case (PipeUnlock m d h)
  show ?thesis unfolding PipeUnlock bridge_only_stages(3)
    by (simp del: bridge_apply.simps split: option.split) blast
next
  case (PipeSweepLocks h)
  show ?thesis unfolding PipeSweepLocks bridge_only_stages(4) by (simp del: bridge_apply.simps) blast
qed simp


subsection \<open>Delivery\<close>

lemma event_tree_proof_exists:
  "i < length (tree_events t) \<Longrightarrow> \<exists>p. event_tree_proof H t i = Some p"
  by (auto simp: event_tree_proof_def Merkle_Tree.merkle_proof_def Let_def)

text \<open>
  C4: Every pending relay can be delivered until it expires: for some index the pipeline hands out a
  proof, and submitting that proof for the source domain is accepted and returns the message
  whose relay was pending, provided the proof serializes and SHA-256 does not collide while
  the domain's event tree is built.
\<close>

theorem pending_relay_is_deliverable:
  assumes "bt_get (pending (pipe_relayer (pipeline_run H ser c ops))) i = Some q" "\<not> relay_is_expired h q"
    and "bt_get (pipe_event_trees (pipeline_run H ser c ops)) (pend_source_domain q) = Some t"
    and "no_collision H (tree_hashed_fields H t)" "\<And>prf. ser prf \<noteq> None"
  shows "\<exists>n prf m p'. pipeline_event_proof H (pipeline_run H ser c ops) (pend_source_domain q) n = Some prf \<and>
    pipeline_relay H ser i r prf (pend_source_domain q) h (pipeline_run H ser c ops) = (Inr m, p') \<and>
    msg_id m = i \<and> msg_source_domain m = pend_source_domain q \<and> verify_id H m"
proof -
  let ?p = "pipeline_run H ser c ops"
  have "pending_ok H ?p i q" using pipeline_run_inv assms(1) by (auto simp: pipeline_inv_def)
  then obtain m where m: "\<not> is_relayed (ledger (pipe_relayer ?p)) i" "ev_message (pend_source_event q) = Some m"
    "msg_id m = i" "verify_id H m" "pend_source_domain q = msg_source_domain m"
    "pend_source_event q \<in> set (events_of ?p (pend_source_domain q))"
    by (auto simp: pending_ok_def)
  have "events_of ?p (pend_source_domain q) = tree_events t" using assms(3) by (simp add: events_of_def)
  then obtain n where n: "n < length (tree_events t)" "tree_events t ! n = pend_source_event q"
    using m(6) by (metis in_set_conv_nth)
  obtain pr where pf: "event_tree_proof H t n = Some pr" using event_tree_proof_exists [OF n(1)] by blast
  from event_tree_proof_complete [OF pf assms(4)] n(2)
  have ok: "proof_leaf pr = leaf_hash H (pend_source_event q)" "proof_verify H pr (event_tree_root H t)" by auto
  have "fst (process_relay H ser i r pr (pend_source_domain q) (event_tree_root H t) h (pipe_relayer ?p)) = Inr m"
    by (rule process_relay_accepts [OF m(1) assms(1,2) refl ok(2,1) m(2,4) assms(5)])
  then obtain u where "process_relay H ser i r pr (pend_source_domain q) (event_tree_root H t) h (pipe_relayer ?p) = (Inr m, u)"
    by (metis prod.collapse)
  then have "pipeline_relay H ser i r pr (pend_source_domain q) h ?p = (Inr m, ?p\<lparr> pipe_relayer := u \<rparr>)"
    by (simp add: pipeline_relay_def assms(3))
  moreover have "pipeline_event_proof H ?p (pend_source_domain q) n = Some pr"
    by (simp add: pipeline_event_proof_def assms(3) pf)
  ultimately show ?thesis using m(3,4) m(5) [symmetric] by blast
qed

theorem pending_relay_is_deliverable_witness:
  "\<exists>n prf m p'. pipeline_event_proof (\<lambda>bs. bs) (pipeline_run (\<lambda>bs. bs) (\<lambda>_. Some []) relayer_config_default example_stages) 1 n = Some prf \<and>
    pipeline_relay (\<lambda>bs. bs) (\<lambda>_. Some []) (msg_id (example_message (\<lambda>bs. bs))) [9] prf 1 50
      (pipeline_run (\<lambda>bs. bs) (\<lambda>_. Some []) relayer_config_default example_stages) = (Inr m, p')"
proof -
  let ?H = "\<lambda>bs. bs" and ?ser = "\<lambda>_. Some []"
  let ?q = "\<lparr> pend_message_id = msg_id (example_message ?H), pend_source_domain = 1, pend_target_domain = 2,
       pend_source_event = example_event ?H, pend_created_height = 10, pend_expiry_height = 100 \<rparr>"
  from pending_relay_is_deliverable [where H = ?H and ser = ?ser and c = relayer_config_default and ops = example_stages
      and i = "msg_id (example_message ?H)" and q = ?q and h = 50 and r = "[9]", OF _ _ _ example_no_collision]
  show ?thesis by (simp add: example_pipeline relay_is_expired_def) blast
qed

text \<open>
  C5: A relay that is accepted against the root of an event tree proves inclusion: the tree holds
  an event with the domain, height, index, kind, emitter and payload of the pending one, and
  the identifier of the message that is returned; the relay was pending, not expired and not
  yet recorded, and from then on it is recorded.
\<close>

theorem accepted_relay_proves_inclusion:
  assumes "process_relay H ser i r prf d (event_tree_root H t) h u = (Inr m, u')" "tree_events t \<noteq> []"
    and "\<And>q. bt_get (pending u) i = Some q \<Longrightarrow> no_collision H (proof_hashed_fields H t (pend_source_event q) prf)"
  shows "\<exists>q e. bt_get (pending u) i = Some q \<and> \<not> relay_is_expired h q \<and> e \<in> set (tree_events t) \<and>
    event_fields e = event_fields (pend_source_event q) \<and> ev_message (pend_source_event q) = Some m \<and> verify_id H m \<and>
    \<not> is_relayed (ledger u) i \<and> is_relayed (ledger u') i \<and> bt_get (pending u') i = None"
proof -
  from process_relay_accepted [OF assms(1)]
  obtain q where q: "\<not> is_relayed (ledger u) i" "bt_get (pending u) i = Some q" "\<not> relay_is_expired h q"
    "proof_verify H prf (event_tree_root H t)" "proof_leaf prf = leaf_hash H (pend_source_event q)"
    "ev_message (pend_source_event q) = Some m" "verify_id H m" "pending u' = bt_remove i (pending u)"
    "\<forall>k. is_relayed (ledger u') k \<longleftrightarrow> is_relayed (ledger u) k \<or> k = i" by metis
  from event_tree_proof_sound [OF q(4,5) assms(2) assms(3) [OF q(2)]]
  obtain e where "e \<in> set (tree_events t)" "event_fields e = event_fields (pend_source_event q)" by blast
  then show ?thesis using q by auto
qed

theorem accepted_relay_proves_inclusion_witness:
  "\<exists>e \<in> set [example_event (\<lambda>bs. bs)]. event_fields e = event_fields (example_event (\<lambda>bs. bs)) \<and>
     ev_message (example_event (\<lambda>bs. bs)) = Some (example_message (\<lambda>bs. bs))"
proof -
  let ?H = "\<lambda>bs. bs" and ?t = "\<lparr> tree_events = [example_event (\<lambda>bs. bs)] \<rparr>"
  let ?u = "pipe_relayer (pipeline_run ?H (\<lambda>_. Some []) relayer_config_default example_stages)"
  obtain u' where relay: "process_relay ?H (\<lambda>_. Some []) (msg_id (example_message ?H)) [9] (example_proof ?H) 1
      (event_tree_root ?H ?t) 50 ?u = (Inr (example_message ?H), u')"
    using example_relay [of ?H relayer_config_default] by (simp add: prod_eq_iff)
  have q: "pend_source_event q = example_event ?H" if "bt_get (pending ?u) (msg_id (example_message ?H)) = Some q" for q
    using that by (auto simp: example_pipeline)
  have "proof_hashed_fields ?H ?t (example_event ?H) (example_proof ?H)
      = insert (event_fields (example_event ?H)) (node_fields {leaf_hash ?H (example_event ?H)})"
    by (simp add: proof_hashed_fields_def example_proof_def example_digests)
  then have "no_collision ?H (proof_hashed_fields ?H ?t (example_event ?H) (example_proof ?H))"
    by (intro no_collision_subset [OF example_no_collision]) (simp add: example_tree_fields subset_insertI2)
  then have nc: "no_collision ?H (proof_hashed_fields ?H ?t (pend_source_event q) (example_proof ?H))"
    if "bt_get (pending ?u) (msg_id (example_message ?H)) = Some q" for q
    using q [OF that] by simp
  have ne: "tree_events ?t \<noteq> []" by simp
  from accepted_relay_proves_inclusion [OF relay ne nc]
  obtain q0 e where a: "bt_get (pending ?u) (msg_id (example_message ?H)) = Some q0" "e \<in> set (tree_events ?t)"
    "event_fields e = event_fields (pend_source_event q0)" "ev_message (pend_source_event q0) = Some (example_message ?H)" by blast
  from a(2-4) show ?thesis unfolding q [OF a(1)] by simp
qed

subsection \<open>At most one delivery\<close>

definition delivered :: "message_id \<Rightarrow> pipeline \<Rightarrow> bool" where
  "delivered i p \<longleftrightarrow> bt_get (reg_messages (pipe_messages p)) i \<noteq> None \<and> bt_get (pending (pipe_relayer p)) i = None"

lemma delivered_announced: "announced H d h b ev m p q \<Longrightarrow> delivered i p \<Longrightarrow> delivered i q"
  by (auto simp: delivered_def announced_def enqueue_relay_def Let_def message_registry_insert_get
      message_registry_insert_ok)

lemma delivered_same: "pipeline_same p q \<Longrightarrow> delivered i p \<Longrightarrow> delivered i q"
  by (simp add: delivered_def pipeline_same_def)

lemma delivered_relay: "delivered i p \<Longrightarrow> delivered i (snd (pipeline_relay H ser j r prf d h p))"
  by (auto simp: pipeline_relay_def delivered_def process_relay_def ledger_record_def Let_def
      split: option.splits prod.splits sum.splits if_splits)

lemma delivered_apply: "delivered i p \<Longrightarrow> delivered i (pipeline_apply H ser op p)"
proof (cases op)
  case (PipeLock s t h a ow re v x)
  assume "delivered i p"
  then show ?thesis
    by (cases rule: pipeline_lock_cases [of H s t h a ow re v x p])
      (auto simp: PipeLock intro: delivered_same delivered_announced)
next
  case (PipeBurn j d h x)
  assume "delivered i p"
  then show ?thesis
    by (cases rule: pipeline_burn_cases [of H j d h x p])
      (auto simp: PipeBurn intro: delivered_same delivered_announced)
next
  case (PipeSweepRetired h)
  assume "delivered i p"
  then show ?thesis by (simp add: PipeSweepRetired delivered_def sweep_retired_get)
next
  case (PipeRelay j r q d h)
  assume "delivered i p"
  then show ?thesis using delivered_relay by (simp add: PipeRelay)
qed (simp_all only: bridge_only_stages, simp_all add: delivered_def)

lemma delivered_fold: "delivered i p \<Longrightarrow> delivered i (fold (pipeline_apply H ser) ops p)"
  by (induction ops arbitrary: p) (simp_all add: delivered_apply)

text \<open>
  C6: A message is delivered at most once. After an accepted relay no later relay of the same
  identifier is accepted, whatever stages run in between, including the sweep that forgets
  old relay records.
\<close>

theorem relay_at_most_once:
  assumes "pipeline_relay H ser i r prf d h (pipeline_run H ser c ops) = (Inr m, p')"
  shows "\<exists>e. fst (pipeline_relay H ser i r' prf' d' h' (fold (pipeline_apply H ser) ops' p')) = Inl e"
proof -
  let ?p = "pipeline_run H ser c ops"
  obtain t u where t: "process_relay H ser i r prf d (event_tree_root H t) h (pipe_relayer ?p) = (Inr m, u)"
    and p': "p' = ?p\<lparr> pipe_relayer := u \<rparr>"
    using assms by (auto simp: pipeline_relay_def split: option.splits prod.splits sum.splits)
  from process_relay_accepted [OF t]
  obtain q where "bt_get (pending (pipe_relayer ?p)) i = Some q" "pending u = bt_remove i (pending (pipe_relayer ?p))" by metis
  then have "delivered i p'"
    using pipeline_run_inv [of H ser c ops] by (auto simp: delivered_def p' pipeline_inv_def)
  then have "bt_get (pending (pipe_relayer (fold (pipeline_apply H ser) ops' p'))) i = None"
    using delivered_fold by (auto simp: delivered_def)
  then show ?thesis
    by (auto simp: pipeline_relay_def process_relay_def split: option.splits)
qed

theorem relay_at_most_once_witness:
  "\<exists>p' e. fst (pipeline_relay (\<lambda>bs. bs) (\<lambda>_. Some []) (msg_id (example_message (\<lambda>bs. bs))) [9] (example_proof (\<lambda>bs. bs)) 1 60
     (fold (pipeline_apply (\<lambda>bs. bs) (\<lambda>_. Some [])) [PipeSweepRetired 20000] p')) = Inl e \<and>
     pipeline_relay (\<lambda>bs. bs) (\<lambda>_. Some []) (msg_id (example_message (\<lambda>bs. bs))) [9] (example_proof (\<lambda>bs. bs)) 1 50
       (pipeline_run (\<lambda>bs. bs) (\<lambda>_. Some []) relayer_config_default example_stages) = (Inr (example_message (\<lambda>bs. bs)), p')"
proof -
  let ?H = "\<lambda>bs. bs" and ?t = "\<lparr> tree_events = [example_event (\<lambda>bs. bs)] \<rparr>"
  let ?p = "pipeline_run ?H (\<lambda>_. Some []) relayer_config_default example_stages"
  obtain u' where "process_relay ?H (\<lambda>_. Some []) (msg_id (example_message ?H)) [9] (example_proof ?H) 1
      (event_tree_root ?H ?t) 50 (pipe_relayer ?p) = (Inr (example_message ?H), u')"
    using example_relay [of ?H relayer_config_default] by (simp add: prod_eq_iff)
  then have first: "pipeline_relay ?H (\<lambda>_. Some []) (msg_id (example_message ?H)) [9] (example_proof ?H) 1 50 ?p
      = (Inr (example_message ?H), ?p\<lparr> pipe_relayer := u' \<rparr>)"
    by (simp add: pipeline_relay_def example_pipeline)
  from relay_at_most_once [OF first, of "[9]" "example_proof ?H" 1 60 "[PipeSweepRetired 20000]"]
  obtain e where "fst (pipeline_relay ?H (\<lambda>_. Some []) (msg_id (example_message ?H)) [9] (example_proof ?H) 1 60
      (fold (pipeline_apply ?H (\<lambda>_. Some [])) [PipeSweepRetired 20000] (?p\<lparr> pipe_relayer := u' \<rparr>))) = Inl e" ..
  then show ?thesis
    using first by (intro exI [of _ "?p\<lparr> pipe_relayer := u' \<rparr>"] exI [of _ e] conjI)
qed

subsection \<open>Rollback\<close>

text \<open>
  A lock or a burn that is refused, by the bridge or by the message registry after the bridge had
  already moved, leaves the bridge, the relayer, the registry and the events of every
  domain as they were.
\<close>

theorem refused_stage_rolls_back:
  "(case pipeline_lock H s t h a ow re v x p of
      (Inl _, q) \<Rightarrow> pipe_bridge q = pipe_bridge p \<and> pipe_relayer q = pipe_relayer p \<and> pipe_messages q = pipe_messages p \<and> (\<forall>d. events_of q d = events_of p d)
    | (Inr ev, q) \<Rightarrow> events_of q s = events_of p s @ [ev]) \<and>
   (case pipeline_burn H i d h x p of
      (Inl _, q) \<Rightarrow> pipe_bridge q = pipe_bridge p \<and> pipe_relayer q = pipe_relayer p \<and> pipe_messages q = pipe_messages p \<and> (\<forall>d. events_of q d = events_of p d)
    | (Inr ev, q) \<Rightarrow> events_of q d = events_of p d @ [ev])"
  by (cases rule: pipeline_lock_cases [of H s t h a ow re v x p];
      cases rule: pipeline_burn_cases [of H i d h x p])
    (auto simp: pipeline_same_def announced_def)

end
