(* ===== verification/Bud_Isa.thy ===== *)
theory Bud_Isa
  imports Budlum_Prelude
begin

text \<open>
  \<^verbatim>\<open>budzero/bud-isa/src/lib.rs\<close>: the opcodes of the BudZero virtual machine, the
  packed instruction word, the decoders with their profile and mainnet gates, and the
  messages a decoding error prints. The lemmas show that packing and unpacking are
  inverse to each other up to the nine bits the format ignores, and which words each
  decoder refuses.
\<close>

unbundle bit_operations_syntax

type_synonym i32 = "32 word"

datatype opcode =
  Op_Halt | Op_Add | Op_Sub | Op_Mul | Op_Div | Op_Inv | Op_And | Op_Not
| Op_Eq | Op_Neq | Op_Lt | Op_Gt | Op_Lte | Op_Gte
| Op_Jmp | Op_Jnz | Op_Call | Op_Ret | Op_Load | Op_Store | Op_Push | Op_Pop
| Op_Assert | Op_Poseidon | Op_Log | Op_SRead | Op_SWrite | Op_Syscall
| Op_VerifyMerkle | Op_VerifyInference | Op_PrivacyCommit | Op_NullifierCheck | Op_SumConservation

text \<open>\<open>opcode as u8\<close>: the discriminants of the enum.\<close>

fun opcode_byte :: "opcode \<Rightarrow> u8" where
  "opcode_byte Op_Halt = 0x00"
| "opcode_byte Op_Add = 0x01"
| "opcode_byte Op_Sub = 0x02"
| "opcode_byte Op_Mul = 0x03"
| "opcode_byte Op_Div = 0x04"
| "opcode_byte Op_Inv = 0x05"
| "opcode_byte Op_And = 0x06"
| "opcode_byte Op_Not = 0x09"
| "opcode_byte Op_Eq = 0x0A"
| "opcode_byte Op_Neq = 0x0B"
| "opcode_byte Op_Lt = 0x0C"
| "opcode_byte Op_Gt = 0x0D"
| "opcode_byte Op_Lte = 0x0E"
| "opcode_byte Op_Gte = 0x0F"
| "opcode_byte Op_Jmp = 0x10"
| "opcode_byte Op_Jnz = 0x11"
| "opcode_byte Op_Call = 0x12"
| "opcode_byte Op_Ret = 0x13"
| "opcode_byte Op_Load = 0x14"
| "opcode_byte Op_Store = 0x15"
| "opcode_byte Op_Push = 0x16"
| "opcode_byte Op_Pop = 0x17"
| "opcode_byte Op_Assert = 0x18"
| "opcode_byte Op_Poseidon = 0x19"
| "opcode_byte Op_Log = 0x1A"
| "opcode_byte Op_SRead = 0x1B"
| "opcode_byte Op_SWrite = 0x1C"
| "opcode_byte Op_Syscall = 0x1D"
| "opcode_byte Op_VerifyMerkle = 0x1E"
| "opcode_byte Op_VerifyInference = 0x1F"
| "opcode_byte Op_PrivacyCommit = 0x20"
| "opcode_byte Op_NullifierCheck = 0x21"
| "opcode_byte Op_SumConservation = 0x22"

definition is_experimental :: "opcode \<Rightarrow> bool" where
  "is_experimental opc = False"

definition requires_mainnet_activation :: "opcode \<Rightarrow> bool" where
  "requires_mainnet_activation opc =
     (opc \<in> {Op_VerifyMerkle, Op_VerifyInference, Op_PrivacyCommit, Op_NullifierCheck, Op_SumConservation})"

datatype isa_profile = Production | Experimental | Testing

record mainnet_activation =
  verify_merkle_enabled :: bool
  verify_inference_enabled :: bool
  privacy_commit_enabled :: bool
  nullifier_check_enabled :: bool
  sum_conservation_enabled :: bool

definition activation_default :: mainnet_activation where
  "activation_default = \<lparr> verify_merkle_enabled = False, verify_inference_enabled = False,
     privacy_commit_enabled = True, nullifier_check_enabled = True, sum_conservation_enabled = True \<rparr>"

definition activation_full :: mainnet_activation where
  "activation_full = \<lparr> verify_merkle_enabled = True, verify_inference_enabled = True,
     privacy_commit_enabled = True, nullifier_check_enabled = True, sum_conservation_enabled = True \<rparr>"

definition activation_allows :: "mainnet_activation \<Rightarrow> opcode \<Rightarrow> bool" where
  "activation_allows act opc =
     (if requires_mainnet_activation opc then
        (case opc of
           Op_VerifyMerkle \<Rightarrow> verify_merkle_enabled act
         | Op_VerifyInference \<Rightarrow> verify_inference_enabled act
         | Op_PrivacyCommit \<Rightarrow> privacy_commit_enabled act
         | Op_NullifierCheck \<Rightarrow> nullifier_check_enabled act
         | Op_SumConservation \<Rightarrow> sum_conservation_enabled act
         | _ \<Rightarrow> False)
      else True)"

datatype decode_error =
  InvalidOpcodeByte u8
| ExperimentalOpcodeDisabled opcode isa_profile
| MainnetActivationRequired opcode

text \<open>The derived \<open>Debug\<close> forms and the \<open>Display\<close> of a decoding error.\<close>

fun opcode_debug :: "opcode \<Rightarrow> string" where
  "opcode_debug Op_Halt = ''Halt''"
| "opcode_debug Op_Add = ''Add''"
| "opcode_debug Op_Sub = ''Sub''"
| "opcode_debug Op_Mul = ''Mul''"
| "opcode_debug Op_Div = ''Div''"
| "opcode_debug Op_Inv = ''Inv''"
| "opcode_debug Op_And = ''And''"
| "opcode_debug Op_Not = ''Not''"
| "opcode_debug Op_Eq = ''Eq''"
| "opcode_debug Op_Neq = ''Neq''"
| "opcode_debug Op_Lt = ''Lt''"
| "opcode_debug Op_Gt = ''Gt''"
| "opcode_debug Op_Lte = ''Lte''"
| "opcode_debug Op_Gte = ''Gte''"
| "opcode_debug Op_Jmp = ''Jmp''"
| "opcode_debug Op_Jnz = ''Jnz''"
| "opcode_debug Op_Call = ''Call''"
| "opcode_debug Op_Ret = ''Ret''"
| "opcode_debug Op_Load = ''Load''"
| "opcode_debug Op_Store = ''Store''"
| "opcode_debug Op_Push = ''Push''"
| "opcode_debug Op_Pop = ''Pop''"
| "opcode_debug Op_Assert = ''Assert''"
| "opcode_debug Op_Poseidon = ''Poseidon''"
| "opcode_debug Op_Log = ''Log''"
| "opcode_debug Op_SRead = ''SRead''"
| "opcode_debug Op_SWrite = ''SWrite''"
| "opcode_debug Op_Syscall = ''Syscall''"
| "opcode_debug Op_VerifyMerkle = ''VerifyMerkle''"
| "opcode_debug Op_VerifyInference = ''VerifyInference''"
| "opcode_debug Op_PrivacyCommit = ''PrivacyCommit''"
| "opcode_debug Op_NullifierCheck = ''NullifierCheck''"
| "opcode_debug Op_SumConservation = ''SumConservation''"

fun profile_debug :: "isa_profile \<Rightarrow> string" where
  "profile_debug Production = ''Production''"
| "profile_debug Experimental = ''Experimental''"
| "profile_debug Testing = ''Testing''"

text \<open>\<open>{:02X}\<close> of a byte.\<close>

definition hex_upper :: "u8 \<Rightarrow> string" where
  "hex_upper b = (let digits = ''0123456789ABCDEF''
                  in [digits ! unat (drop_bit 4 b), digits ! unat (b AND 0x0F)])"

fun decode_error_display :: "decode_error \<Rightarrow> string" where
  "decode_error_display (InvalidOpcodeByte b) = ''Unknown opcode 0x'' @ hex_upper b"
| "decode_error_display (ExperimentalOpcodeDisabled opc p) =
     ''Opcode '' @ opcode_debug opc @ '' disabled in '' @ profile_debug p"
| "decode_error_display (MainnetActivationRequired opc) =
     ''Opcode '' @ opcode_debug opc @ '' requires mainnet activation''"

record instruction =
  i_opcode :: opcode
  i_rd :: u8
  i_rs1 :: u8
  i_rs2 :: u8
  i_imm :: i32

text \<open>\<open>opcode as u64\<close>, then the fields at bits 8, 13, 18 and 23.\<close>

definition inst_encode :: "instruction \<Rightarrow> u64" where
  "inst_encode i =
     ucast (opcode_byte (i_opcode i))
     OR push_bit 8 (ucast (i_rd i))
     OR push_bit 13 (ucast (i_rs1 i))
     OR push_bit 18 (ucast (i_rs2 i))
     OR push_bit 23 (ucast (i_imm i))"

text \<open>The match on the opcode byte.\<close>

definition opcode_table :: "(u8 \<times> opcode) list" where
  "opcode_table =
    [(0x00, Op_Halt), (0x01, Op_Add), (0x02, Op_Sub), (0x03, Op_Mul), (0x04, Op_Div), (0x05, Op_Inv),
     (0x06, Op_And), (0x09, Op_Not), (0x0A, Op_Eq), (0x0B, Op_Neq), (0x0C, Op_Lt), (0x0D, Op_Gt),
     (0x0E, Op_Lte), (0x0F, Op_Gte), (0x10, Op_Jmp), (0x11, Op_Jnz), (0x12, Op_Call), (0x13, Op_Ret),
     (0x14, Op_Load), (0x15, Op_Store), (0x16, Op_Push), (0x17, Op_Pop), (0x18, Op_Assert),
     (0x19, Op_Poseidon), (0x1A, Op_Log), (0x1B, Op_SRead), (0x1C, Op_SWrite), (0x1D, Op_Syscall),
     (0x1E, Op_VerifyMerkle), (0x1F, Op_VerifyInference), (0x20, Op_PrivacyCommit),
     (0x21, Op_NullifierCheck), (0x22, Op_SumConservation)]"

definition decode_any :: "u64 \<Rightarrow> decode_error + instruction" where
  "decode_any val =
     (let op_u8 = ucast (val AND 0xFF)
      in case map_of opcode_table op_u8 of
           None \<Rightarrow> Inl (InvalidOpcodeByte op_u8)
         | Some opc \<Rightarrow> Inr \<lparr> i_opcode = opc,
             i_rd = ucast (drop_bit 8 val AND 0x1F),
             i_rs1 = ucast (drop_bit 13 val AND 0x1F),
             i_rs2 = ucast (drop_bit 18 val AND 0x1F),
             i_imm = ucast (drop_bit 23 val AND 0xFFFFFFFF) \<rparr>)"

definition decode_for_profile :: "u64 \<Rightarrow> isa_profile \<Rightarrow> decode_error + instruction" where
  "decode_for_profile val profile =
     (case decode_any val of
        Inl e \<Rightarrow> Inl e
      | Inr i \<Rightarrow>
          if is_experimental (i_opcode i) \<and> profile = Production
          then Inl (ExperimentalOpcodeDisabled (i_opcode i) profile)
          else Inr i)"

definition decode_for_mainnet :: "u64 \<Rightarrow> mainnet_activation \<Rightarrow> decode_error + instruction" where
  "decode_for_mainnet val activation =
     (case decode_for_profile val Production of
        Inl e \<Rightarrow> Inl e
      | Inr i \<Rightarrow>
          if \<not> activation_allows activation (i_opcode i)
          then Inl (MainnetActivationRequired (i_opcode i))
          else Inr i)"

text \<open>
  \<open>decode\<close> outside the crate's own tests; \<open>experimental\<close> is the cargo feature of that name.
\<close>

definition isa_decode :: "bool \<Rightarrow> u64 \<Rightarrow> string + instruction" where
  "isa_decode experimental val =
     map_sum decode_error_display id
       (decode_for_profile val (if experimental then Experimental else Production))"

subsection \<open>The opcode table\<close>

lemma map_of_opcode_byte [simp]: "map_of opcode_table (opcode_byte opc) = Some opc"
  by (cases opc) (simp_all add: opcode_table_def)

lemma map_of_opcode_table_Some:
  "map_of opcode_table b = Some opc \<longleftrightarrow> b = opcode_byte opc"
proof
  assume "map_of opcode_table b = Some opc"
  then show "b = opcode_byte opc"
    by (auto simp: opcode_table_def split: if_splits)
qed simp

lemma opcode_byte_inj: "opcode_byte a = opcode_byte b \<longleftrightarrow> a = b"
  by (metis map_of_opcode_byte option.inject)

subsection \<open>Packing and unpacking\<close>

definition inst_fits :: "instruction \<Rightarrow> bool" where
  "inst_fits i = (i_rd i < 32 \<and> i_rs1 i < 32 \<and> i_rs2 i < 32)"

lemma bit_below_power:
  fixes w :: "'a::len word"
  assumes "bit w n" "unat w < 2 ^ k"
  shows "n < k"
proof (rule ccontr)
  assume "\<not> n < k"
  then have "(2::nat) ^ k \<le> 2 ^ n" by (simp add: power_increasing)
  then have "unat w < 2 ^ n" using assms(2) by (rule order.strict_trans2 [rotated])
  then have "unat w div 2 ^ n = 0" by (rule div_less)
  moreover have "bit (unat w) n"
    using assms(1) bit_imp_le_length [OF assms(1)] by (simp add: bit_unsigned_iff)
  ultimately show False by (simp add: bit_iff_odd)
qed

lemma bit_small_reg: "r < 32 \<Longrightarrow> bit (r :: u8) n \<Longrightarrow> n < 5"
  by (rule bit_below_power) (simp_all add: word_less_nat_alt)

lemma bit_opcode_byte: "bit (opcode_byte opc) n \<Longrightarrow> n < 6"
proof -
  have "unat (opcode_byte opc) < 2 ^ 6" by (cases opc) simp_all
  then show "bit (opcode_byte opc) n \<Longrightarrow> n < 6" by (rule bit_below_power [rotated])
qed

lemma bit_encode:
  assumes "inst_fits i"
  shows "bit (inst_encode i) n =
    (if n < 8 then bit (opcode_byte (i_opcode i)) n
     else if n < 13 then bit (i_rd i) (n - 8)
     else if n < 18 then bit (i_rs1 i) (n - 13)
     else if n < 23 then bit (i_rs2 i) (n - 18)
     else if n < 55 then bit (i_imm i) (n - 23) else False)"
  using assms bit_small_reg [of "i_rd i" "n - 8"] bit_small_reg [of "i_rs1 i" "n - 13"]
    bit_small_reg [of "i_rs2 i" "n - 18"] bit_opcode_byte [of "i_opcode i" n]
  by (auto simp: inst_encode_def inst_fits_def bit_or_iff bit_push_bit_iff bit_ucast_iff
      dest: bit_imp_le_length)

lemma mask_fields:
  "val AND 0xFF = take_bit 8 val" "v AND 0x1F = take_bit 5 v" "u AND 0xFFFFFFFF = take_bit 32 u"
  for val v u :: u64
  by (simp_all add: take_bit_eq_mask mask_numeral)

lemma decode_encode:
  assumes "inst_fits i"
  shows "decode_any (inst_encode i) = Inr i"
proof -
  have "(ucast (take_bit 8 (inst_encode i)) :: u8) = opcode_byte (i_opcode i)"
    by (rule bit_word_eqI) (auto simp: bit_ucast_iff bit_take_bit_iff bit_encode [OF assms])
  moreover have "ucast (take_bit 5 (drop_bit 8 (inst_encode i))) = i_rd i"
    using assms by (intro bit_word_eqI)
      (auto simp: bit_ucast_iff bit_take_bit_iff bit_drop_bit_eq bit_encode inst_fits_def dest: bit_small_reg)
  moreover have "ucast (take_bit 5 (drop_bit 13 (inst_encode i))) = i_rs1 i"
    using assms by (intro bit_word_eqI)
      (auto simp: bit_ucast_iff bit_take_bit_iff bit_drop_bit_eq bit_encode inst_fits_def dest: bit_small_reg)
  moreover have "ucast (take_bit 5 (drop_bit 18 (inst_encode i))) = i_rs2 i"
    using assms by (intro bit_word_eqI)
      (auto simp: bit_ucast_iff bit_take_bit_iff bit_drop_bit_eq bit_encode inst_fits_def dest: bit_small_reg)
  moreover have "ucast (take_bit 32 (drop_bit 23 (inst_encode i))) = i_imm i"
    using assms by (intro bit_word_eqI)
      (auto simp: bit_ucast_iff bit_take_bit_iff bit_drop_bit_eq bit_encode)
  ultimately show ?thesis by (simp add: decode_any_def mask_fields Let_def)
qed

lemma decode_fits: "decode_any val = Inr i \<Longrightarrow> inst_fits i"
proof -
  have "(ucast (take_bit 5 v) :: u8) < 32" for v :: u64
  proof -
    have "unat (take_bit 5 v) < 2 ^ 5" unfolding unsigned_take_bit_eq by (rule take_bit_nat_less_exp)
    then have "unat (ucast (take_bit 5 v) :: u8) < 32"
      by (simp add: unsigned_ucast_eq take_bit_nat_eq_self)
    then show ?thesis by (simp add: word_less_nat_alt)
  qed
  then show "decode_any val = Inr i \<Longrightarrow> inst_fits i"
    by (auto simp: decode_any_def mask_fields Let_def inst_fits_def split: option.splits)
qed

lemma encode_decode:
  assumes "decode_any val = Inr i"
  shows "inst_encode i = take_bit 55 val"
proof (rule bit_word_eqI)
  fix n
  have fits: "inst_fits i" using assms by (rule decode_fits)
  have opc: "opcode_byte (i_opcode i) = ucast (take_bit 8 val)"
    using assms by (auto simp: decode_any_def mask_fields Let_def map_of_opcode_table_Some split: option.splits)
  have parts: "i_rd i = ucast (take_bit 5 (drop_bit 8 val))" "i_rs1 i = ucast (take_bit 5 (drop_bit 13 val))"
    "i_rs2 i = ucast (take_bit 5 (drop_bit 18 val))" "i_imm i = ucast (take_bit 32 (drop_bit 23 val))"
    using assms by (auto simp: decode_any_def mask_fields Let_def split: option.splits)
  show "bit (inst_encode i) n = bit (take_bit 55 val) n" if "n < LENGTH(64)"
    unfolding bit_encode [OF fits]
    by (auto simp: opc parts bit_ucast_iff bit_take_bit_iff bit_drop_bit_eq)
qed

lemma decode_any_Inl:
  "decode_any val = Inl e \<longleftrightarrow>
     e = InvalidOpcodeByte (ucast (take_bit 8 val)) \<and> (\<forall>opc. ucast (take_bit 8 val) \<noteq> opcode_byte opc)"
proof -
  have "map_of opcode_table b = None \<longleftrightarrow> (\<forall>opc. b \<noteq> opcode_byte opc)" for b
    by (metis map_of_opcode_table_Some not_None_eq)
  then show ?thesis
    by (auto simp: decode_any_def mask_fields Let_def map_of_opcode_table_Some split: option.splits)
qed

subsection \<open>The gates\<close>

lemma decode_for_profile_any [simp]: "decode_for_profile val p = decode_any val"
  by (simp add: decode_for_profile_def is_experimental_def split: sum.splits)

lemma isa_decode_any: "isa_decode e val = map_sum decode_error_display id (decode_any val)"
  by (simp add: isa_decode_def)

lemma allows_default:
  "activation_allows activation_default opc \<longleftrightarrow> opc \<noteq> Op_VerifyMerkle \<and> opc \<noteq> Op_VerifyInference"
  by (cases opc) (simp_all add: activation_allows_def requires_mainnet_activation_def activation_default_def)

lemma allows_full: "activation_allows activation_full opc"
  by (cases opc) (simp_all add: activation_allows_def requires_mainnet_activation_def activation_full_def)

lemma decode_for_mainnet_Inr:
  "decode_for_mainnet val act = Inr i \<longleftrightarrow> decode_any val = Inr i \<and> activation_allows act (i_opcode i)"
  by (auto simp: decode_for_mainnet_def split: sum.splits)

end
