(* ===== verification/Goldilocks.thy ===== *)
theory Goldilocks
  imports Budlum_Prelude
begin

text \<open>
  The Goldilocks field arithmetic of \<^verbatim>\<open>budzero/bud-vm/src/lib.rs\<close>: addition,
  subtraction, multiplication and the inverse by square and multiply. The lemmas read each
  routine as arithmetic modulo \<open>P = 2^64 - 2^32 + 1\<close> and show that the inverse is one.
  That needs no theory of primes: 7 has order \<open>P - 1\<close>, so its powers are all the
  residues but zero, and every one of them is a unit.
\<close>

unbundle bit_operations_syntax

definition GOLDILOCKS_P :: u64 where
  "GOLDILOCKS_P = 18446744069414584321"

definition field_add_goldilocks :: "u64 \<Rightarrow> u64 \<Rightarrow> u64" where
  "field_add_goldilocks a b = ucast ((ucast a + ucast b) mod (ucast GOLDILOCKS_P :: u128))"

definition field_sub_goldilocks :: "u64 \<Rightarrow> u64 \<Rightarrow> u64" where
  "field_sub_goldilocks a b =
     ucast ((ucast a + ucast GOLDILOCKS_P - ucast b mod ucast GOLDILOCKS_P) mod (ucast GOLDILOCKS_P :: u128))"

definition field_mul_goldilocks :: "u64 \<Rightarrow> u64 \<Rightarrow> u64" where
  "field_mul_goldilocks a b = ucast ((ucast a * ucast b) mod (ucast GOLDILOCKS_P :: u128))"

text \<open>The loop of \<open>field_inverse_goldilocks\<close> over \<open>exp\<close>, \<open>base\<close> and \<open>res\<close>.\<close>

function inverse_loop :: "u64 \<Rightarrow> u128 \<Rightarrow> u128 \<Rightarrow> u128" where
  "inverse_loop exp base res =
     (if exp > 0 then
        inverse_loop (drop_bit 1 exp) ((base * base) mod ucast GOLDILOCKS_P)
          (if exp AND 1 = 1 then (res * base) mod ucast GOLDILOCKS_P else res)
      else res)"
  by auto
termination
  by (relation "measure (\<lambda>(exp, base, res). unat exp)")
    (auto simp: drop_bit_eq_div unat_div_distrib unat_gt_0 word_gt_0 intro!: div_less_dividend)

declare inverse_loop.simps [simp del]

definition field_inverse_goldilocks :: "u64 \<Rightarrow> u64" where
  "field_inverse_goldilocks val =
     (if val = 0 then 0 else ucast (inverse_loop (GOLDILOCKS_P - 2) (ucast val) 1))"

subsection \<open>The modulus\<close>

definition gp :: nat where
  "gp = 18446744069414584321"

lemma unat_P [simp]: "unat GOLDILOCKS_P = gp"
  by (simp add: GOLDILOCKS_P_def gp_def)

lemma unat_P128 [simp]: "unat (ucast GOLDILOCKS_P :: u128) = gp"
  by (simp add: unat_ucast_up)

lemma gp_bounds: "1 < gp" "gp < 2 ^ 64"
  by (simp_all add: gp_def)

lemma gp_pos [simp]: "0 < gp"
  by (simp add: gp_def)

lemma mod_gp_lt64: "n mod gp < 2 ^ 64"
  using gp_bounds(2) by (meson gp_pos less_trans mod_less_divisor)

lemma unat_ucast_mod_P: "unat (ucast (w mod ucast GOLDILOCKS_P :: u128) :: u64) = unat w mod gp"
proof -
  have "unat (w mod ucast GOLDILOCKS_P :: u128) = unat w mod gp" by (simp add: unat_mod_distrib)
  then show ?thesis
    using mod_gp_lt64 [of "unat w"] by (simp add: unsigned_ucast_eq take_bit_nat_eq_self)
qed

lemma unat_field_add: "unat (field_add_goldilocks a b) = (unat a + unat b) mod gp"
proof -
  have "unat (ucast a + ucast b :: u128) = unat a + unat b"
    using unat_lt64 [of a] unat_lt64 [of b] by (simp add: unat_word_ariths unat_ucast_up)
  then show ?thesis by (simp add: field_add_goldilocks_def unat_ucast_mod_P)
qed

lemma unat_field_mul: "unat (field_mul_goldilocks a b) = (unat a * unat b) mod gp"
  by (simp add: field_mul_goldilocks_def unat_ucast_mod_P unat_mul_ucast)

lemma unat_field_sub:
  "int (unat (field_sub_goldilocks a b)) = (int (unat a) - int (unat b)) mod int gp"
proof -
  have m: "unat (ucast b mod ucast GOLDILOCKS_P :: u128) = unat b mod gp"
    by (simp add: unat_mod_distrib unat_ucast_up)
  have lt: "unat b mod gp < gp" by simp
  have "unat (ucast a + ucast GOLDILOCKS_P :: u128) = unat a + gp"
    using unat_lt64 [of a] gp_bounds(2) by (simp add: unat_word_ariths unat_ucast_up)
  then have "unat (ucast a + ucast GOLDILOCKS_P - ucast b mod ucast GOLDILOCKS_P :: u128)
      = unat a + gp - unat b mod gp"
    using m lt by (subst unat_sub) (simp_all add: word_le_nat_alt del: mod_less_divisor)
  then have u: "unat (field_sub_goldilocks a b) = (unat a + gp - unat b mod gp) mod gp"
    by (simp add: field_sub_goldilocks_def unat_ucast_mod_P)
  have "int (unat a + gp - unat b mod gp) = int (unat a) + int gp - int (unat b mod gp)"
    using lt by linarith
  then have "int (unat (field_sub_goldilocks a b)) = (int (unat a) + int gp - int (unat b) mod int gp) mod int gp"
    unfolding u of_nat_mod by (simp only: of_nat_mod)
  also have "\<dots> = (int (unat a) - int (unat b) + int gp) mod int gp"
    unfolding mod_diff_right_eq by (rule arg_cong [where f = "\<lambda>x. x mod int gp"]) simp
  also have "\<dots> = (int (unat a) - int (unat b)) mod int gp"
    by (rule mod_add_self2)
  finally show ?thesis .
qed

subsection \<open>Powers modulo the modulus\<close>

abbreviation gi :: int where
  "gi \<equiv> int gp"

definition mul_mod :: "int \<Rightarrow> int \<Rightarrow> int" where
  "mul_mod x y = x * y mod 18446744069414584321"

definition sqr_mod :: "int \<Rightarrow> int" where
  "sqr_mod x = mul_mod x x"

fun pow_mod :: "num \<Rightarrow> int \<Rightarrow> int" where
  "pow_mod num.One b = b"
| "pow_mod (num.Bit0 n) b = sqr_mod (pow_mod n b)"
| "pow_mod (num.Bit1 n) b = mul_mod (sqr_mod (pow_mod n b)) b"

lemma mul_mod: "mul_mod x y mod gi = x * y mod gi"
  by (simp add: mul_mod_def gp_def)

lemma sqr_mod: "sqr_mod x mod gi = x * x mod gi"
  by (simp add: sqr_mod_def mul_mod)

lemma pow_mod: "b ^ numeral n mod gi = pow_mod n b mod gi"
proof (induction n)
  case One
  then show ?case by simp
next
  case (Bit0 n)
  have "b ^ numeral (num.Bit0 n) = b ^ numeral n * b ^ numeral n"
    by (simp only: numeral_Bit0 power_add)
  then have "b ^ numeral (num.Bit0 n) mod gi = pow_mod n b * pow_mod n b mod gi"
    by (metis Bit0.IH mod_mult_eq)
  then show ?case by (simp only: pow_mod.simps sqr_mod)
next
  case (Bit1 n)
  have "b ^ numeral (num.Bit1 n) = b ^ numeral n * b ^ numeral n * b"
    by (simp only: numeral_Bit1 power_add power_one_right)
  then have "b ^ numeral (num.Bit1 n) mod gi = (pow_mod n b * pow_mod n b mod gi) * b mod gi"
    by (metis Bit1.IH mod_mult_eq mod_mult_left_eq)
  then show ?case by (simp only: pow_mod.simps mul_mod sqr_mod [symmetric] mod_mult_left_eq)
qed

subsection \<open>Orders\<close>

definition has_order :: "int \<Rightarrow> nat \<Rightarrow> bool" where
  "has_order w m = (\<forall>k. w ^ k mod gi = 1 \<longleftrightarrow> m dvd k)"

lemma gi_1: "1 mod gi = 1" "0 mod gi \<noteq> 1"
  using gp_bounds by auto

lemma pow_one_mult: "w ^ m mod gi = 1 \<Longrightarrow> w ^ (m * t) mod gi = 1"
  by (metis gi_1(1) power_mod power_mult power_one)

lemma pow_one_add: "w ^ m mod gi = 1 \<Longrightarrow> w ^ (m + t) mod gi = w ^ t mod gi"
  by (metis mod_mult_left_eq mult_1 power_add)

lemma small_prime:
  assumes "list_all (\<lambda>d. q mod d \<noteq> 0) [2..<r]" "q < r * r" "1 < q" "d dvd q"
  shows "d = 1 \<or> d = (q::nat)"
proof (rule ccontr)
  assume other: "\<not> (d = 1 \<or> d = q)"
  have none: "\<not> c dvd q" if "1 < c" "c < r" for c
    using assms(1) that by (auto simp: list_all_iff dvd_eq_mod_eq_0)
  obtain e where e: "q = d * e" using assms(4) by blast
  have "1 < d" "1 < e" using other e assms(3) by (cases d; cases e; auto)+
  moreover have "d < r \<or> e < r"
  proof (rule ccontr)
    assume "\<not> (d < r \<or> e < r)"
    then have "r * r \<le> d * e" by (intro mult_mono) auto
    then show False using assms(2) e by simp
  qed
  ultimately show False using none [of d] none [of e] e by auto
qed

lemma order_prime:
  assumes one: "w ^ q mod gi = 1" and "w mod gi \<noteq> 1" and prime: "\<And>d. d dvd q \<Longrightarrow> d = 1 \<or> d = q"
  shows "has_order w q"
  unfolding has_order_def
proof (intro allI iffI)
  fix k assume k: "w ^ k mod gi = 1"
  show "q dvd k"
  proof (rule ccontr)
    assume ndvd: "\<not> q dvd k"
    then have "k \<noteq> 0" by (metis dvd_0_right)
    have "gcd k q = 1" using prime [of "gcd k q"] ndvd by (metis gcd_dvd1 gcd_dvd2)
    then obtain x y where xy: "k * x = q * y + 1" using bezout_nat [OF \<open>k \<noteq> 0\<close>, of q] by auto
    have "w ^ (q * y + 1) mod gi = 1" using pow_one_mult [OF k, of x] by (simp add: xy)
    then show False using pow_one_add [OF pow_one_mult [OF one, of y], of 1] assms(2) by simp
  qed
next
  fix k assume "q dvd k"
  then show "w ^ k mod gi = 1" using pow_one_mult [OF one] by (metis dvdE)
qed

lemma order_two_power:
  assumes "w ^ (2 ^ Suc n) mod gi = 1" "w ^ (2 ^ n) mod gi \<noteq> 1"
  shows "has_order w (2 ^ Suc n)"
  using assms
proof (induction n arbitrary: w)
  case 0
  then show ?case using small_prime [of 2 2] by (intro order_prime) simp_all
next
  case (Suc n)
  have "(w\<^sup>2) ^ (2 ^ Suc n) mod gi = 1" "(w\<^sup>2) ^ (2 ^ n) mod gi \<noteq> 1"
    using Suc.prems by (simp_all add: power_mult [symmetric])
  then have ord2: "has_order (w\<^sup>2) (2 ^ Suc n)" by (rule Suc.IH)
  show ?case
    unfolding has_order_def
  proof (intro allI iffI)
    fix k assume k: "w ^ k mod gi = 1"
    then have "(w\<^sup>2) ^ k mod gi = 1" using pow_one_mult [OF k, of 2] by (simp add: power_mult [symmetric] mult.commute)
    then have "2 ^ Suc n dvd k" using ord2 by (simp add: has_order_def)
    then obtain t where t: "k = 2 ^ Suc n * t" by blast
    have "even t"
    proof (rule ccontr)
      assume "odd t"
      then obtain r where "t = 2 * r + 1" by (metis oddE)
      then have "k = 2 ^ Suc (Suc n) * r + 2 ^ Suc n" by (simp add: t algebra_simps)
      then have "w ^ (2 ^ Suc n) mod gi = 1"
        using k pow_one_add [OF pow_one_mult [OF Suc.prems(1), of r], of "2 ^ Suc n"] by (metis)
      then show False using Suc.prems(2) by simp
    qed
    then show "2 ^ Suc (Suc n) dvd k" by (auto simp: t elim!: evenE)
  next
    fix k :: nat assume "2 ^ Suc (Suc n) dvd k"
    then show "w ^ k mod gi = 1" using pow_one_mult [OF Suc.prems(1)] by (metis dvdE)
  qed
qed

lemma order_mult:
  assumes v: "has_order v m" and w: "has_order w n" and "coprime m n"
  shows "has_order (v * w) (m * n)"
  unfolding has_order_def
proof (intro allI iffI)
  fix k assume k: "(v * w) ^ k mod gi = 1"
  have "v ^ (k * n) mod gi = 1"
  proof -
    have "w ^ (k * n) mod gi = 1" using w by (simp add: has_order_def)
    then have "v ^ (k * n) mod gi = (v * w) ^ (k * n) mod gi"
      by (metis mod_mult_right_eq mult.right_neutral power_mult_distrib)
    then show ?thesis using pow_one_mult [OF k, of n] by simp
  qed
  moreover have "w ^ (k * m) mod gi = 1"
  proof -
    have "v ^ (k * m) mod gi = 1" using v by (simp add: has_order_def)
    then have "w ^ (k * m) mod gi = (v * w) ^ (k * m) mod gi"
      by (metis mod_mult_left_eq mult_1 power_mult_distrib)
    then show ?thesis using pow_one_mult [OF k, of m] by simp
  qed
  ultimately have "m dvd k * n" "n dvd k * m" using v w by (auto simp: has_order_def)
  then have "m dvd k" "n dvd k"
    using \<open>coprime m n\<close> by (auto simp: coprime_dvd_mult_left_iff coprime_commute)
  then show "m * n dvd k" using \<open>coprime m n\<close> by (rule divides_mult)
next
  fix k assume "m * n dvd k"
  then have "v ^ k mod gi = 1" "w ^ k mod gi = 1"
    using v w by (auto simp: has_order_def elim: dvd_mult_left dvd_mult_right)
  then show "(v * w) ^ k mod gi = 1"
    by (metis mod_mult_eq mult_1 gi_1(1) power_mult_distrib)
qed

definition go :: nat where
  "go = gp - 1"

lemma go_num: "go = 18446744069414584320"
  by (simp add: go_def gp_def)

lemma gp_go: "gp = Suc go"
  by (simp add: go_num gp_def)

lemma go_pos [simp]: "0 < go"
  by (simp add: go_num)

text \<open>One element for each prime power of \<open>P - 1 = 2^32 \<cdot> 3 \<cdot> 5 \<cdot> 17 \<cdot> 257 \<cdot> 65537\<close>.\<close>

lemma order_3: "has_order 18446744065119617025 3"
proof (rule order_prime)
  have "pow_mod (num.Bit1 num.One) 18446744065119617025 = 1" by code_simp
  then show "18446744065119617025 ^ 3 mod gi = 1" unfolding pow_mod by (simp add: gi_1)
  show "18446744065119617025 mod gi \<noteq> 1" by (simp add: gp_def)
  show "d = 1 \<or> d = 3" if "d dvd 3" for d :: nat
    using small_prime [of 3 2 d] that by simp
qed

lemma order_5: "has_order 1373043270956696022 5"
proof (rule order_prime)
  have "pow_mod (num.Bit1 (num.Bit0 num.One)) 1373043270956696022 = 1" by code_simp
  then show "1373043270956696022 ^ 5 mod gi = 1" unfolding pow_mod by (simp add: gi_1)
  show "1373043270956696022 mod gi \<noteq> 1" by (simp add: gp_def)
  show "d = 1 \<or> d = 5" if "d dvd 5" for d :: nat
    using small_prime [of 5 3 d] that by (simp add: upt_rec)
qed

lemma order_17: "has_order 16301593560560007290 17"
proof (rule order_prime)
  have "pow_mod (num.Bit1 (num.Bit0 (num.Bit0 (num.Bit0 num.One)))) 16301593560560007290 = 1" by code_simp
  then show "16301593560560007290 ^ 17 mod gi = 1" unfolding pow_mod by (simp add: gi_1)
  show "16301593560560007290 mod gi \<noteq> 1" by (simp add: gp_def)
  show "d = 1 \<or> d = 17" if "d dvd 17" for d :: nat
    using small_prime [of 17 5 d] that by (simp add: upt_rec)
qed

lemma order_257: "has_order 995085315851368103 257"
proof (rule order_prime)
  have "pow_mod (num.Bit1 (num.Bit0 (num.Bit0 (num.Bit0 (num.Bit0 (num.Bit0 (num.Bit0 (num.Bit0 num.One))))))))
      995085315851368103 = 1" by code_simp
  then show "995085315851368103 ^ 257 mod gi = 1" unfolding pow_mod by (simp add: gi_1)
  show "995085315851368103 mod gi \<noteq> 1" by (simp add: gp_def)
  show "d = 1 \<or> d = 257" if "d dvd 257" for d :: nat
    using small_prime [of 257 17 d] that by (simp add: upt_rec)
qed

lemma trial_65537: "list_all (\<lambda>d. 65537 mod d \<noteq> (0::nat)) [2..<257]"
  by (simp add: upt_rec)

lemma order_65537: "has_order 8478886009461009681 65537"
proof (rule order_prime)
  have "pow_mod (num.Bit1 (num.Bit0 (num.Bit0 (num.Bit0 (num.Bit0 (num.Bit0 (num.Bit0 (num.Bit0
      (num.Bit0 (num.Bit0 (num.Bit0 (num.Bit0 (num.Bit0 (num.Bit0 (num.Bit0 (num.Bit0 num.One))))))))))))))))
      8478886009461009681 = 1" by code_simp
  then show "8478886009461009681 ^ 65537 mod gi = 1" unfolding pow_mod by (simp add: gi_1)
  show "8478886009461009681 mod gi \<noteq> 1" by (simp add: gp_def)
  show "d = 1 \<or> d = 65537" if "d dvd 65537" for d :: nat
    by (rule small_prime [OF trial_65537 _ _ that]) simp_all
qed

primrec sqr_times :: "nat \<Rightarrow> int \<Rightarrow> int" where
  "sqr_times 0 w = w"
| "sqr_times (Suc n) w = sqr_mod (sqr_times n w)"

lemma sqr_times: "w ^ (2 ^ n) mod gi = sqr_times n w mod gi"
proof (induction n)
  case (Suc n)
  have "w ^ (2 ^ Suc n) = w ^ (2 ^ n) * w ^ (2 ^ n)" by (simp add: power_add [symmetric] mult_2)
  then have "w ^ (2 ^ Suc n) mod gi = sqr_times n w * sqr_times n w mod gi"
    using Suc.IH by (metis mod_mult_eq)
  then show ?case by (simp only: sqr_times.simps sqr_mod)
qed simp

lemma order_2_steps: "sqr_times 31 1753635133440165772 = 18446744069414584320"
  by code_simp

lemma order_2: "has_order 1753635133440165772 (2 ^ Suc 31)"
proof (rule order_two_power)
  have "sqr_times (Suc 31) 1753635133440165772 = sqr_mod 18446744069414584320"
    by (simp only: sqr_times.simps order_2_steps)
  also have "\<dots> = 1" by code_simp
  finally have "sqr_times (Suc 31) 1753635133440165772 mod gi = 1" by (simp only: gi_1)
  then show "1753635133440165772 ^ (2 ^ Suc 31) mod gi = 1" by (simp only: sqr_times)
  have "sqr_times 31 1753635133440165772 mod gi \<noteq> 1" unfolding order_2_steps by (simp add: gp_def)
  then show "1753635133440165772 ^ (2 ^ 31) mod gi \<noteq> 1" by (simp only: sqr_times not_False_eq_True)
qed

lemma generator: obtains g where "has_order g go"
proof
  have eq: "go = 2 ^ Suc 31 * 3 * 5 * 17 * 257 * 65537" by (simp add: go_num)
  show "has_order (1753635133440165772 * 18446744065119617025 * 1373043270956696022
      * 16301593560560007290 * 995085315851368103 * 8478886009461009681) go"
    unfolding eq
    by (intro order_mult order_2 order_3 order_5 order_17 order_257 order_65537;
      simp add: coprime_iff_gcd_eq_1 gcd_non_0_nat)
qed

subsection \<open>Every residue but zero is a unit\<close>

lemma order_powers_distinct:
  assumes g: "has_order g go" and eq: "g ^ i mod gi = g ^ j mod gi" and "i \<le> j" "j < go"
  shows "i = j"
proof -
  have one: "g ^ go mod gi = 1" using g by (simp add: has_order_def)
  have le: "i \<le> go * i" using go_pos by (cases go) auto
  have "g ^ (j - i) mod gi = g ^ (go * i + (j - i)) mod gi"
    using pow_one_add [OF pow_one_mult [OF one]] by (rule sym)
  also have "go * i + (j - i) = j + (go * i - i)" using le \<open>i \<le> j\<close> by linarith
  also have "g ^ (j + (go * i - i)) mod gi = g ^ (i + (go * i - i)) mod gi"
    using eq by (metis mod_mult_left_eq power_add)
  also have "\<dots> = 1" using le pow_one_mult [OF one, of i] by simp
  finally have "go dvd j - i" using g by (simp add: has_order_def)
  then show ?thesis using \<open>j < go\<close> \<open>i \<le> j\<close> by (auto dest: dvd_imp_le)
qed

lemma order_powers_cover:
  assumes g: "has_order g go" and "0 < x" "x < gi"
  shows "\<exists>i. x = g ^ i mod gi"
proof -
  let ?f = "\<lambda>i. g ^ i mod gi"
  have one: "g ^ go mod gi = 1" using g by (simp add: has_order_def)
  have "inj_on ?f {..<go}"
  proof (rule inj_onI)
    fix i j assume "i \<in> {..<go}" "j \<in> {..<go}" "?f i = ?f j"
    then show "i = j"
      using order_powers_distinct [OF g, of i j] order_powers_distinct [OF g, of j i]
      by (cases "i \<le> j") auto
  qed
  then have "card (?f ` {..<go}) = go" by (simp add: card_image)
  moreover have "?f ` {..<go} \<subseteq> {1..<gi}"
  proof
    fix y assume "y \<in> ?f ` {..<go}"
    then obtain i where i: "i < go" "y = ?f i" by blast
    have "y \<noteq> 0"
    proof
      assume "y = 0"
      then have "g ^ i * g ^ (go - i) mod gi = 0" using i(2) by (metis mod_0 mod_mult_left_eq mult_zero_left)
      then show False using one i(1) by (simp add: power_add [symmetric])
    qed
    moreover have "0 \<le> y" "y < gi" using i(2) by simp_all
    ultimately show "y \<in> {1..<gi}" by simp
  qed
  moreover have "card {1..<gi} = go" by (simp add: gp_go)
  ultimately have "?f ` {..<go} = {1..<gi}" by (intro card_subset_eq) simp_all
  then have "x \<in> ?f ` {..<go}" using assms by simp
  then show ?thesis by (rule imageE) (rule exI)
qed

lemma unit_power: "x mod gi \<noteq> 0 \<Longrightarrow> x ^ go mod gi = 1"
proof -
  assume x: "x mod gi \<noteq> 0"
  obtain g where g: "has_order g go" by (rule generator)
  have "0 \<le> x mod gi" and lt: "x mod gi < gi" by simp_all
  with x have "0 < x mod gi" by linarith
  from order_powers_cover [OF g this lt] obtain i where i: "x mod gi = g ^ i mod gi" by (rule exE)
  have "x ^ go mod gi = (g ^ i mod gi) ^ go mod gi" by (simp only: i [symmetric] power_mod)
  also have "\<dots> = g ^ (i * go) mod gi" by (simp only: power_mod power_mult)
  finally have "x ^ go mod gi = g ^ (i * go) mod gi" .
  then show ?thesis using g by (simp add: has_order_def)
qed

subsection \<open>The inverse\<close>

lemma unat_mul128: "unat a < 2 ^ 64 \<Longrightarrow> unat b < 2 ^ 64 \<Longrightarrow> unat (a * b :: u128) = unat a * unat b"
proof -
  assume "unat a < 2 ^ 64" "unat b < 2 ^ 64"
  then have "unat a * unat b < 2 ^ 64 * 2 ^ 64" by (intro mult_strict_mono) auto
  then show ?thesis by (simp add: unat_word_ariths)
qed

lemma odd_unat: "e AND 1 = 1 \<longleftrightarrow> odd (unat e)" for e :: u64
  by (simp add: and_one_eq word_unat_eq_iff unat_mod_distrib odd_iff_mod_2_eq_one)

lemma power_halve: "b ^ e = (b * b) ^ (e div 2) * (if odd e then b else 1)" for b :: nat
proof -
  have "b ^ e = b ^ (2 * (e div 2) + e mod 2)" by simp
  then show ?thesis
    by (simp only: power_add power_mult power2_eq_square) (auto simp: odd_iff_mod_2_eq_one)
qed

lemma mod_power_product: "(a mod m * (b mod m) ^ k) mod m = a * b ^ k mod m" for a b m :: nat
proof -
  have "(a mod m * (b mod m) ^ k) mod m = (a * ((b mod m) ^ k mod m)) mod m"
    by (simp only: mod_mult_left_eq mod_mult_right_eq)
  then show ?thesis by (simp only: power_mod mod_mult_right_eq)
qed

lemma unat_inverse_loop:
  "unat r < gp \<Longrightarrow> unat b < 2 ^ 64 \<Longrightarrow> unat (inverse_loop e b r) = (unat r * unat b ^ unat e) mod gp"
proof (induction e b r rule: inverse_loop.induct)
  case (1 e b r)
  have r64: "unat r < 2 ^ 64" using "1.prems"(1) gp_bounds by linarith
  show ?case
  proof (cases "e > 0")
    case False
    then show ?thesis using "1.prems"(1) by (subst inverse_loop.simps) (simp add: word_gt_0)
  next
    case True
    let ?r = "if e AND 1 = 1 then (r * b) mod ucast GOLDILOCKS_P else r"
    have ub: "unat ((b * b) mod ucast GOLDILOCKS_P) = unat b * unat b mod gp"
      using "1.prems"(2) by (simp add: unat_mod_distrib unat_mul128)
    have ur: "unat ?r = (unat r * (if odd (unat e) then unat b else 1)) mod gp"
      using "1.prems" r64 by (simp add: odd_unat unat_mod_distrib unat_mul128)
    have ue: "unat (drop_bit 1 e) = unat e div 2"
      by (simp add: drop_bit_eq_div unat_div_distrib)
    have "unat (inverse_loop e b r)
        = (unat r * (if odd (unat e) then unat b else 1) mod gp * (unat b * unat b mod gp) ^ (unat e div 2)) mod gp"
      using "1.IH" [OF True] ub ur ue True mod_gp_lt64
      by (subst inverse_loop.simps) simp
    also have "\<dots> = (unat r * (if odd (unat e) then unat b else 1) * (unat b * unat b) ^ (unat e div 2)) mod gp"
      by (rule mod_power_product)
    also have "\<dots> = (unat r * unat b ^ unat e) mod gp"
      unfolding power_halve [of "unat b" "unat e"] by (simp only: mult_ac)
    finally show ?thesis .
  qed
qed

lemma unat_field_inverse:
  assumes "v \<noteq> 0"
  shows "unat (field_inverse_goldilocks v) = unat v ^ (go - 1) mod gp"
proof -
  have e: "unat (GOLDILOCKS_P - 2) = go - 1"
    by (simp add: GOLDILOCKS_P_def go_num)
  have "unat (inverse_loop (GOLDILOCKS_P - 2) (ucast v) 1) = unat v ^ (go - 1) mod gp"
    using unat_inverse_loop [of 1 "ucast v" "GOLDILOCKS_P - 2"] unat_lt64 [of v] gp_bounds
    by (simp only: e) (simp add: unat_ucast_up)
  then show ?thesis
    using assms mod_gp_lt64 by (simp add: field_inverse_goldilocks_def unsigned_ucast_eq take_bit_nat_eq_self)
qed

lemma unit_power_nat: "x mod gp \<noteq> 0 \<Longrightarrow> x ^ go mod gp = 1"
proof -
  assume "x mod gp \<noteq> 0"
  then have "int x mod gi \<noteq> 0" by (metis of_nat_0_eq_iff zmod_int)
  then have "int x ^ go mod gi = 1" by (rule unit_power)
  then have "int (x ^ go mod gp) = int 1" by (simp only: of_nat_mod of_nat_power of_nat_1)
  then show ?thesis by (simp only: of_nat_eq_iff)
qed

lemma field_inverse_unit:
  assumes "unat v mod gp \<noteq> 0"
  shows "field_mul_goldilocks v (field_inverse_goldilocks v) = 1"
proof -
  have "v \<noteq> 0" using assms by auto
  have "unat v * unat v ^ (go - 1) = unat v ^ go" by (metis go_pos power_eq_if not_gr_zero)
  then have "unat v * unat (field_inverse_goldilocks v) mod gp = 1"
    using unit_power_nat [OF assms] by (simp add: unat_field_inverse [OF \<open>v \<noteq> 0\<close>] mod_mult_right_eq)
  then show ?thesis by (simp add: word_unat_eq_iff unat_field_mul)
qed

text \<open>The residues as machine words: every result of the field routines is one.\<close>

definition canonical :: "u64 \<Rightarrow> bool" where
  "canonical x = (x < GOLDILOCKS_P)"

lemma canonical_unat: "canonical x \<longleftrightarrow> unat x < gp"
  by (simp add: canonical_def word_less_nat_alt)

lemma canonical_mod: "unat x = n mod gp \<Longrightarrow> canonical x"
  by (simp add: canonical_unat)

lemma canonical_ops [simp]:
  "canonical (field_add_goldilocks a b)" "canonical (field_mul_goldilocks a b)" "canonical 0" "canonical 1"
  by (rule canonical_mod [OF unat_field_add], rule canonical_mod [OF unat_field_mul])
    (simp_all add: canonical_def GOLDILOCKS_P_def)

lemma canonical_sub [simp]: "canonical (field_sub_goldilocks a b)"
proof -
  have "int (unat (field_sub_goldilocks a b)) < gi" unfolding unat_field_sub by simp
  then show ?thesis by (simp only: canonical_unat of_nat_less_iff)
qed

lemma canonical_inverse [simp]: "canonical (field_inverse_goldilocks v)"
proof (cases "v = 0")
  case False
  then show ?thesis by (rule canonical_mod [OF unat_field_inverse])
qed (simp add: field_inverse_goldilocks_def)

end
