(* ===== verification/Poseidon.thy ===== *)
theory Poseidon
  imports Goldilocks
begin

text \<open>
  The Poseidon permutation of \<^verbatim>\<open>budzero/bud-vm/src/lib.rs\<close>: the MDS matrix and
  the round constants, the 30 rounds, the hashes built on them and the single round the
  Merkle opcode uses. The lemmas show that the 30 rounds are a permutation of the
  canonical states, lane by lane: the S-box has an inverse because 7 does modulo
  \<open>P - 1\<close>, and the matrix has one modulo \<open>P\<close>.
\<close>

definition DOMAIN_NULLIFIER :: u64 where
  "DOMAIN_NULLIFIER = 0x4E554C4C49464552"

definition POSEIDON_MDS :: "u64 list list" where
  "POSEIDON_MDS =
    [[7, 1, 3, 8, 8, 3, 4, 9],
     [9, 7, 1, 3, 8, 8, 3, 4],
     [4, 9, 7, 1, 3, 8, 8, 3],
     [3, 4, 9, 7, 1, 3, 8, 8],
     [8, 3, 4, 9, 7, 1, 3, 8],
     [8, 8, 3, 4, 9, 7, 1, 3],
     [3, 8, 8, 3, 4, 9, 7, 1],
     [1, 3, 8, 8, 3, 4, 9, 7]]"

definition POSEIDON_RC_FULL :: "u64 list list" where
  "POSEIDON_RC_FULL =
    [ [0xDD5743E7F2A5A5D9, 0xCB3A864E58ADA44B, 0xFFA2449ED32F8CDC, 0x42025F65D6BD13EE,
      0x7889175E25506323, 0x34B98BB03D24B737, 0xBDCC535ECC4FAA2A, 0x5B20AD869FC0D033],
      [0xF1DDA5B9259DFCB4, 0x27515210BE112D59, 0x4227D1718C766C3F, 0x26D333161A5BD794,
      0x49B938957BF4B026, 0x4A56B5938B213669, 0x1120426B48C8353D, 0x6B323C3F10A56CAD],
      [0xCE57D6245DDCA6B2, 0xB1FC8D402BBA1EB1, 0xB5C5096CA959BD04, 0x6DB55CD306D31F7F,
      0xC49D293A81CB9641, 0x1CE55A4FE979719F, 0xA92E60A9D178A4D1, 0x002CC64973BCFD8C],
      [0xCEA721CCE82FB11B, 0xE5B55EB8098ECE81, 0x4E30525C6F1DDD66, 0x43C6702827070987,
      0xACA68430A7B5762A, 0x3674238634DF9C93, 0x88CEE1C825E33433, 0xDE99AE8D74B57176],
      [0x488897D85FF51F56, 0x1140737CCB162218, 0xA7EEB9215866ED35, 0x9BD2976FEE49FCC9,
      0xC0C8F0DE580A3FCC, 0x4FB2DAE6EE8FC793, 0x343A89F35F37395B, 0x223B525A77CA72C8],
      [0x56CCB62574AAA918, 0xC4D507D8027AF9ED, 0xA080673CF0B7E95C, 0xF0184884EB70DCF8,
      0x044F10B0CB3D5C69, 0xE9E3F7993938F186, 0x1B761C80E772F459, 0x606CEC607A1B5FAC],
      [0x14A0C2E1D45F03CD, 0x4EACE8855398574F, 0xF905CA7103EFF3E6, 0xF8C8F8D20862C059,
      0xB524FE8BDD678E5A, 0xFBB7865901A1EC41, 0x014EF1197D341346, 0x9725E20825D07394],
      [0xFDB25AEF2C5BAE3B, 0xBE5402DC598C971E, 0x93A5711F04CDCA3D, 0xC45A9A5B2F8FB97B,
      0xFE8946A924933545, 0x2AF997A27369091C, 0xAA62C88E0B294011, 0x058EB9D810CE9F74],
      [0xB3CB23ECED349AE4, 0xA3648177A77B4A84, 0x43153D905992D95D, 0xF4E2A97CDA44AA4B,
      0x5BAA2702B908682F, 0x082923BDF4F750D1, 0x98AE09A325893803, 0xF8A6475077968838],
      [0xCEB0735BF00B2C5F, 0x0A1A5D953888E072, 0x2FCB190489F94475, 0xB5BE06270DEC69FC,
      0x739CB934B09ACF8B, 0x537750B75EC7F25B, 0xE9DD318BAE1F3961, 0xF7462137299EFE1A],
      [0xB1F6B8EEE9ADB940, 0xBDEBCC8A809DFE6B, 0x40FC1F791B178113, 0x3AC1C3362D014864,
      0x9A016184BDB8AEBA, 0x95F2394459FBC25E, 0xE3F34A07A76A66C2, 0x8DF25F9AD98B1B96],
      [0x85FFC27171439D9D, 0xDDCB9A2DCFD26910, 0x26B5BA4BF3AFB94E, 0xFFFF9CC7C7651E2F,
      0x8C88364698280B55, 0xEBC114167B910501, 0x2D77B4D89ECFB516, 0x332E0828EBA151F2],
      [0x46FA6A6450DD4735, 0xD00DB7DD92384A33, 0x5FD4FB751F3A5FC5, 0x496FB90C0BB65EA2,
      0xF3BAEC0BB87CC5C7, 0x862A3C0A7D4C7713, 0xBF5F38336A3F47D8, 0x41AD9DBC1394A20C],
      [0xCC535945B7DBF0F7, 0x82AF2BC93685BCEC, 0x8E4C8D0C8CEBFCCD, 0x17CB39417E84597E,
      0xD4A965A8C749B232, 0xA2CAB040F33F3EE5, 0xA98811A1FED4E3A6, 0x1CC48B54F377E2A1],
      [0xE40CD4F6C5609A27, 0x11DE79EBCA97A4A4, 0x9177C73D8B7E929D, 0x2A6FE8085797E792,
      0x3DE6E93329F8D5AE, 0x3F7AF9125DA962FF, 0xD710682CFC77D3AC, 0x48FAF05F3B053CF4],
      [0x287DB8630DA89C8B, 0x4D0DE32053CB30E9, 0x8B37A4F20C5ADA7B, 0xE7CC6EBE78C84ECF,
      0x240BDC0A66A2610D, 0x8299E7F02CAA1650, 0x380A53FEFB6E754E, 0x684A1D8CF8EB6810],
      [0xE839452EB4B8A5E1, 0xB03FA62E90626AF4, 0x11A688602FBC5EFC, 0x30DDA75C355A2D62,
      0x0F712ADCB73810DE, 0xFFDC1102187F1AE1, 0x40C34F398254B99C, 0xEDE021B9DC289A4A],
      [0x8B7B05225C4E7DAD, 0x3BC794346F9D9FF9, 0xFCCB5A57F2CA86FF, 0xBB1502015A7DA9D4,
      0xD7E0A35D4352A015, 0x27AF7A44F8160931, 0xC37442F6782F4615, 0xBDF392A9BD095DCB],
      [0xC17F55037CF00DE9, 0xBCFFEDD34C71A874, 0x5EB45D2A8133D1F2, 0xBABE251E1612EBDF,
      0x3EFEB9FBE438C536, 0x2D7CEF97B4AFE1CF, 0xE5DE1B4660016C0B, 0xCDCC26C332F5657C],
      [0xE01DD653DAF15809, 0xB0A6BDD4B41094B5, 0x27EAC858B0B03A05, 0x51D43B5E93ADBDC0,
      0x8B89A23B0FEA5FC9, 0xDC8AC3B14F7F2FC1, 0xE793F82F1EFEC039, 0x9F6F2CF8969E7B80],
      [0x49D45382E0F21D4A, 0x5F4AD1797CD72786, 0x4DC3DBEBFD45F795, 0x03A3EF84DBA6E1BC,
      0x204BC9B3D3FC4C01, 0x9AD706081E89B9BA, 0x638BFB4D840E9F89, 0x5EF2938CD095AE35],
      [0x42CCA18EBEB265C8, 0xB7B2EC5C29AECBF8, 0x0D84F9535DC78F0F, 0x04E64AD942E77B8C,
      0xB4880DFFFFC9DA0B, 0x16DB16D9C29ADEB1, 0x09BBAF2A0590CD1E, 0x76460E74961FCF8D],
      [0xED12A2276DFA1553, 0x0B5ACEC5DE0436FD, 0x3C6CFEA033A1F0A8, 0x2B5ECEFE546CAC15,
      0x6E2D82884CD3BF6F, 0xC134878D1ADD7B83, 0x997963422EB7A280, 0x5E834537AC648CF6],
      [0x89E779214737C0B7, 0x1A8C05E8581AD95B, 0x8D18B72796437CF7, 0xE7252C949E04B106,
      0x53267C4FD174585A, 0xA16EF5D9C81DAD47, 0xDA65191937270A46, 0xCB2A5B55F2DF664C],
      [0x854AEE2DC1924137, 0xF37013C9D479ECE6, 0x0E163BC0630C4696, 0x384EE64955048F76,
      0xF65D814E28EE4EC5, 0xE57BC564FD82F1B1, 0x4B338937B6876614, 0x66EE0B04ED43CD8D],
      [0x49884BF25F4EF15D, 0xEB51FE28DE1C6F54, 0x2CD64E84FCE8DFCC, 0x29164A96A541A013,
      0x173CE7558F4CACB8, 0xEB5B1CE5877C89E9, 0x5FAFF4B0F5217BF6, 0xAC42D0B1C20F205E],
      [0xFB1D6BF0CA43221B, 0x97B0A1B01D6A2955, 0x08C60BD622952B30, 0x43F2BE0F9E24147C,
      0xFA7268B7D3730F5D, 0x43A6C419A23983BB, 0xCD77C1F7B29B113C, 0xCFA43C9DB8EEC29F],
      [0xCAAA95A6C7365DEC, 0x0A91193F798F3BE0, 0x1104497652735DC6, 0x35AECB93663B515E,
      0x8DBC9916065AA858, 0xADA8F7A0266579ED, 0x524DEE7BEC1EA789, 0xA93AEE9DD5AF9521],
      [0x9D1F1B54750D707E, 0x7C9FEAB87096D5DC, 0xA2E1FB19F9D4261B, 0xB714DEB448DE6346,
      0x225D1F0D011C5403, 0x1549B7F1D28CEDC0, 0xAEF3E46F97D43942, 0x6DFC7FFE0B38BF08],
      [0x7DE853FDC542B663, 0xA68ECC96610657B2, 0xE88BB5428AF289B1, 0xD7CFA1504C5569F5,
      0x78A9AAD0D642D30A, 0xD68315F2353DCE52, 0x46E56300F86FCFD5, 0x323D95332B145FD6] ]"

definition POSEIDON_FULL_ROUNDS :: nat where
  "POSEIDON_FULL_ROUNDS = 8"

definition POSEIDON_PARTIAL_ROUNDS :: nat where
  "POSEIDON_PARTIAL_ROUNDS = 22"

definition POSEIDON_ROUNDS_IN_USE :: nat where
  "POSEIDON_ROUNDS_IN_USE = POSEIDON_FULL_ROUNDS + POSEIDON_PARTIAL_ROUNDS"

text \<open>The closure \<open>sbox\<close> of the permutation, and of the Merkle round.\<close>

definition poseidon_sbox :: "u64 \<Rightarrow> u64" where
  "poseidon_sbox x =
     (let x2 = field_mul_goldilocks x x;
          x4 = field_mul_goldilocks x2 x2
      in field_mul_goldilocks (field_mul_goldilocks x4 x2) x)"

definition poseidon_add_rc :: "u64 list \<Rightarrow> u64 list \<Rightarrow> u64 list" where
  "poseidon_add_rc rc s = map2 field_add_goldilocks s rc"

definition poseidon_is_full :: "nat \<Rightarrow> bool" where
  "poseidon_is_full round =
     (let half_full = POSEIDON_FULL_ROUNDS div 2
      in round < half_full \<or> round \<ge> length POSEIDON_RC_FULL - half_full)"

definition poseidon_sbox_layer :: "bool \<Rightarrow> u64 list \<Rightarrow> u64 list" where
  "poseidon_sbox_layer is_full s =
     (if is_full then map poseidon_sbox s else s[0 := poseidon_sbox (s ! 0)])"

definition mds_row :: "u64 list \<Rightarrow> u64 list \<Rightarrow> u64" where
  "mds_row row s =
     ucast (fold (\<lambda>(m, x) sum. (sum + ucast m * ucast x) mod (ucast GOLDILOCKS_P :: u128)) (zip row s) 0)"

definition poseidon_mds :: "u64 list \<Rightarrow> u64 list" where
  "poseidon_mds s = map (\<lambda>row. mds_row row s) POSEIDON_MDS"

definition poseidon_round :: "nat \<times> u64 list \<Rightarrow> u64 list \<Rightarrow> u64 list" where
  "poseidon_round r s =
     poseidon_mds (poseidon_sbox_layer (poseidon_is_full (fst r)) (poseidon_add_rc (snd r) s))"

definition poseidon_full_state :: "u64 list \<Rightarrow> u64 list" where
  "poseidon_full_state s = fold poseidon_round (enumerate 0 POSEIDON_RC_FULL) s"

definition poseidon_full_hash_state :: "u64 list \<Rightarrow> u64" where
  "poseidon_full_hash_state s = fold poseidon_round (enumerate 0 POSEIDON_RC_FULL) s ! 0"

text \<open>The superseded four-round constants.\<close>

definition POSEIDON_RC :: "u64 list list" where
  "POSEIDON_RC =
    [ [0xDD5743E7F2A5A5D9, 0xCB3A864E58ADA44B, 0xFFA2449ED32F8CDC, 0x42025F65D6BD13EE,
      0x7889175E25506323, 0x34B98BB03D24B737, 0xBDCC535ECC4FAA2A, 0x5B20AD869FC0D033],
      [0xF1DDA5B9259DFCB4, 0x27515210BE112D59, 0x4227D1718C766C3F, 0x26D333161A5BD794,
      0x49B938957BF4B026, 0x4A56B5938B213669, 0x1120426B48C8353D, 0x6B323C3F10A56CAD],
      [0xCE57D6245DDCA6B2, 0xB1FC8D402BBA1EB1, 0xB5C5096CA959BD04, 0x6DB55CD306D31F7F,
      0xC49D293A81CB9641, 0x1CE55A4FE979719F, 0xA92E60A9D178A4D1, 0x002CC64973BCFD8C],
      [0xCEA721CCE82FB11B, 0xE5B55EB8098ECE81, 0x4E30525C6F1DDD66, 0x43C6702827070987,
      0xACA68430A7B5762A, 0x3674238634DF9C93, 0x88CEE1C825E33433, 0xDE99AE8D74B57176] ]"

definition poseidon4_hash_state :: "u64 list \<Rightarrow> u64" where
  "poseidon4_hash_state s = poseidon_full_hash_state s"

definition poseidon4_hash3 :: "u64 \<Rightarrow> u64 \<Rightarrow> u64 \<Rightarrow> u64" where
  "poseidon4_hash3 a b c = poseidon4_hash_state [a, b, c, 0, 0, 0, 0, 0]"

definition poseidon4_hash :: "u64 \<Rightarrow> u64 \<Rightarrow> u64" where
  "poseidon4_hash a b = poseidon4_hash_state [a, b, 0, 0, 0, 0, 0, 0]"

definition merkle_poseidon_round :: "u64 \<Rightarrow> u64 \<Rightarrow> u64" where
  "merkle_poseidon_round a b =
     (let s0 = field_add_goldilocks a 0xDD5743E7F2A5A5D9;
          s1 = field_add_goldilocks b 0xCB3A864E58ADA44B
      in ucast ((7 * ucast (poseidon_sbox s0) + ucast (poseidon_sbox s1)) mod (ucast GOLDILOCKS_P :: u128)))"

subsection \<open>The tables\<close>

lemma length_RC_FULL: "length POSEIDON_RC_FULL = POSEIDON_ROUNDS_IN_USE"
  by (simp add: POSEIDON_RC_FULL_def POSEIDON_ROUNDS_IN_USE_def POSEIDON_FULL_ROUNDS_def POSEIDON_PARTIAL_ROUNDS_def)

lemma RC_width: "rc \<in> set POSEIDON_RC_FULL \<Longrightarrow> length rc = 8"
  by (auto simp: POSEIDON_RC_FULL_def)

lemma RC_prefix: "take 4 POSEIDON_RC_FULL = POSEIDON_RC"
  by (simp add: POSEIDON_RC_FULL_def POSEIDON_RC_def)

subsection \<open>The S-box\<close>

lemma unat_sbox: "unat (poseidon_sbox x) = unat x ^ 7 mod gp"
proof -
  have "unat x ^ 7 = unat x * unat x * (unat x * unat x) * (unat x * unat x) * unat x"
    by (simp add: eval_nat_numeral)
  then show ?thesis
    by (simp add: poseidon_sbox_def Let_def unat_field_mul mod_mult_left_eq mod_mult_right_eq)
qed

lemma canonical_sbox [simp]: "canonical (poseidon_sbox x)"
  by (simp add: poseidon_sbox_def Let_def)

text \<open>\<open>sbox_root\<close> is the inverse of 7 modulo \<open>P - 1\<close>: raising to it takes seventh roots.\<close>

definition sbox_root :: nat where
  "sbox_root = 10540996611094048183"

lemma sbox_root: "7 * sbox_root = go * 4 + 1"
  by (simp add: sbox_root_def go_num)

lemma seventh_root:
  assumes "x < gp"
  shows "(x ^ 7 mod gp) ^ sbox_root mod gp = x"
proof (cases "x = 0")
  case True
  then show ?thesis by (simp add: sbox_root_def)
next
  case False
  then have "x ^ go mod gp = 1" using assms by (intro unit_power_nat) simp
  then have one: "x ^ (go * 4) mod gp = 1" by (metis gp_bounds(1) mod_less power_mod power_mult power_one)
  have "(x ^ 7 mod gp) ^ sbox_root mod gp = x ^ (go * 4 + 1) mod gp"
    by (simp only: power_mod power_mult [symmetric] sbox_root)
  also have "\<dots> = (x ^ (go * 4) mod gp * x) mod gp"
    by (simp only: power_add power_one_right mod_mult_left_eq)
  also have "\<dots> = x" using assms by (simp only: one mult_1 mod_less)
  finally show ?thesis .
qed

lemma sbox_inj:
  assumes "poseidon_sbox x = poseidon_sbox y" "canonical x" "canonical y"
  shows "x = y"
proof -
  have "unat x ^ 7 mod gp = unat y ^ 7 mod gp" using assms(1) by (metis unat_sbox)
  then have "unat x = unat y" using seventh_root assms(2,3) by (metis canonical_unat)
  then show ?thesis by (simp add: word_unat_eq_iff)
qed

subsection \<open>The matrix\<close>

lemma unat_mds_fold:
  fixes acc :: u128 and row s :: "u64 list"
  assumes "\<forall>m \<in> set row. unat m < 2 ^ 32" "unat acc < gp"
  shows "unat (fold (\<lambda>(m, x) sum. (sum + ucast m * ucast x) mod ucast GOLDILOCKS_P) (zip row s) acc)
       = (unat acc + (\<Sum>(m, x)\<leftarrow>zip row s. unat m * unat x)) mod gp"
  using assms
proof (induction row s arbitrary: acc rule: list_induct2')
  case (4 m row x s)
  have "unat m * unat x \<le> 2 ^ 32 * 2 ^ 64"
    using "4.prems"(1) unat_lt64 [of x] by (intro mult_mono) auto
  then have "unat acc + unat m * unat x < 2 ^ 128"
    using "4.prems"(2) gp_bounds(2) by simp
  then have sum: "unat ((acc + ucast m * ucast x) mod ucast GOLDILOCKS_P) = (unat acc + unat m * unat x) mod gp"
    using unat_mul_ucast [of m x] by (simp add: unat_mod_distrib unat_word_ariths)
  then have "unat ((acc + ucast m * ucast x) mod ucast GOLDILOCKS_P) < gp" by simp
  from "4.IH" [OF _ this] "4.prems"(1) show ?case
    by (simp add: sum mod_add_left_eq add.assoc)
qed simp_all

lemma unat_mds_row:
  assumes "\<forall>m \<in> set row. unat m < 2 ^ 32"
  shows "unat (mds_row row s) = (\<Sum>(m, x)\<leftarrow>zip row s. unat m * unat x) mod gp"
proof -
  have "unat (fold (\<lambda>(m, x) sum. (sum + ucast m * ucast x) mod ucast GOLDILOCKS_P) (zip row s) (0 :: u128))
      = (\<Sum>(m, x)\<leftarrow>zip row s. unat m * unat x) mod gp"
    using unat_mds_fold [OF assms, of 0 s] by simp
  then show ?thesis
    using mod_gp_lt64 by (simp add: mds_row_def unsigned_ucast_eq take_bit_nat_eq_self)
qed

text \<open>One row of the inverse matrix. The others are its rotations.\<close>

definition unmix :: "int \<Rightarrow> int \<Rightarrow> int \<Rightarrow> int \<Rightarrow> int \<Rightarrow> int \<Rightarrow> int \<Rightarrow> int \<Rightarrow> int" where
  "unmix t0 t1 t2 t3 t4 t5 t6 t7 =
     (4714385741194949836 * t0 +
      17814787424422222165 * t1 +
      12924840119982607538 * t2 +
      16100977321532909610 * t3 +
      1459077964239434956 * t4 +
      6963761501237172564 * t5 +
      7499327158390082738 * t6 +
      4164848806029355049 * t7) mod gi"

lemma gi_num: "gi = 18446744069414584321"
  by (simp add: gp_def)

lemma unmix_mod:
  "unmix (t0 mod gi) (t1 mod gi) (t2 mod gi) (t3 mod gi) (t4 mod gi) (t5 mod gi) (t6 mod gi) (t7 mod gi)
   = unmix t0 t1 t2 t3 t4 t5 t6 t7"
  unfolding unmix_def by (intro mod_add_cong) (simp_all only: mod_mult_right_eq)

definition mix :: "int \<Rightarrow> int \<Rightarrow> int \<Rightarrow> int \<Rightarrow> int \<Rightarrow> int \<Rightarrow> int \<Rightarrow> int \<Rightarrow> int" where
  "mix s0 s1 s2 s3 s4 s5 s6 s7 = 7 * s0 + 1 * s1 + 3 * s2 + 8 * s3 + 8 * s4 + 3 * s5 + 4 * s6 + 9 * s7"

lemma unmix_mix:
  "unmix (mix s0 s1 s2 s3 s4 s5 s6 s7) (mix s1 s2 s3 s4 s5 s6 s7 s0) (mix s2 s3 s4 s5 s6 s7 s0 s1)
     (mix s3 s4 s5 s6 s7 s0 s1 s2) (mix s4 s5 s6 s7 s0 s1 s2 s3) (mix s5 s6 s7 s0 s1 s2 s3 s4)
     (mix s6 s7 s0 s1 s2 s3 s4 s5) (mix s7 s0 s1 s2 s3 s4 s5 s6) = s0 mod gi"
proof -
  let ?q = "21 * s0 + 24 * s1 + 21 * s2 + 17 * s3 + 19 * s4 + 24 * s5 + 22 * s6 + 19 * s7"
  have "unmix (mix s0 s1 s2 s3 s4 s5 s6 s7) (mix s1 s2 s3 s4 s5 s6 s7 s0) (mix s2 s3 s4 s5 s6 s7 s0 s1)
     (mix s3 s4 s5 s6 s7 s0 s1 s2) (mix s4 s5 s6 s7 s0 s1 s2 s3) (mix s5 s6 s7 s0 s1 s2 s3 s4)
     (mix s6 s7 s0 s1 s2 s3 s4 s5) (mix s7 s0 s1 s2 s3 s4 s5 s6) = (s0 + gi * ?q) mod gi"
    unfolding unmix_def mix_def gi_num
    by (rule arg_cong [where f = "\<lambda>x. x mod 18446744069414584321"]) algebra
  then show ?thesis by (simp only: mod_mult_self2)
qed

lemma state_cases:
  assumes "length s = 8"
  obtains s0 s1 s2 s3 s4 s5 s6 s7 where "s = [s0, s1, s2, s3, s4, s5, s6, s7]"
  using assms by (auto simp: length_Suc_conv numeral_eq_Suc)

lemma int_mds_row:
  assumes "\<forall>m \<in> set [a, b, c, d, e, f, g, h]. unat m < 2 ^ 32"
  shows "int (unat (mds_row [a, b, c, d, e, f, g, h] [s0, s1, s2, s3, s4, s5, s6, s7]))
      = (int (unat a) * int (unat s0) + int (unat b) * int (unat s1) + int (unat c) * int (unat s2)
         + int (unat d) * int (unat s3) + int (unat e) * int (unat s4) + int (unat f) * int (unat s5)
         + int (unat g) * int (unat s6) + int (unat h) * int (unat s7)) mod gi"
  unfolding unat_mds_row [OF assms] by (simp add: zmod_int add.assoc)

lemma int_mds_entries:
  "int (unat (1 :: u64)) = 1" "int (unat (3 :: u64)) = 3" "int (unat (4 :: u64)) = 4"
  "int (unat (7 :: u64)) = 7" "int (unat (8 :: u64)) = 8" "int (unat (9 :: u64)) = 9"
  by simp_all

lemma int_mds_rows:
  "int (unat (mds_row [7, 1, 3, 8, 8, 3, 4, 9] [s0, s1, s2, s3, s4, s5, s6, s7])) =
     mix (int (unat s0)) (int (unat s1)) (int (unat s2)) (int (unat s3)) (int (unat s4)) (int (unat s5)) (int (unat s6)) (int (unat s7)) mod gi"
  "int (unat (mds_row [9, 7, 1, 3, 8, 8, 3, 4] [s0, s1, s2, s3, s4, s5, s6, s7])) =
     mix (int (unat s1)) (int (unat s2)) (int (unat s3)) (int (unat s4)) (int (unat s5)) (int (unat s6)) (int (unat s7)) (int (unat s0)) mod gi"
  "int (unat (mds_row [4, 9, 7, 1, 3, 8, 8, 3] [s0, s1, s2, s3, s4, s5, s6, s7])) =
     mix (int (unat s2)) (int (unat s3)) (int (unat s4)) (int (unat s5)) (int (unat s6)) (int (unat s7)) (int (unat s0)) (int (unat s1)) mod gi"
  "int (unat (mds_row [3, 4, 9, 7, 1, 3, 8, 8] [s0, s1, s2, s3, s4, s5, s6, s7])) =
     mix (int (unat s3)) (int (unat s4)) (int (unat s5)) (int (unat s6)) (int (unat s7)) (int (unat s0)) (int (unat s1)) (int (unat s2)) mod gi"
  "int (unat (mds_row [8, 3, 4, 9, 7, 1, 3, 8] [s0, s1, s2, s3, s4, s5, s6, s7])) =
     mix (int (unat s4)) (int (unat s5)) (int (unat s6)) (int (unat s7)) (int (unat s0)) (int (unat s1)) (int (unat s2)) (int (unat s3)) mod gi"
  "int (unat (mds_row [8, 8, 3, 4, 9, 7, 1, 3] [s0, s1, s2, s3, s4, s5, s6, s7])) =
     mix (int (unat s5)) (int (unat s6)) (int (unat s7)) (int (unat s0)) (int (unat s1)) (int (unat s2)) (int (unat s3)) (int (unat s4)) mod gi"
  "int (unat (mds_row [3, 8, 8, 3, 4, 9, 7, 1] [s0, s1, s2, s3, s4, s5, s6, s7])) =
     mix (int (unat s6)) (int (unat s7)) (int (unat s0)) (int (unat s1)) (int (unat s2)) (int (unat s3)) (int (unat s4)) (int (unat s5)) mod gi"
  "int (unat (mds_row [1, 3, 8, 8, 3, 4, 9, 7] [s0, s1, s2, s3, s4, s5, s6, s7])) =
     mix (int (unat s7)) (int (unat s0)) (int (unat s1)) (int (unat s2)) (int (unat s3)) (int (unat s4)) (int (unat s5)) (int (unat s6)) mod gi"
  unfolding mix_def
  by (rule int_mds_row [THEN trans], simp, unfold int_mds_entries,
      rule arg_cong [where f = "\<lambda>x. x mod gi"], (rule refl | algebra))+

lemma lane_from_mix:
  assumes "mix a0 a1 a2 a3 a4 a5 a6 a7 mod gi = mix b0 b1 b2 b3 b4 b5 b6 b7 mod gi"
    and "mix a1 a2 a3 a4 a5 a6 a7 a0 mod gi = mix b1 b2 b3 b4 b5 b6 b7 b0 mod gi"
    and "mix a2 a3 a4 a5 a6 a7 a0 a1 mod gi = mix b2 b3 b4 b5 b6 b7 b0 b1 mod gi"
    and "mix a3 a4 a5 a6 a7 a0 a1 a2 mod gi = mix b3 b4 b5 b6 b7 b0 b1 b2 mod gi"
    and "mix a4 a5 a6 a7 a0 a1 a2 a3 mod gi = mix b4 b5 b6 b7 b0 b1 b2 b3 mod gi"
    and "mix a5 a6 a7 a0 a1 a2 a3 a4 mod gi = mix b5 b6 b7 b0 b1 b2 b3 b4 mod gi"
    and "mix a6 a7 a0 a1 a2 a3 a4 a5 mod gi = mix b6 b7 b0 b1 b2 b3 b4 b5 mod gi"
    and "mix a7 a0 a1 a2 a3 a4 a5 a6 mod gi = mix b7 b0 b1 b2 b3 b4 b5 b6 mod gi"
  shows "a0 mod gi = b0 mod gi"
proof -
  have "a0 mod gi = unmix (mix a0 a1 a2 a3 a4 a5 a6 a7 mod gi) (mix a1 a2 a3 a4 a5 a6 a7 a0 mod gi) (mix a2 a3 a4 a5 a6 a7 a0 a1 mod gi) (mix a3 a4 a5 a6 a7 a0 a1 a2 mod gi) (mix a4 a5 a6 a7 a0 a1 a2 a3 mod gi) (mix a5 a6 a7 a0 a1 a2 a3 a4 mod gi) (mix a6 a7 a0 a1 a2 a3 a4 a5 mod gi) (mix a7 a0 a1 a2 a3 a4 a5 a6 mod gi)"
    by (simp only: unmix_mix unmix_mod)
  also have "\<dots> = unmix (mix b0 b1 b2 b3 b4 b5 b6 b7 mod gi) (mix b1 b2 b3 b4 b5 b6 b7 b0 mod gi) (mix b2 b3 b4 b5 b6 b7 b0 b1 mod gi) (mix b3 b4 b5 b6 b7 b0 b1 b2 mod gi) (mix b4 b5 b6 b7 b0 b1 b2 b3 mod gi) (mix b5 b6 b7 b0 b1 b2 b3 b4 mod gi) (mix b6 b7 b0 b1 b2 b3 b4 b5 mod gi) (mix b7 b0 b1 b2 b3 b4 b5 b6 mod gi)"
    by (simp only: assms)
  also have "\<dots> = b0 mod gi" by (simp only: unmix_mix unmix_mod)
  finally show ?thesis .
qed

definition canonical_state :: "u64 list \<Rightarrow> bool" where
  "canonical_state s = (length s = 8 \<and> list_all canonical s)"

lemma canonical_mds_row:
  assumes "\<forall>m \<in> set row. unat m < 2 ^ 32"
  shows "canonical (mds_row row s)"
  by (rule canonical_mod [OF unat_mds_row [OF assms]])

lemma canonical_mds: "canonical_state (poseidon_mds s)"
  by (simp add: canonical_state_def poseidon_mds_def POSEIDON_MDS_def canonical_mds_row)

lemma mds_inj:
  assumes "canonical_state s" "canonical_state s'" "poseidon_mds s = poseidon_mds s'"
  shows "s = s'"
proof -
  obtain a0 a1 a2 a3 a4 a5 a6 a7 where a: "s = [a0, a1, a2, a3, a4, a5, a6, a7]"
    using assms(1) unfolding canonical_state_def by (auto elim: state_cases)
  obtain b0 b1 b2 b3 b4 b5 b6 b7 where b: "s' = [b0, b1, b2, b3, b4, b5, b6, b7]"
    using assms(2) unfolding canonical_state_def by (auto elim: state_cases)
  have "poseidon_mds [a0, a1, a2, a3, a4, a5, a6, a7] = poseidon_mds [b0, b1, b2, b3, b4, b5, b6, b7]"
    using assms(3) by (simp only: a b)
  then have rows:
    "mds_row [7, 1, 3, 8, 8, 3, 4, 9] [a0, a1, a2, a3, a4, a5, a6, a7] = mds_row [7, 1, 3, 8, 8, 3, 4, 9] [b0, b1, b2, b3, b4, b5, b6, b7]"
    "mds_row [9, 7, 1, 3, 8, 8, 3, 4] [a0, a1, a2, a3, a4, a5, a6, a7] = mds_row [9, 7, 1, 3, 8, 8, 3, 4] [b0, b1, b2, b3, b4, b5, b6, b7]"
    "mds_row [4, 9, 7, 1, 3, 8, 8, 3] [a0, a1, a2, a3, a4, a5, a6, a7] = mds_row [4, 9, 7, 1, 3, 8, 8, 3] [b0, b1, b2, b3, b4, b5, b6, b7]"
    "mds_row [3, 4, 9, 7, 1, 3, 8, 8] [a0, a1, a2, a3, a4, a5, a6, a7] = mds_row [3, 4, 9, 7, 1, 3, 8, 8] [b0, b1, b2, b3, b4, b5, b6, b7]"
    "mds_row [8, 3, 4, 9, 7, 1, 3, 8] [a0, a1, a2, a3, a4, a5, a6, a7] = mds_row [8, 3, 4, 9, 7, 1, 3, 8] [b0, b1, b2, b3, b4, b5, b6, b7]"
    "mds_row [8, 8, 3, 4, 9, 7, 1, 3] [a0, a1, a2, a3, a4, a5, a6, a7] = mds_row [8, 8, 3, 4, 9, 7, 1, 3] [b0, b1, b2, b3, b4, b5, b6, b7]"
    "mds_row [3, 8, 8, 3, 4, 9, 7, 1] [a0, a1, a2, a3, a4, a5, a6, a7] = mds_row [3, 8, 8, 3, 4, 9, 7, 1] [b0, b1, b2, b3, b4, b5, b6, b7]"
    "mds_row [1, 3, 8, 8, 3, 4, 9, 7] [a0, a1, a2, a3, a4, a5, a6, a7] = mds_row [1, 3, 8, 8, 3, 4, 9, 7] [b0, b1, b2, b3, b4, b5, b6, b7]"
    by (simp_all only: poseidon_mds_def POSEIDON_MDS_def list.map list.inject)
  note rows = rows [THEN arg_cong [where f = "\<lambda>x. int (unat x)"], unfolded int_mds_rows]
  have lane: "x = y" if "canonical x" "canonical y" "int (unat x) mod gi = int (unat y) mod gi" for x y :: u64
  proof -
    have "unat x mod gp = unat y mod gp" using that(3) by (simp only: of_nat_mod [symmetric] of_nat_eq_iff)
    then show ?thesis using that(1,2) by (simp add: canonical_unat word_unat_eq_iff)
  qed
  have can: "list_all canonical [a0, a1, a2, a3, a4, a5, a6, a7]" "list_all canonical [b0, b1, b2, b3, b4, b5, b6, b7]"
    using assms(1,2) by (simp_all only: canonical_state_def a b)
  have e0: "a0 = b0" using can by (intro lane lane_from_mix [OF rows(1) rows(2) rows(3) rows(4) rows(5) rows(6) rows(7) rows(8)]) simp_all
  have e1: "a1 = b1" using can by (intro lane lane_from_mix [OF rows(2) rows(3) rows(4) rows(5) rows(6) rows(7) rows(8) rows(1)]) simp_all
  have e2: "a2 = b2" using can by (intro lane lane_from_mix [OF rows(3) rows(4) rows(5) rows(6) rows(7) rows(8) rows(1) rows(2)]) simp_all
  have e3: "a3 = b3" using can by (intro lane lane_from_mix [OF rows(4) rows(5) rows(6) rows(7) rows(8) rows(1) rows(2) rows(3)]) simp_all
  have e4: "a4 = b4" using can by (intro lane lane_from_mix [OF rows(5) rows(6) rows(7) rows(8) rows(1) rows(2) rows(3) rows(4)]) simp_all
  have e5: "a5 = b5" using can by (intro lane lane_from_mix [OF rows(6) rows(7) rows(8) rows(1) rows(2) rows(3) rows(4) rows(5)]) simp_all
  have e6: "a6 = b6" using can by (intro lane lane_from_mix [OF rows(7) rows(8) rows(1) rows(2) rows(3) rows(4) rows(5) rows(6)]) simp_all
  have e7: "a7 = b7" using can by (intro lane lane_from_mix [OF rows(8) rows(1) rows(2) rows(3) rows(4) rows(5) rows(6) rows(7)]) simp_all
  show ?thesis by (simp only: a b e0 e1 e2 e3 e4 e5 e6 e7)
qed

subsection \<open>The permutation\<close>

lemma field_add_inj:
  assumes "field_add_goldilocks x c = field_add_goldilocks y c" "canonical x" "canonical y"
  shows "x = y"
proof -
  have "(unat x + unat c) mod gp = (unat y + unat c) mod gp" using assms(1) by (metis unat_field_add)
  then have "(int (unat x) + int (unat c)) mod gi = (int (unat y) + int (unat c)) mod gi"
    by (metis of_nat_add of_nat_mod)
  then have "int (unat x) mod gi = int (unat y) mod gi" by (simp add: mod_eq_dvd_iff)
  then have "unat x mod gp = unat y mod gp" by (simp only: of_nat_mod [symmetric] of_nat_eq_iff)
  then show ?thesis using assms(2,3) by (simp add: canonical_unat word_unat_eq_iff)
qed

lemma canonical_add_rc: "canonical_state s \<Longrightarrow> length rc = 8 \<Longrightarrow> canonical_state (poseidon_add_rc rc s)"
  by (auto simp: canonical_state_def poseidon_add_rc_def list_all_iff)

lemma add_rc_inj:
  assumes "canonical_state s" "canonical_state s'" "length rc = 8" "poseidon_add_rc rc s = poseidon_add_rc rc s'"
  shows "s = s'"
proof (rule nth_equalityI)
  show len: "length s = length s'" using assms by (simp add: canonical_state_def)
  fix i assume i: "i < length s"
  have "field_add_goldilocks (s ! i) (rc ! i) = field_add_goldilocks (s' ! i) (rc ! i)"
    using arg_cong [OF assms(4), of "\<lambda>l. l ! i"] i len assms(1,3)
    by (simp add: poseidon_add_rc_def canonical_state_def)
  then show "s ! i = s' ! i"
    using assms(1,2) i len by (auto intro: field_add_inj simp: canonical_state_def list_all_length)
qed

lemma canonical_sbox_layer: "canonical_state s \<Longrightarrow> canonical_state (poseidon_sbox_layer f s)"
  by (auto simp: canonical_state_def poseidon_sbox_layer_def list_all_length nth_list_update)

lemma sbox_layer_inj:
  assumes "canonical_state s" "canonical_state s'" "poseidon_sbox_layer f s = poseidon_sbox_layer f s'"
  shows "s = s'"
proof (rule nth_equalityI)
  show len: "length s = length s'" using assms by (simp add: canonical_state_def)
  fix i assume i: "i < length s"
  have can: "canonical (s ! i)" "canonical (s' ! i)"
    using assms(1,2) i len by (simp_all add: canonical_state_def list_all_length)
  have "poseidon_sbox_layer f s ! i = poseidon_sbox_layer f s' ! i" by (simp add: assms(3))
  then have "poseidon_sbox (s ! i) = poseidon_sbox (s' ! i) \<or> s ! i = s' ! i"
    using i len by (cases "i = 0") (auto simp: poseidon_sbox_layer_def nth_list_update split: if_splits)
  then show "s ! i = s' ! i" using sbox_inj can by blast
qed

lemma round_canonical: "canonical_state (poseidon_round r s)"
  by (simp add: poseidon_round_def canonical_mds)

lemma round_inj:
  assumes "canonical_state s" "canonical_state s'" "length (snd r) = 8" "poseidon_round r s = poseidon_round r s'"
  shows "s = s'"
proof -
  note can = canonical_add_rc [OF assms(1,3)] canonical_add_rc [OF assms(2,3)]
  have "poseidon_sbox_layer (poseidon_is_full (fst r)) (poseidon_add_rc (snd r) s)
      = poseidon_sbox_layer (poseidon_is_full (fst r)) (poseidon_add_rc (snd r) s')"
    using assms(4) unfolding poseidon_round_def
    by (rule mds_inj [OF canonical_sbox_layer canonical_sbox_layer, OF can])
  then have "poseidon_add_rc (snd r) s = poseidon_add_rc (snd r) s'"
    by (rule sbox_layer_inj [OF can])
  then show ?thesis by (rule add_rc_inj [OF assms(1-3)])
qed

lemma rounds_canonical: "canonical_state s \<Longrightarrow> canonical_state (fold poseidon_round rs s)"
  by (induction rs arbitrary: s) (auto simp: round_canonical)

lemma rounds_inj:
  assumes "canonical_state s" "canonical_state s'" "\<forall>r \<in> set rs. length (snd r) = 8"
    and "fold poseidon_round rs s = fold poseidon_round rs s'"
  shows "s = s'"
  using assms
proof (induction rs arbitrary: s s')
  case (Cons r rs)
  have "poseidon_round r s = poseidon_round r s'"
    using Cons.prems(3,4) by (intro Cons.IH [OF round_canonical round_canonical]) simp_all
  moreover have "length (snd r) = 8" using Cons.prems(3) by simp
  ultimately show ?case using round_inj [OF Cons.prems(1,2)] by blast
qed simp

lemma full_state_inj:
  assumes "canonical_state s" "canonical_state s'" "poseidon_full_state s = poseidon_full_state s'"
  shows "s = s'"
proof (rule rounds_inj)
  show "\<forall>r \<in> set (enumerate 0 POSEIDON_RC_FULL). length (snd r) = 8"
    by (metis RC_width add.right_neutral diff_zero in_set_enumerate_eq nth_mem)
qed (use assms in \<open>simp_all add: poseidon_full_state_def\<close>)

lemma full_state_canonical: "canonical_state s \<Longrightarrow> canonical_state (poseidon_full_state s)"
  by (simp add: poseidon_full_state_def rounds_canonical)

lemma finite_canonical_states: "finite {s. canonical_state s}"
proof (rule finite_subset)
  show "{s. canonical_state s} \<subseteq> {s. set s \<subseteq> UNIV \<and> length s = 8}" by (auto simp: canonical_state_def)
qed (rule finite_lists_length_eq, simp)

lemma full_state_bij: "bij_betw poseidon_full_state {s. canonical_state s} {s. canonical_state s}"
proof -
  have inj: "inj_on poseidon_full_state {s. canonical_state s}" by (auto intro: inj_onI full_state_inj)
  moreover have "poseidon_full_state ` {s. canonical_state s} = {s. canonical_state s}"
    using finite_canonical_states inj by (intro endo_inj_surj) (auto simp: full_state_canonical)
  ultimately show ?thesis by (simp add: bij_betw_def)
qed

subsection \<open>The Merkle round\<close>

lemma unat_merkle_round:
  "unat (merkle_poseidon_round a b) =
    (7 * unat (poseidon_sbox (field_add_goldilocks a 0xDD5743E7F2A5A5D9))
     + unat (poseidon_sbox (field_add_goldilocks b 0xCB3A864E58ADA44B))) mod gp"
proof -
  have "unat (7 * ucast (x :: u64) + ucast (y :: u64) :: u128) = 7 * unat x + unat y" for x y
    using unat_lt64 [of x] unat_lt64 [of y] by (simp add: unat_word_ariths unat_ucast_up)
  then show ?thesis by (simp add: merkle_poseidon_round_def Let_def unat_ucast_mod_P)
qed

lemma canonical_merkle_round [simp]: "canonical (merkle_poseidon_round a b)"
  by (rule canonical_mod [OF unat_merkle_round])

text \<open>The round can be solved for its second input: any canonical output is reached.\<close>

lemma sbox_surj: "canonical y \<Longrightarrow> \<exists>x. canonical x \<and> poseidon_sbox x = y"
proof -
  assume y: "canonical y"
  have "finite {x. canonical x}" by simp
  moreover have "inj_on poseidon_sbox {x. canonical x}" by (auto intro: inj_onI sbox_inj)
  ultimately have "poseidon_sbox ` {x. canonical x} = {x. canonical x}"
    by (intro endo_inj_surj) auto
  then have "y \<in> poseidon_sbox ` {x. canonical x}" using y by simp
  then show ?thesis by blast
qed

lemma field_add_surj: "canonical y \<Longrightarrow> \<exists>x. canonical x \<and> field_add_goldilocks x c = y"
proof -
  assume y: "canonical y"
  have "inj_on (\<lambda>x. field_add_goldilocks x c) {x. canonical x}" by (auto intro: inj_onI field_add_inj)
  then have "(\<lambda>x. field_add_goldilocks x c) ` {x. canonical x} = {x. canonical x}"
    by (intro endo_inj_surj) auto
  then have "y \<in> (\<lambda>x. field_add_goldilocks x c) ` {x. canonical x}" using y by simp
  then show ?thesis by blast
qed

lemma merkle_round_solvable:
  assumes "canonical out"
  obtains b where "canonical b" "merkle_poseidon_round a b = out"
proof -
  let ?u = "poseidon_sbox (field_add_goldilocks a 0xDD5743E7F2A5A5D9)"
  define v where "v = field_sub_goldilocks out (of_nat (7 * unat ?u mod gp))"
  obtain s1 where s1: "canonical s1" "poseidon_sbox s1 = v" using sbox_surj [of v] by (auto simp: v_def)
  obtain b where b: "canonical b" "field_add_goldilocks b 0xCB3A864E58ADA44B = s1"
    using field_add_surj [OF s1(1)] by blast
  have w: "unat (of_nat (7 * unat ?u mod gp) :: u64) = 7 * unat ?u mod gp"
    using mod_gp_lt64 by (simp add: unat_of_nat)
  have "int (unat (merkle_poseidon_round a b)) = (7 * int (unat ?u) + int (unat v)) mod gi"
    unfolding unat_merkle_round b(2) s1(2) by (simp add: zmod_int)
  also have "int (unat v) = (int (unat out) - 7 * int (unat ?u)) mod gi"
    unfolding v_def unat_field_sub w by (simp add: zmod_int mod_diff_right_eq)
  also have "(7 * int (unat ?u) + (int (unat out) - 7 * int (unat ?u)) mod gi) mod gi = int (unat out) mod gi"
    by (simp only: mod_add_right_eq) simp
  also have "\<dots> = int (unat out)"
    using assms by (intro mod_pos_pos_trivial) (simp_all only: canonical_unat of_nat_less_iff of_nat_0_le_iff)
  finally have "merkle_poseidon_round a b = out" by (simp only: of_nat_eq_iff word_unat_eq_iff)
  then show ?thesis using b(1) that by blast
qed

end
