(* ===== verification/Bud_Vm.thy ===== *)
theory Bud_Vm
  imports Bud_Isa Poseidon
begin

text \<open>
  The virtual machine of \<^verbatim>\<open>budzero/bud-vm/src/lib.rs\<close>: its state, one definition for
  every arm of \<open>Vm::step\<close>, the rows the step appends to the execution trace, and the
  run to a receipt. \<open>usize\<close> is 64 bits wide: the program counter is a machine word,
  since jumps wrap, and an address is a natural number below the length of the memory.
  The log line at the end of a step is not modelled.
\<close>

datatype vm_error =
  OutOfGas | AssertionFailed | StackUnderflow | StackOverflow | InvalidOpcode string | InvalidPc
| InvalidMemoryAccess

record vm_context =
  ctx_sender :: u64
  ctx_nonce :: u64
  ctx_block_height :: u64
  ctx_initial_state_root :: bytes

record trace_step =
  st_pc :: u64
  st_next_pc :: u64
  st_instruction :: instruction
  st_src1_idx :: u8
  st_src2_idx :: u8
  st_dst_idx :: u8
  st_src1_val :: u64
  st_src2_val :: u64
  st_dst_val :: u64
  st_registers :: "u64 list"
  st_memory_addr :: "nat option"
  st_memory_val :: "u64 option"
  st_is_memory_write :: bool
  st_stack_pointer :: nat
  st_merkle_key :: "u64 option"
  st_merkle_current :: "u64 option"
  st_merkle_sibling :: "u64 option"
  st_merkle_round :: "u8 option"
  st_merkle_is_expand :: bool
  st_inference_model :: "u64 option"
  st_inference_input :: "u64 option"
  st_inference_output :: "u64 option"
  st_inference_round :: "u8 option"
  st_inference_is_expand :: bool

record vm =
  vm_registers :: "u64 list"
  vm_pc :: u64
  vm_stack :: "u64 list"
  vm_memory :: bytes
  vm_storage :: "i32 \<Rightarrow> u64 option"
  vm_events :: "u64 list"
  vm_ctx :: vm_context
  vm_trace :: "trace_step list"
  vm_halted :: bool
  vm_gas_used :: u64
  vm_gas_limit :: u64
  vm_error :: "vm_error option"
  vm_state_writes :: "(i32 \<times> u64) list"
  vm_mainnet_mode :: bool

record execution_receipt =
  rc_success :: bool
  rc_error :: "vm_error option"
  rc_gas_used :: u64
  rc_exit_code :: u64
  rc_events :: "u64 list"
  rc_final_pc :: u64
  rc_trace_len :: u64
  rc_state_writes_digest :: bytes

text \<open>Outside the crate's own tests; without the mainnet flag \<open>Instruction::decode\<close> decides.\<close>

definition decode_instruction :: "u64 \<Rightarrow> bool \<Rightarrow> string + instruction" where
  "decode_instruction raw mainnet_mode =
     (if mainnet_mode
      then map_sum decode_error_display id (decode_for_mainnet raw activation_default)
      else isa_decode False raw)"

definition vm_with_gas_limit :: "nat \<Rightarrow> u64 \<Rightarrow> vm" where
  "vm_with_gas_limit memory_size gas_limit =
     \<lparr> vm_registers = replicate 32 0, vm_pc = 0, vm_stack = [], vm_memory = replicate memory_size 0,
       vm_storage = Map.empty, vm_events = [],
       vm_ctx = \<lparr> ctx_sender = 0, ctx_nonce = 0, ctx_block_height = 0, ctx_initial_state_root = replicate 32 0 \<rparr>,
       vm_trace = [], vm_halted = False, vm_gas_used = 0, vm_gas_limit = gas_limit, vm_error = None,
       vm_state_writes = [], vm_mainnet_mode = False \<rparr>"

definition vm_new :: "nat \<Rightarrow> vm" where
  "vm_new memory_size = vm_with_gas_limit memory_size 1000000"

definition vm_with_mainnet_mode :: "nat \<Rightarrow> u64 \<Rightarrow> bool \<Rightarrow> vm" where
  "vm_with_mainnet_mode memory_size gas_limit mainnet =
     (vm_with_gas_limit memory_size gas_limit)\<lparr> vm_mainnet_mode := mainnet \<rparr>"

text \<open>The error exits of a step: set \<open>halted\<close> and \<open>error\<close>, return the error.\<close>

definition vm_fail :: "vm_error \<Rightarrow> vm \<Rightarrow> (vm_error, 'a, vm) outcome" where
  "vm_fail e v = (Inl e, v\<lparr> vm_halted := True, vm_error := Some e \<rparr>)"

definition consume_gas :: "u64 \<Rightarrow> vm \<Rightarrow> (vm_error, unit, vm) outcome" where
  "consume_gas amount v =
     (let v = v\<lparr> vm_gas_used := sat_add (vm_gas_used v) amount \<rparr>
      in if vm_gas_used v > vm_gas_limit v then vm_fail OutOfGas v else (Inr (), v))"

fun gas_cost :: "opcode \<Rightarrow> u64" where
  "gas_cost Op_Halt = 0"
| "gas_cost Op_Load = 3"
| "gas_cost Op_Store = 3"
| "gas_cost Op_SRead = 8"
| "gas_cost Op_SWrite = 12"
| "gas_cost Op_Poseidon = 10"
| "gas_cost Op_VerifyMerkle = 10"
| "gas_cost Op_VerifyInference = 10"
| "gas_cost Op_PrivacyCommit = 10"
| "gas_cost Op_NullifierCheck = 10"
| "gas_cost Op_SumConservation = 10"
| "gas_cost Op_Call = 2"
| "gas_cost Op_Ret = 2"
| "gas_cost Op_Push = 2"
| "gas_cost Op_Pop = 2"
| "gas_cost Op_Syscall = 5"
| "gas_cost Op_Div = 10"
| "gas_cost _ = 1"

subsection \<open>Memory\<close>

definition memory_word_addr :: "u64 \<Rightarrow> i32 \<Rightarrow> nat \<Rightarrow> nat option" where
  "memory_word_addr base imm memory_len =
     (let addr = uint base + sint imm
      in if addr < 0 then None
         else if addr \<ge> 2 ^ 64 then None
         else if addr + 8 \<ge> 2 ^ 64 then None
         else if nat addr + 8 \<le> memory_len then Some (nat addr) else None)"

text \<open>\<open>u64::from_le_bytes(memory[addr..addr + 8])\<close> and the copy back.\<close>

definition read_u64 :: "bytes \<Rightarrow> nat \<Rightarrow> u64" where
  "read_u64 mem addr = from_le_bytes (take 8 (drop addr mem))"

definition write_u64 :: "bytes \<Rightarrow> nat \<Rightarrow> u64 \<Rightarrow> bytes" where
  "write_u64 mem addr val = take addr mem @ le_bytes 8 val @ drop (addr + 8) mem"

text \<open>\<open>addr.checked_add(len).is_some_and(|end| end <= memory.len())\<close>\<close>

definition window_fits :: "u64 \<Rightarrow> nat \<Rightarrow> bytes \<Rightarrow> bool" where
  "window_fits addr len mem = (unat addr + len < 2 ^ 64 \<and> unat addr + len \<le> length mem)"

subsection \<open>The arms of the step\<close>

text \<open>What an arm hands to the row: the pair \<open>(dst_val, next_pc)\<close> and the memory access.\<close>

record effect =
  eff_dst :: u64
  eff_next :: u64
  eff_mem_addr :: "nat option"
  eff_mem_val :: "u64 option"
  eff_write :: bool

definition effect_of :: "u64 \<Rightarrow> u64 \<Rightarrow> effect" where
  "effect_of dst next = \<lparr> eff_dst = dst, eff_next = next, eff_mem_addr = None, eff_mem_val = None, eff_write = False \<rparr>"

text \<open>\<open>registers[dst_idx] = result; pc += 1; (result, cur_pc + 1)\<close>\<close>

definition put_reg :: "u8 \<Rightarrow> u64 \<Rightarrow> vm \<Rightarrow> vm" where
  "put_reg r x v = v\<lparr> vm_registers := (vm_registers v)[unat r := x] \<rparr>"

definition next_instr :: "vm \<Rightarrow> vm" where
  "next_instr v = v\<lparr> vm_pc := vm_pc v + 1 \<rparr>"

definition write_result :: "u8 \<Rightarrow> u64 \<Rightarrow> vm \<Rightarrow> (vm_error, effect, vm) outcome" where
  "write_result rd result v = (Inr (effect_of result (vm_pc v + 1)), next_instr (put_reg rd result v))"

definition bool_u64 :: "bool \<Rightarrow> u64" where
  "bool_u64 b = (if b then 1 else 0)"

fun arith_result :: "opcode \<Rightarrow> u64 \<Rightarrow> u64 \<Rightarrow> u64" where
  "arith_result Op_Add x y = field_add_goldilocks x y"
| "arith_result Op_Sub x y = field_sub_goldilocks x y"
| "arith_result Op_Mul x y = field_mul_goldilocks x y"
| "arith_result Op_Div x y =
     (if y \<noteq> 0 then ucast ((ucast x * ucast (field_inverse_goldilocks y)) mod (ucast GOLDILOCKS_P :: u128)) else 0)"
| "arith_result Op_Inv x y = (if x \<noteq> 0 then field_inverse_goldilocks x else 0)"
| "arith_result Op_And x y = x AND y"
| "arith_result Op_Not x y = bool_u64 (x = 0)"
| "arith_result _ x y = 0"

fun compare_result :: "opcode \<Rightarrow> u64 \<Rightarrow> u64 \<Rightarrow> u64" where
  "compare_result Op_Eq x y = bool_u64 (x = y)"
| "compare_result Op_Neq x y = bool_u64 (x \<noteq> y)"
| "compare_result Op_Lt x y = bool_u64 (x < y)"
| "compare_result Op_Gt x y = bool_u64 (x > y)"
| "compare_result Op_Lte x y = bool_u64 (x \<le> y)"
| "compare_result Op_Gte x y = bool_u64 (x \<ge> y)"
| "compare_result _ x y = 0"

definition exec_halt :: "vm \<Rightarrow> (vm_error, effect, vm) outcome" where
  "exec_halt v = (Inr (effect_of 0 (vm_pc v)), v\<lparr> vm_halted := True \<rparr>)"

definition exec_load :: "instruction \<Rightarrow> u64 \<Rightarrow> vm \<Rightarrow> (vm_error, effect, vm) outcome" where
  "exec_load i src1 v =
     (if i_rs1 i = 0 then write_result (i_rd i) (scast (i_imm i)) v
      else case memory_word_addr src1 (i_imm i) (length (vm_memory v)) of
        Some addr \<Rightarrow>
          (let val = read_u64 (vm_memory v) addr
           in (Inr ((effect_of val (vm_pc v + 1))\<lparr> eff_mem_addr := Some addr, eff_mem_val := Some val \<rparr>),
               next_instr (put_reg (i_rd i) val v)))
      | None \<Rightarrow> vm_fail InvalidMemoryAccess v)"

definition exec_store :: "instruction \<Rightarrow> u64 \<Rightarrow> u64 \<Rightarrow> vm \<Rightarrow> (vm_error, effect, vm) outcome" where
  "exec_store i src1 src2 v =
     (case memory_word_addr src1 (i_imm i) (length (vm_memory v)) of
        Some addr \<Rightarrow>
          (Inr ((effect_of 0 (vm_pc v + 1))\<lparr> eff_mem_addr := Some addr, eff_mem_val := Some src2, eff_write := True \<rparr>),
           next_instr (v\<lparr> vm_memory := write_u64 (vm_memory v) addr src2 \<rparr>))
      | None \<Rightarrow> vm_fail InvalidMemoryAccess v)"

text \<open>\<open>(cur_pc as i64 + inst.imm as i64) as usize\<close>\<close>

definition jump_target :: "u64 \<Rightarrow> i32 \<Rightarrow> u64" where
  "jump_target cur_pc imm = cur_pc + scast imm"

definition exec_jmp :: "instruction \<Rightarrow> vm \<Rightarrow> (vm_error, effect, vm) outcome" where
  "exec_jmp i v =
     (let target = jump_target (vm_pc v) (i_imm i)
      in (Inr (effect_of 0 target), v\<lparr> vm_pc := target \<rparr>))"

definition exec_jnz :: "instruction \<Rightarrow> u64 \<Rightarrow> vm \<Rightarrow> (vm_error, effect, vm) outcome" where
  "exec_jnz i src1 v =
     (let target = (if src1 \<noteq> 0 then jump_target (vm_pc v) (i_imm i) else vm_pc v + 1)
      in (Inr (effect_of 0 target), v\<lparr> vm_pc := target \<rparr>))"

definition exec_call :: "instruction \<Rightarrow> vm \<Rightarrow> (vm_error, effect, vm) outcome" where
  "exec_call i v =
     (if length (vm_stack v) \<ge> 1024 then vm_fail StackOverflow v
      else let target = jump_target (vm_pc v) (i_imm i)
           in (Inr (effect_of (vm_pc v + 1) target),
               v\<lparr> vm_stack := vm_stack v @ [vm_pc v + 1], vm_pc := target \<rparr>))"

definition exec_ret :: "vm \<Rightarrow> (vm_error, effect, vm) outcome" where
  "exec_ret v =
     (if vm_stack v = [] then vm_fail StackUnderflow v
      else let target = last (vm_stack v)
           in (Inr (effect_of target target), v\<lparr> vm_stack := butlast (vm_stack v), vm_pc := target \<rparr>))"

definition exec_push :: "u64 \<Rightarrow> vm \<Rightarrow> (vm_error, effect, vm) outcome" where
  "exec_push src1 v =
     (if length (vm_stack v) \<ge> 1024 then vm_fail StackOverflow v
      else (Inr (effect_of src1 (vm_pc v + 1)), next_instr (v\<lparr> vm_stack := vm_stack v @ [src1] \<rparr>)))"

definition exec_pop :: "instruction \<Rightarrow> vm \<Rightarrow> (vm_error, effect, vm) outcome" where
  "exec_pop i v =
     (if vm_stack v = [] then vm_fail StackUnderflow v
      else write_result (i_rd i) (last (vm_stack v)) (v\<lparr> vm_stack := butlast (vm_stack v) \<rparr>))"

definition exec_assert :: "u64 \<Rightarrow> vm \<Rightarrow> (vm_error, effect, vm) outcome" where
  "exec_assert src1 v =
     (if src1 = 0 then vm_fail AssertionFailed v
      else (Inr (effect_of 0 (vm_pc v + 1)), next_instr v))"

text \<open>The slot of a storage access: \<open>imm\<close>, or the register when \<open>imm\<close> is \<open>-1\<close>.\<close>

definition storage_slot :: "instruction \<Rightarrow> u64 \<Rightarrow> i32" where
  "storage_slot i src2 = (if i_imm i = - 1 then ucast src2 else i_imm i)"

definition exec_sread :: "instruction \<Rightarrow> u64 \<Rightarrow> vm \<Rightarrow> (vm_error, effect, vm) outcome" where
  "exec_sread i src2 v =
     write_result (i_rd i) (case vm_storage v (storage_slot i src2) of Some x \<Rightarrow> x | None \<Rightarrow> 0) v"

definition exec_swrite :: "instruction \<Rightarrow> u64 \<Rightarrow> u64 \<Rightarrow> vm \<Rightarrow> (vm_error, effect, vm) outcome" where
  "exec_swrite i src1 src2 v =
     (let slot = storage_slot i src2
      in (Inr (effect_of 0 (vm_pc v + 1)),
          next_instr (v\<lparr> vm_storage := (vm_storage v)(slot \<mapsto> src1),
                         vm_state_writes := vm_state_writes v @ [(slot, src1)] \<rparr>)))"

definition exec_poseidon :: "instruction \<Rightarrow> u64 \<Rightarrow> u64 \<Rightarrow> vm \<Rightarrow> (vm_error, effect, vm) outcome" where
  "exec_poseidon i src1 src2 v = write_result (i_rd i) (poseidon4_hash src1 src2) v"

definition exec_log :: "u64 \<Rightarrow> vm \<Rightarrow> (vm_error, effect, vm) outcome" where
  "exec_log src1 v =
     (Inr (effect_of 0 (vm_pc v + 1)), next_instr (v\<lparr> vm_events := vm_events v @ [src1] \<rparr>))"

definition exec_syscall :: "instruction \<Rightarrow> u64 \<Rightarrow> vm \<Rightarrow> (vm_error, effect, vm) outcome" where
  "exec_syscall i src1 v =
     (if i_imm i = 1 then write_result (i_rd i) (ctx_sender (vm_ctx v)) v
      else if i_imm i = 2 then write_result (i_rd i) (ctx_block_height (vm_ctx v)) v
      else if i_imm i = 3 then write_result (i_rd i) (ctx_nonce (vm_ctx v)) v
      else if i_imm i = 6 then
        write_result (i_rd i) (sat_add (ctx_block_height (vm_ctx v)) src1)
          (v\<lparr> vm_events := vm_events v @ [0x00A100A1, src1] \<rparr>)
      else write_result (i_rd i) 0 v)"

text \<open>One round of the path walk, and the walk over the 64 siblings behind the key.\<close>

definition merkle_path_round :: "bytes \<Rightarrow> nat \<Rightarrow> u64 \<Rightarrow> nat \<Rightarrow> u64 \<Rightarrow> u64" where
  "merkle_path_round mem path_addr key i current =
     (let sibling = read_u64 mem (path_addr + 8 + i * 8);
          direction = drop_bit i key AND 1
      in if direction = 0 then merkle_poseidon_round current sibling
         else merkle_poseidon_round sibling current)"

definition merkle_path_root :: "bytes \<Rightarrow> nat \<Rightarrow> u64 \<Rightarrow> u64" where
  "merkle_path_root mem path_addr leaf =
     fold (merkle_path_round mem path_addr (read_u64 mem path_addr)) [0..<64] leaf"

definition exec_verify_merkle :: "instruction \<Rightarrow> u64 \<Rightarrow> u64 \<Rightarrow> vm \<Rightarrow> (vm_error, effect, vm) outcome" where
  "exec_verify_merkle i root leaf v =
     (let path_addr = scast (i_imm i) :: u64
      in if window_fits path_addr (8 * 65) (vm_memory v) then
           (let key = read_u64 (vm_memory v) (unat path_addr);
                result = bool_u64 (merkle_path_root (vm_memory v) (unat path_addr) leaf = root)
            in (Inr ((effect_of result (vm_pc v + 1))\<lparr> eff_mem_addr := Some (unat path_addr), eff_mem_val := Some key \<rparr>),
                next_instr (put_reg (i_rd i) result v)))
         else write_result (i_rd i) 0 v)"

text \<open>\<open>if dst_idx > 0 \{ registers[dst_idx] = result \}\<close>\<close>

definition write_result_nonzero :: "u8 \<Rightarrow> u64 \<Rightarrow> vm \<Rightarrow> (vm_error, effect, vm) outcome" where
  "write_result_nonzero rd result v =
     (Inr (effect_of result (vm_pc v + 1)), next_instr (if rd > 0 then put_reg rd result v else v))"

definition exec_verify_inference :: "instruction \<Rightarrow> u64 \<Rightarrow> vm \<Rightarrow> (vm_error, effect, vm) outcome" where
  "exec_verify_inference i src1 v =
     (let result =
        (if window_fits src1 (8 * 4) (vm_memory v) then
           (let model_c = read_u64 (vm_memory v) (unat src1);
                input_c = read_u64 (vm_memory v) (unat src1 + 8);
                output_c = read_u64 (vm_memory v) (unat src1 + 16)
            in bool_u64 (output_c = poseidon4_hash model_c input_c))
         else 0)
      in write_result_nonzero (i_rd i) result v)"

text \<open>The recipient tag as a field element: a negative \<open>imm\<close> is \<open>P - |imm|\<close>.\<close>

definition recipient_tag :: "i32 \<Rightarrow> u64" where
  "recipient_tag imm = (if sint imm < 0 then GOLDILOCKS_P - of_int \<bar>sint imm\<bar> else scast imm)"

definition exec_privacy_commit :: "instruction \<Rightarrow> u64 \<Rightarrow> u64 \<Rightarrow> vm \<Rightarrow> (vm_error, effect, vm) outcome" where
  "exec_privacy_commit i amount blinding v =
     write_result_nonzero (i_rd i) (poseidon4_hash3 amount blinding (recipient_tag (i_imm i))) v"

definition exec_nullifier_check :: "instruction \<Rightarrow> u64 \<Rightarrow> u64 \<Rightarrow> vm \<Rightarrow> (vm_error, effect, vm) outcome" where
  "exec_nullifier_check i claimed secret v =
     write_result_nonzero (i_rd i) (bool_u64 (poseidon4_hash secret DOMAIN_NULLIFIER = claimed)) v"

definition exec_sum_conservation :: "instruction \<Rightarrow> u64 \<Rightarrow> u64 \<Rightarrow> vm \<Rightarrow> (vm_error, effect, vm) outcome" where
  "exec_sum_conservation i sum_in sum_out v =
     write_result_nonzero (i_rd i)
       (bool_u64 (sum_in < GOLDILOCKS_P \<and> sum_out < GOLDILOCKS_P \<and> sum_in = sum_out)) v"

text \<open>The match on the opcode.\<close>

definition exec_instruction :: "instruction \<Rightarrow> u64 \<Rightarrow> u64 \<Rightarrow> vm \<Rightarrow> (vm_error, effect, vm) outcome" where
  "exec_instruction i src1 src2 v =
     (case i_opcode i of
        Op_Halt \<Rightarrow> exec_halt v
      | Op_Add \<Rightarrow> write_result (i_rd i) (arith_result Op_Add src1 src2) v
      | Op_Sub \<Rightarrow> write_result (i_rd i) (arith_result Op_Sub src1 src2) v
      | Op_Mul \<Rightarrow> write_result (i_rd i) (arith_result Op_Mul src1 src2) v
      | Op_Div \<Rightarrow> write_result (i_rd i) (arith_result Op_Div src1 src2) v
      | Op_Inv \<Rightarrow> write_result (i_rd i) (arith_result Op_Inv src1 src2) v
      | Op_And \<Rightarrow> write_result (i_rd i) (arith_result Op_And src1 src2) v
      | Op_Not \<Rightarrow> write_result (i_rd i) (arith_result Op_Not src1 src2) v
      | Op_Load \<Rightarrow> exec_load i src1 v
      | Op_Store \<Rightarrow> exec_store i src1 src2 v
      | Op_Jmp \<Rightarrow> exec_jmp i v
      | Op_Jnz \<Rightarrow> exec_jnz i src1 v
      | Op_Call \<Rightarrow> exec_call i v
      | Op_Ret \<Rightarrow> exec_ret v
      | Op_Push \<Rightarrow> exec_push src1 v
      | Op_Pop \<Rightarrow> exec_pop i v
      | Op_Eq \<Rightarrow> write_result (i_rd i) (compare_result Op_Eq src1 src2) v
      | Op_Neq \<Rightarrow> write_result (i_rd i) (compare_result Op_Neq src1 src2) v
      | Op_Lt \<Rightarrow> write_result (i_rd i) (compare_result Op_Lt src1 src2) v
      | Op_Gt \<Rightarrow> write_result (i_rd i) (compare_result Op_Gt src1 src2) v
      | Op_Lte \<Rightarrow> write_result (i_rd i) (compare_result Op_Lte src1 src2) v
      | Op_Gte \<Rightarrow> write_result (i_rd i) (compare_result Op_Gte src1 src2) v
      | Op_Assert \<Rightarrow> exec_assert src1 v
      | Op_SRead \<Rightarrow> exec_sread i src2 v
      | Op_SWrite \<Rightarrow> exec_swrite i src1 src2 v
      | Op_Poseidon \<Rightarrow> exec_poseidon i src1 src2 v
      | Op_Log \<Rightarrow> exec_log src1 v
      | Op_Syscall \<Rightarrow> exec_syscall i src1 v
      | Op_VerifyMerkle \<Rightarrow> exec_verify_merkle i src1 src2 v
      | Op_VerifyInference \<Rightarrow> exec_verify_inference i src1 v
      | Op_PrivacyCommit \<Rightarrow> exec_privacy_commit i src1 src2 v
      | Op_NullifierCheck \<Rightarrow> exec_nullifier_check i src1 src2 v
      | Op_SumConservation \<Rightarrow> exec_sum_conservation i src1 src2 v)"

subsection \<open>The rows of the trace\<close>

definition reset_r0 :: "vm \<Rightarrow> vm" where
  "reset_r0 v = put_reg 0 0 v"

definition base_row :: "u64 \<Rightarrow> instruction \<Rightarrow> u64 \<Rightarrow> u64 \<Rightarrow> effect \<Rightarrow> vm \<Rightarrow> trace_step" where
  "base_row cur_pc i src1 src2 eff v =
     \<lparr> st_pc = cur_pc, st_next_pc = eff_next eff, st_instruction = i,
       st_src1_idx = i_rs1 i, st_src2_idx = i_rs2 i, st_dst_idx = i_rd i,
       st_src1_val = src1, st_src2_val = src2, st_dst_val = eff_dst eff,
       st_registers = vm_registers v, st_memory_addr = eff_mem_addr eff, st_memory_val = eff_mem_val eff,
       st_is_memory_write = eff_write eff, st_stack_pointer = length (vm_stack v),
       st_merkle_key = None, st_merkle_current = None, st_merkle_sibling = None, st_merkle_round = None,
       st_merkle_is_expand = False, st_inference_model = None, st_inference_input = None,
       st_inference_output = None, st_inference_round = None, st_inference_is_expand = False \<rparr>"

definition push_row :: "trace_step \<Rightarrow> vm \<Rightarrow> vm" where
  "push_row row v = v\<lparr> vm_trace := vm_trace v @ [row] \<rparr>"

text \<open>\<open>if let Some(last) = trace.last_mut()\<close>\<close>

definition patch_last :: "(trace_step \<Rightarrow> trace_step) \<Rightarrow> vm \<Rightarrow> vm" where
  "patch_last f v =
     (if vm_trace v = [] then v
      else v\<lparr> vm_trace := butlast (vm_trace v) @ [f (last (vm_trace v))] \<rparr>)"

definition merkle_row :: "u64 \<Rightarrow> instruction \<Rightarrow> u64 \<Rightarrow> nat \<Rightarrow> nat \<Rightarrow> u64 \<Rightarrow> u64 \<Rightarrow> vm \<Rightarrow> trace_step" where
  "merkle_row cur_pc i key k sibling_addr sibling input v =
     \<lparr> st_pc = cur_pc, st_next_pc = (if k = 63 then cur_pc + 1 else cur_pc),
       st_instruction = \<lparr> i_opcode = Op_VerifyMerkle, i_rd = 0, i_rs1 = 0, i_rs2 = 0, i_imm = i_imm i \<rparr>,
       st_src1_idx = 0, st_src2_idx = 0, st_dst_idx = 0,
       st_src1_val = 0, st_src2_val = 0, st_dst_val = 0,
       st_registers = vm_registers v, st_memory_addr = Some sibling_addr, st_memory_val = Some sibling,
       st_is_memory_write = False, st_stack_pointer = length (vm_stack v),
       st_merkle_key = Some key, st_merkle_current = Some input, st_merkle_sibling = Some sibling,
       st_merkle_round = Some (of_nat k), st_merkle_is_expand = True,
       st_inference_model = None, st_inference_input = None,
       st_inference_output = None, st_inference_round = None, st_inference_is_expand = False \<rparr>"

text \<open>The body of the loop over the 64 rounds: the state is the accumulator and the machine.\<close>

definition merkle_expand_round :: "u64 \<Rightarrow> instruction \<Rightarrow> nat \<Rightarrow> u64 \<Rightarrow> nat \<Rightarrow> u64 \<times> vm \<Rightarrow> u64 \<times> vm" where
  "merkle_expand_round cur_pc i path_addr key k cv =
     (case cv of (current, v) \<Rightarrow>
        let sibling_addr = path_addr + 8 + k * 8;
            sibling = read_u64 (vm_memory v) sibling_addr;
            direction = drop_bit k key AND 1;
            input = current;
            current = (if direction = 0 then merkle_poseidon_round input sibling
                       else merkle_poseidon_round sibling input)
        in (current, push_row (merkle_row cur_pc i key k sibling_addr sibling input v) v))"

definition merkle_expansion :: "u64 \<Rightarrow> instruction \<Rightarrow> u64 \<Rightarrow> vm \<Rightarrow> vm" where
  "merkle_expansion cur_pc i src2 v =
     (let path_addr = scast (i_imm i) :: u64
      in if window_fits path_addr (8 * 65) (vm_memory v) then
           (let key = read_u64 (vm_memory v) (unat path_addr);
                v = patch_last (\<lambda>s. s\<lparr> st_merkle_key := Some key \<rparr>) v;
                v = patch_last (\<lambda>s. s\<lparr> st_next_pc := cur_pc \<rparr>) v;
                (current, v) = fold (merkle_expand_round cur_pc i (unat path_addr) key) [0..<64] (src2, v);
                orig_idx = length (vm_trace v) - 1 - 64
            in if orig_idx < length (vm_trace v)
               then v\<lparr> vm_trace := (vm_trace v)[orig_idx := (vm_trace v ! orig_idx)\<lparr> st_merkle_current := Some current \<rparr>] \<rparr>
               else v)
         else v)"

definition inference_row :: "u64 \<Rightarrow> instruction \<Rightarrow> u64 \<Rightarrow> u64 \<Rightarrow> u64 \<Rightarrow> u64 \<Rightarrow> u64 \<Rightarrow> vm \<Rightarrow> nat \<Rightarrow> trace_step" where
  "inference_row cur_pc i src1 src2 model_c input_c output_c v round =
     \<lparr> st_pc = cur_pc, st_next_pc = (if round = 7 then cur_pc + 1 else cur_pc),
       st_instruction = \<lparr> i_opcode = Op_VerifyInference, i_rd = 0, i_rs1 = i_rs1 i, i_rs2 = i_rs2 i, i_imm = of_nat round \<rparr>,
       st_src1_idx = i_rs1 i, st_src2_idx = i_rs2 i, st_dst_idx = 0,
       st_src1_val = src1, st_src2_val = src2, st_dst_val = 0,
       st_registers = vm_registers v, st_memory_addr = None, st_memory_val = None,
       st_is_memory_write = False, st_stack_pointer = length (vm_stack v),
       st_merkle_key = None, st_merkle_current = None, st_merkle_sibling = None, st_merkle_round = None,
       st_merkle_is_expand = False, st_inference_model = Some model_c, st_inference_input = Some input_c,
       st_inference_output = Some output_c, st_inference_round = Some (of_nat round), st_inference_is_expand = True \<rparr>"

definition inference_expansion :: "u64 \<Rightarrow> instruction \<Rightarrow> u64 \<Rightarrow> u64 \<Rightarrow> vm \<Rightarrow> vm" where
  "inference_expansion cur_pc i src1 src2 v =
     (if window_fits src1 (8 * 4) (vm_memory v) then
        (let model_c = read_u64 (vm_memory v) (unat src1);
             input_c = read_u64 (vm_memory v) (unat src1 + 8);
             output_c = read_u64 (vm_memory v) (unat src1 + 16);
             v = patch_last (\<lambda>s. s\<lparr> st_inference_model := Some model_c, st_inference_input := Some input_c,
                                   st_inference_output := Some output_c, st_next_pc := cur_pc \<rparr>) v
         in fold (\<lambda>round v. push_row (inference_row cur_pc i src1 src2 model_c input_c output_c v round) v) [0..<8] v)
      else v)"

subsection \<open>A step and a run\<close>

text \<open>What follows the match: register 0, the row of the instruction and its expansion rows.\<close>

definition finish_step :: "u64 \<Rightarrow> instruction \<Rightarrow> u64 \<Rightarrow> u64 \<Rightarrow> effect \<Rightarrow> vm \<Rightarrow> vm" where
  "finish_step cur_pc i src1 src2 eff v =
     (let v = reset_r0 v;
          v = push_row (base_row cur_pc i src1 src2 eff v) v;
          v = (if i_opcode i = Op_VerifyMerkle then merkle_expansion cur_pc i src2 v else v)
      in if i_opcode i = Op_VerifyInference then inference_expansion cur_pc i src1 src2 v else v)"

definition vm_step :: "u64 list \<Rightarrow> vm \<Rightarrow> (vm_error, unit, vm) outcome" where
  "vm_step program v =
     (let v = reset_r0 v
      in if vm_halted v then (Inr (), v)
         else if unat (vm_pc v) \<ge> length program then vm_fail InvalidPc v
         else case decode_instruction (program ! unat (vm_pc v)) (vm_mainnet_mode v) of
           Inl e \<Rightarrow> vm_fail (InvalidOpcode e) v
         | Inr i \<Rightarrow>
             (let cur_pc = vm_pc v
              in case consume_gas (gas_cost (i_opcode i)) v of
                   (Inl e, v) \<Rightarrow> (Inl e, v)
                 | (Inr _, v) \<Rightarrow>
                     (let src1 = vm_registers v ! unat (i_rs1 i);
                          src2 = vm_registers v ! unat (i_rs2 i)
                      in case exec_instruction i src1 src2 v of
                           (Inl e, v) \<Rightarrow> (Inl e, v)
                         | (Inr eff, v) \<Rightarrow> (Inr (), finish_step cur_pc i src1 src2 eff v))))"

text \<open>
  The loop \<open>while !halted\<close>, with a bound on its iterations: \<open>None\<close> when the bound is
  used up, otherwise the error that ended the loop, if any, and the machine.
\<close>

fun run_loop :: "nat \<Rightarrow> u64 list \<Rightarrow> vm \<Rightarrow> (vm_error option \<times> vm) option" where
  "run_loop 0 program v = (if vm_halted v then Some (None, v) else None)"
| "run_loop (Suc n) program v =
     (if vm_halted v then Some (None, v)
      else case vm_step program v of
        (Inl e, v') \<Rightarrow> Some (Some e, v')
      | (Inr _, v') \<Rightarrow> run_loop n program v')"

definition halt_row :: "vm \<Rightarrow> trace_step" where
  "halt_row v =
     base_row (vm_pc v) \<lparr> i_opcode = Op_Halt, i_rd = 0, i_rs1 = 0, i_rs2 = 0, i_imm = 0 \<rparr> 0 0
       (effect_of 0 (vm_pc v)) v"

definition push_synthetic_halt :: "vm \<Rightarrow> vm" where
  "push_synthetic_halt v =
     (let last_is_halt = (vm_trace v \<noteq> [] \<and> i_opcode (st_instruction (last (vm_trace v))) = Op_Halt)
      in if \<not> last_is_halt then push_row (halt_row v) v else v)"

definition state_writes_acc :: "(i32 \<times> u64) list \<Rightarrow> u64 list" where
  "state_writes_acc ws =
     fold (\<lambda>(slot, val) acc. poseidon_full_state [scast slot, val, acc ! 0, acc ! 1, acc ! 2, acc ! 3, 0, 0])
       ws (replicate 8 0)"

definition state_writes_digest :: "(i32 \<times> u64) list \<Rightarrow> bytes" where
  "state_writes_digest ws = concat (map (\<lambda>k. le_bytes 8 (state_writes_acc ws ! k)) [0..<4])"

definition run_receipt :: "nat \<Rightarrow> u64 list \<Rightarrow> vm \<Rightarrow> (execution_receipt \<times> vm) option" where
  "run_receipt fuel program v =
     (case run_loop fuel program v of
        None \<Rightarrow> None
      | Some (err, v) \<Rightarrow>
          (let v = (if err \<noteq> None then push_synthetic_halt v else v)
           in Some (\<lparr> rc_success = (err = None), rc_error = err, rc_gas_used = vm_gas_used v,
                      rc_exit_code = (if err = None then 0 else 1), rc_events = vm_events v,
                      rc_final_pc = vm_pc v, rc_trace_len = of_nat (length (vm_trace v)),
                      rc_state_writes_digest = state_writes_digest (vm_state_writes v) \<rparr>, v)))"

definition vm_run :: "nat \<Rightarrow> u64 list \<Rightarrow> vm \<Rightarrow> ((vm_error + execution_receipt) \<times> vm) option" where
  "vm_run fuel program v =
     (case run_receipt fuel program v of
        None \<Rightarrow> None
      | Some (receipt, v) \<Rightarrow>
          Some (case rc_error receipt of Some e \<Rightarrow> Inl e | None \<Rightarrow> Inr receipt, v))"

end
