(* ===== verification/Bud_Vm_Step.thy ===== *)
theory Bud_Vm_Step
  imports Bud_Vm
begin

text \<open>
  What a step of the virtual machine does to each part of its state: the frame of every
  arm, the rows a step appends, and the elimination rule the invariants are proved with.
\<close>

lemmas exec_arms =
  exec_halt_def exec_load_def exec_store_def exec_jmp_def exec_jnz_def exec_call_def exec_ret_def
  exec_push_def exec_pop_def exec_assert_def exec_sread_def exec_swrite_def exec_poseidon_def
  exec_log_def exec_syscall_def exec_verify_merkle_def exec_verify_inference_def
  exec_privacy_commit_def exec_nullifier_check_def exec_sum_conservation_def
  write_result_def write_result_nonzero_def

lemmas exec_frame_defs = effect_of_def next_instr_def put_reg_def

subsection \<open>Memory words\<close>

lemma length_write_u64 [simp]: "addr + 8 \<le> length mem \<Longrightarrow> length (write_u64 mem addr x) = length mem"
  by (simp add: write_u64_def)

lemma take_bit_u64 [simp]: "take_bit 64 (x :: u64) = x"
  by (rule bit_word_eqI) (simp add: bit_take_bit_iff)

lemma read_write_u64: "addr + 8 \<le> length mem \<Longrightarrow> read_u64 (write_u64 mem addr x) addr = x"
  by (simp add: read_u64_def write_u64_def from_le_bytes_le_bytes)

lemma read_write_u64_other:
  assumes "a + 8 \<le> length mem" "a + 8 \<le> b \<or> b + 8 \<le> a"
  shows "read_u64 (write_u64 mem a x) b = read_u64 mem b"
  using assms(2)
proof
  assume b: "a + 8 \<le> b"
  then have "drop b (write_u64 mem a x) = drop b mem"
    using assms(1) by (simp add: write_u64_def drop_Cons' min_absorb2 add.commute)
  then show ?thesis by (simp add: read_u64_def)
next
  assume b: "b + 8 \<le> a"
  then have "take 8 (drop b (write_u64 mem a x)) = take 8 (drop b mem)"
    using assms(1) by (simp add: write_u64_def take_drop min_absorb2 min_def)
  then show ?thesis by (simp add: read_u64_def)
qed

lemma memory_word_addr_Some:
  "memory_word_addr base imm n = Some a \<longleftrightarrow>
     uint base + sint imm = int a \<and> int a + 8 < 2 ^ 64 \<and> a + 8 \<le> n"
  by (auto simp: memory_word_addr_def Let_def split: if_splits)

subsection \<open>The arms\<close>

lemma exec_error:
  "exec_instruction i x y v = (Inl e, w) \<Longrightarrow> w = v\<lparr> vm_halted := True, vm_error := Some e \<rparr>"
  by (cases "i_opcode i")
    (auto simp: exec_instruction_def exec_arms vm_fail_def Let_def split: if_splits option.splits)

definition exec_frame :: "opcode \<Rightarrow> vm \<Rightarrow> effect \<Rightarrow> vm \<Rightarrow> bool" where
  "exec_frame opc v eff w \<longleftrightarrow>
     vm_trace w = vm_trace v \<and> vm_gas_used w = vm_gas_used v \<and> vm_gas_limit w = vm_gas_limit v \<and>
     vm_mainnet_mode w = vm_mainnet_mode v \<and> vm_ctx w = vm_ctx v \<and> vm_error w = vm_error v \<and>
     length (vm_memory w) = length (vm_memory v) \<and> length (vm_registers w) = length (vm_registers v) \<and>
     (length (vm_stack v) \<le> 1024 \<longrightarrow> length (vm_stack w) \<le> 1024) \<and>
     vm_pc w = eff_next eff \<and> vm_halted w = (vm_halted v \<or> opc = Op_Halt)"

lemma exec_ok_frame:
  "exec_instruction i x y v = (Inr eff, w) \<Longrightarrow> exec_frame (i_opcode i) v eff w"
  by (cases "i_opcode i")
    (auto simp: exec_frame_def exec_instruction_def exec_arms exec_frame_defs vm_fail_def Let_def
      memory_word_addr_Some split: if_splits option.splits)

lemma exec_ok_memory:
  assumes "exec_instruction i x y v = (Inr eff, w)"
  shows "if eff_write eff
    then \<exists>a z. eff_mem_addr eff = Some a \<and> eff_mem_val eff = Some z \<and> vm_memory w = write_u64 (vm_memory v) a z
    else vm_memory w = vm_memory v \<and>
         (\<forall>a. eff_mem_addr eff = Some a \<longrightarrow> eff_mem_val eff = Some (read_u64 (vm_memory v) a))"
  using assms
  by (cases "i_opcode i")
    (auto simp: exec_instruction_def exec_arms exec_frame_defs vm_fail_def Let_def
      split: if_splits option.splits)

definition apply_writes :: "(i32 \<times> u64) list \<Rightarrow> (i32 \<Rightarrow> u64 option) \<Rightarrow> (i32 \<Rightarrow> u64 option)" where
  "apply_writes ws m = fold (\<lambda>(slot, x) m. m(slot \<mapsto> x)) ws m"

lemma exec_ok_storage:
  assumes "exec_instruction i x y v = (Inr eff, w)"
  obtains ws where "vm_state_writes w = vm_state_writes v @ ws" "vm_storage w = apply_writes ws (vm_storage v)"
proof (cases "i_opcode i = Op_SWrite")
  case True
  then show ?thesis
    using assms that [of "[(storage_slot i y, x)]"]
    by (auto simp: apply_writes_def exec_instruction_def exec_swrite_def exec_frame_defs Let_def)
next
  case False
  then have "vm_state_writes w = vm_state_writes v \<and> vm_storage w = vm_storage v"
    using assms
    by (cases "i_opcode i")
      (auto simp: exec_instruction_def exec_arms exec_frame_defs vm_fail_def Let_def
        split: if_splits option.splits)
  then show ?thesis using that [of "[]"] by (simp add: apply_writes_def)
qed

subsection \<open>The rows\<close>

primrec merkle_rows :: "u64 \<Rightarrow> instruction \<Rightarrow> nat \<Rightarrow> u64 \<Rightarrow> vm \<Rightarrow> u64 \<Rightarrow> nat list \<Rightarrow> trace_step list" where
  "merkle_rows pc i pa key v c [] = []"
| "merkle_rows pc i pa key v c (k # ks) =
     merkle_row pc i key k (pa + 8 + k * 8) (read_u64 (vm_memory v) (pa + 8 + k * 8)) c v
     # merkle_rows pc i pa key v (merkle_path_round (vm_memory v) pa key k c) ks"

lemma merkle_rows_trace [simp]:
  "merkle_rows pc i pa key (v\<lparr> vm_trace := t \<rparr>) c ks = merkle_rows pc i pa key v c ks"
  by (induction ks arbitrary: c) (simp_all add: merkle_row_def)

lemma merkle_expand_fold:
  "fold (merkle_expand_round pc i pa key) ks (c, v) =
     (fold (merkle_path_round (vm_memory v) pa key) ks c,
      v\<lparr> vm_trace := vm_trace v @ merkle_rows pc i pa key v c ks \<rparr>)"
proof (induction ks arbitrary: c v)
  case (Cons k ks)
  have "merkle_expand_round pc i pa key k (c, v) =
      (merkle_path_round (vm_memory v) pa key k c,
       v\<lparr> vm_trace := vm_trace v @ [merkle_row pc i key k (pa + 8 + k * 8) (read_u64 (vm_memory v) (pa + 8 + k * 8)) c v] \<rparr>)"
    by (simp add: merkle_expand_round_def merkle_path_round_def push_row_def Let_def)
  then show ?case by (simp add: Cons.IH)
qed simp

lemma length_merkle_rows [simp]: "length (merkle_rows pc i pa key v c ks) = length ks"
  by (induction ks arbitrary: c) simp_all

text \<open>The row of the instruction and its expansion rows, as one list.\<close>

definition step_rows :: "u64 \<Rightarrow> instruction \<Rightarrow> u64 \<Rightarrow> u64 \<Rightarrow> effect \<Rightarrow> vm \<Rightarrow> trace_step list" where
  "step_rows pc i x y eff v =
     (let b = base_row pc i x y eff v; mem = vm_memory v; pa = scast (i_imm i) :: u64 in
      if i_opcode i = Op_VerifyMerkle \<and> window_fits pa (8 * 65) mem then
        b\<lparr> st_merkle_key := Some (read_u64 mem (unat pa)), st_next_pc := pc,
           st_merkle_current := Some (merkle_path_root mem (unat pa) y) \<rparr>
        # merkle_rows pc i (unat pa) (read_u64 mem (unat pa)) v y [0..<64]
      else if i_opcode i = Op_VerifyInference \<and> window_fits x (8 * 4) mem then
        b\<lparr> st_inference_model := Some (read_u64 mem (unat x)), st_inference_input := Some (read_u64 mem (unat x + 8)),
           st_inference_output := Some (read_u64 mem (unat x + 16)), st_next_pc := pc \<rparr>
        # map (inference_row pc i x y (read_u64 mem (unat x)) (read_u64 mem (unat x + 8))
               (read_u64 mem (unat x + 16)) v) [0..<8]
      else [b])"

lemma inference_row_trace [simp]:
  "inference_row pc i x y m n q (v\<lparr> vm_trace := t \<rparr>) k = inference_row pc i x y m n q v k"
  by (simp add: inference_row_def)

lemma inference_fold:
  "fold (\<lambda>k v. v\<lparr> vm_trace := vm_trace v @ [inference_row pc i x y m n q v k] \<rparr>) ks v =
     v\<lparr> vm_trace := vm_trace v @ map (inference_row pc i x y m n q v) ks \<rparr>"
proof (induction ks arbitrary: v)
  case (Cons k ks)
  have "inference_row pc i x y m n q (v\<lparr> vm_trace := t \<rparr>) = inference_row pc i x y m n q v" for t
    by (rule ext) simp
  then show ?case by (simp add: Cons.IH)
qed simp

lemma finish_step_trace:
  "finish_step pc i x y eff w =
     (reset_r0 w)\<lparr> vm_trace := vm_trace w @ step_rows pc i x y eff (reset_r0 w) \<rparr>"
proof -
  let ?v = "reset_r0 w"
  have tr: "vm_trace ?v = vm_trace w" by (simp add: reset_r0_def put_reg_def)
  have inf: "inference_row pc i x y m n q (v\<lparr> vm_trace := t \<rparr>) = inference_row pc i x y m n q v" for m n q v t
    by (rule ext) simp
  show ?thesis
  proof (cases "i_opcode i = Op_VerifyMerkle")
    case True
    then show ?thesis
      by (auto simp: finish_step_def step_rows_def merkle_expansion_def push_row_def patch_last_def Let_def tr
          merkle_expand_fold merkle_path_root_def list_update_append nth_append)
  next
    case False
    then show ?thesis
      by (auto simp: finish_step_def step_rows_def inference_expansion_def push_row_def patch_last_def Let_def tr
          inference_fold inf)
  qed
qed

subsection \<open>The step\<close>

lemma vm_step_halted: "vm_halted v \<Longrightarrow> vm_step p v = (Inr (), reset_r0 v)"
  by (simp add: vm_step_def reset_r0_def put_reg_def Let_def)

lemma reset_r0_fields [simp]:
  "vm_pc (reset_r0 v) = vm_pc v" "vm_stack (reset_r0 v) = vm_stack v" "vm_memory (reset_r0 v) = vm_memory v"
  "vm_storage (reset_r0 v) = vm_storage v" "vm_events (reset_r0 v) = vm_events v" "vm_ctx (reset_r0 v) = vm_ctx v"
  "vm_trace (reset_r0 v) = vm_trace v" "vm_halted (reset_r0 v) = vm_halted v"
  "vm_gas_used (reset_r0 v) = vm_gas_used v" "vm_gas_limit (reset_r0 v) = vm_gas_limit v"
  "vm_error (reset_r0 v) = vm_error v" "vm_state_writes (reset_r0 v) = vm_state_writes v"
  "vm_mainnet_mode (reset_r0 v) = vm_mainnet_mode v" "vm_registers (reset_r0 v) = (vm_registers v)[0 := 0]"
  by (simp_all add: reset_r0_def put_reg_def)

lemma vm_step_error:
  assumes "vm_step p v = (Inl e, w)"
  obtains g where "\<not> vm_halted v" "vm_gas_used v \<le> g"
    "e \<noteq> OutOfGas \<and> vm_gas_used v \<le> vm_gas_limit v \<longrightarrow> g \<le> vm_gas_limit v"
    "w = (reset_r0 v)\<lparr> vm_gas_used := g, vm_halted := True, vm_error := Some e \<rparr>"
proof (cases "unat (vm_pc v) < length p")
  case False
  then show ?thesis
    using assms that [of "vm_gas_used v"]
    by (auto simp: vm_step_def vm_fail_def Let_def split: if_splits)
next
  case pc: True
  have running: "\<not> vm_halted v" using assms by (auto simp: vm_step_halted)
  show ?thesis
  proof (cases "decode_instruction (p ! unat (vm_pc v)) (vm_mainnet_mode v)")
    case (Inl d)
    then show ?thesis
      using assms pc running that [of "vm_gas_used v"] by (auto simp: vm_step_def vm_fail_def Let_def)
  next
    case (Inr i)
    define g where "g = sat_add (vm_gas_used v) (gas_cost (i_opcode i))"
    have g: "vm_gas_used v \<le> g" by (simp add: g_def sat_add_mono_left)
    show ?thesis
    proof (cases "g > vm_gas_limit v")
      case True
      then show ?thesis
        using assms pc running Inr that [of g] g
        by (auto simp: vm_step_def vm_fail_def consume_gas_def Let_def g_def [symmetric])
    next
      case False
      then have "exec_instruction i (vm_registers (reset_r0 v) ! unat (i_rs1 i)) (vm_registers (reset_r0 v) ! unat (i_rs2 i))
          ((reset_r0 v)\<lparr> vm_gas_used := g \<rparr>) = (Inl e, w)"
        using assms pc running Inr
        by (auto simp: vm_step_def consume_gas_def Let_def g_def [symmetric] split: prod.splits sum.splits)
      then have "w = (reset_r0 v)\<lparr> vm_gas_used := g, vm_halted := True, vm_error := Some e \<rparr>"
        by (auto dest: exec_error)
      then show ?thesis using that [of g] running g False by (simp add: not_less)
    qed
  qed
qed

lemma vm_step_ok:
  assumes "vm_step p v = (Inr u, w)" "\<not> vm_halted v"
  obtains i eff x y w0 g where
    "unat (vm_pc v) < length p" "decode_instruction (p ! unat (vm_pc v)) (vm_mainnet_mode v) = Inr i"
    "g = sat_add (vm_gas_used v) (gas_cost (i_opcode i))" "g \<le> vm_gas_limit v"
    "x = vm_registers (reset_r0 v) ! unat (i_rs1 i)" "y = vm_registers (reset_r0 v) ! unat (i_rs2 i)"
    "exec_instruction i x y ((reset_r0 v)\<lparr> vm_gas_used := g \<rparr>) = (Inr eff, w0)"
    "w = finish_step (vm_pc v) i x y eff w0"
proof -
  have pc: "unat (vm_pc v) < length p"
    using assms by (auto simp: vm_step_def vm_fail_def Let_def split: if_splits)
  obtain i where i: "decode_instruction (p ! unat (vm_pc v)) (vm_mainnet_mode v) = Inr i"
    using assms pc by (auto simp: vm_step_def vm_fail_def Let_def split: sum.splits)
  define g where "g = sat_add (vm_gas_used v) (gas_cost (i_opcode i))"
  have g: "g \<le> vm_gas_limit v"
    using assms pc i by (auto simp: vm_step_def vm_fail_def consume_gas_def Let_def g_def [symmetric] split: if_splits)
  have gas: "consume_gas (gas_cost (i_opcode i)) (reset_r0 v) = (Inr (), (reset_r0 v)\<lparr> vm_gas_used := g \<rparr>)"
    using g by (simp add: consume_gas_def Let_def g_def [symmetric] leD)
  show ?thesis
    using assms pc i that [OF pc i g_def g refl refl]
    by (auto simp: vm_step_def gas Let_def split: prod.splits sum.splits)
qed

end
