(* ===== verification/Bud_Vm_Inv.thy ===== *)
theory Bud_Vm_Inv
  imports Bud_Vm_Step
begin

text \<open>
  The invariant of the virtual machine over its execution trace: the rows follow each other
  from the first program counter to the current one, the memory accesses they record
  replay to the current memory, the storage is the initial one with the recorded writes
  applied, and the gas used is the sum of the costs of the rows. It also bounds the
  register file, the stack, the memory and the gas.
\<close>

subsection \<open>What the trace says\<close>

primrec chained :: "u64 \<Rightarrow> trace_step list \<Rightarrow> u64 \<Rightarrow> bool" where
  "chained a [] b = (a = b)"
| "chained a (r # rs) b = (st_pc r = a \<and> chained (st_next_pc r) rs b)"

definition replay_row :: "trace_step \<Rightarrow> bytes \<Rightarrow> bytes" where
  "replay_row r m =
     (if st_is_memory_write r
      then (case (st_memory_addr r, st_memory_val r) of (Some a, Some x) \<Rightarrow> write_u64 m a x | _ \<Rightarrow> m)
      else m)"

definition replay_memory :: "bytes \<Rightarrow> trace_step list \<Rightarrow> bytes" where
  "replay_memory m rs = fold replay_row rs m"

definition read_ok :: "bytes \<Rightarrow> trace_step \<Rightarrow> bool" where
  "read_ok m r =
     (case st_memory_addr r of
        None \<Rightarrow> True
      | Some a \<Rightarrow> st_is_memory_write r \<or> st_memory_val r = Some (read_u64 m a))"

primrec memory_consistent :: "bytes \<Rightarrow> trace_step list \<Rightarrow> bool" where
  "memory_consistent m [] = True"
| "memory_consistent m (r # rs) = (read_ok m r \<and> memory_consistent (replay_row r m) rs)"

definition row_ok :: "trace_step \<Rightarrow> bool" where
  "row_ok r = (length (st_registers r) = 32 \<and> st_registers r ! 0 = 0 \<and> st_stack_pointer r \<le> 1024)"

definition row_opcode :: "trace_step \<Rightarrow> opcode" where
  "row_opcode r = i_opcode (st_instruction r)"

definition row_cost :: "trace_step \<Rightarrow> nat" where
  "row_cost r = (if st_merkle_is_expand r \<or> st_inference_is_expand r then 0 else unat (gas_cost (row_opcode r)))"

definition trace_cost :: "trace_step list \<Rightarrow> nat" where
  "trace_cost rs = sum_list (map row_cost rs)"

lemma chained_append: "chained a (xs @ ys) c \<longleftrightarrow> (\<exists>b. chained a xs b \<and> chained b ys c)"
  by (induction xs arbitrary: a) auto

lemma replay_append: "replay_memory m (xs @ ys) = replay_memory (replay_memory m xs) ys"
  by (simp add: replay_memory_def)

lemma memory_consistent_append:
  "memory_consistent m (xs @ ys) \<longleftrightarrow> memory_consistent m xs \<and> memory_consistent (replay_memory m xs) ys"
  by (induction xs arbitrary: m) (auto simp: replay_memory_def)

lemma trace_cost_append: "trace_cost (xs @ ys) = trace_cost xs + trace_cost ys"
  by (simp add: trace_cost_def)

lemma reads_only:
  assumes "\<forall>r \<in> set rs. \<not> st_is_memory_write r \<and> read_ok m r"
  shows "replay_memory m rs = m" "memory_consistent m rs"
  using assms by (induction rs) (auto simp: replay_memory_def replay_row_def)

subsection \<open>The expansion rows\<close>

lemma merkle_rows_append:
  "merkle_rows pc i pa key v c (ks @ js) =
     merkle_rows pc i pa key v c ks @ merkle_rows pc i pa key v (fold (merkle_path_round (vm_memory v) pa key) ks c) js"
  by (induction ks arbitrary: c) simp_all

lemma chained_merkle_rows: "63 \<notin> set ks \<Longrightarrow> chained pc (merkle_rows pc i pa key v c ks) pc"
  by (induction ks arbitrary: c) (auto simp: merkle_row_def)

lemma chained_merkle_path: "chained pc (merkle_rows pc i pa key v c [0..<64]) (pc + 1)"
proof -
  have "[0..<64] = [0..<63] @ [63]" by (simp add: upt_rec)
  then show ?thesis
    by (simp only: merkle_rows_append chained_append)
      (intro exI [of _ pc] conjI chained_merkle_rows, simp_all add: merkle_row_def)
qed

text \<open>What every expansion row of a machine \<open>v\<close> carries.\<close>

definition expands :: "opcode \<Rightarrow> vm \<Rightarrow> trace_step \<Rightarrow> bool" where
  "expands opc v r = ((st_merkle_is_expand r \<or> st_inference_is_expand r) \<and> row_opcode r = opc \<and>
     \<not> st_is_memory_write r \<and> read_ok (vm_memory v) r \<and>
     st_registers r = vm_registers v \<and> st_stack_pointer r = length (vm_stack v))"

lemma merkle_rows_expand: "r \<in> set (merkle_rows pc i pa key v c ks) \<Longrightarrow> expands Op_VerifyMerkle v r"
  by (induction ks arbitrary: c) (auto simp: merkle_row_def expands_def row_opcode_def read_ok_def)

lemma inference_row_expands: "expands Op_VerifyInference v (inference_row pc i x y m n q v k)"
  by (simp add: inference_row_def expands_def row_opcode_def read_ok_def)

lemma chained_inference_rows:
  "chained pc (map (inference_row pc i x y m n q v) [0..<8]) (pc + 1)"
  by (simp add: upt_rec inference_row_def)

subsection \<open>The rows of a step\<close>

lemma exec_next_verify:
  assumes "exec_instruction i x y v = (Inr eff, w)" "i_opcode i = Op_VerifyMerkle \<or> i_opcode i = Op_VerifyInference"
  shows "eff_next eff = vm_pc v + 1" "\<not> eff_write eff" "vm_memory w = vm_memory v"
    "vm_stack w = vm_stack v"
  using assms
  by (auto simp: exec_instruction_def exec_arms exec_frame_defs Let_def split: if_splits)

lemma step_rows_chained:
  assumes "i_opcode i = Op_VerifyMerkle \<or> i_opcode i = Op_VerifyInference \<Longrightarrow> eff_next eff = pc + 1"
  shows "chained pc (step_rows pc i x y eff v) (eff_next eff)"
  using assms
  by (auto simp: step_rows_def Let_def base_row_def chained_merkle_path chained_inference_rows)

text \<open>A step's rows: the instruction's own row, equal to the base row where it matters, and expansions.\<close>

lemma step_rows_split:
  obtains b rs where "step_rows pc i x y eff v = b # rs"
    "replay_row b = replay_row (base_row pc i x y eff v)"
    "(\<lambda>m. read_ok m b) = (\<lambda>m. read_ok m (base_row pc i x y eff v))"
    "row_ok b = row_ok (base_row pc i x y eff v)" "row_opcode b = i_opcode i"
    "row_cost b = unat (gas_cost (i_opcode i))"
    "\<And>r. r \<in> set rs \<Longrightarrow> expands (i_opcode i) v r"
proof (rule that)
  let ?rows = "step_rows pc i x y eff v"
  show rows: "?rows = hd ?rows # tl ?rows" by (simp add: step_rows_def Let_def)
  show "replay_row (hd ?rows) = replay_row (base_row pc i x y eff v)"
    "(\<lambda>m. read_ok m (hd ?rows)) = (\<lambda>m. read_ok m (base_row pc i x y eff v))"
    by (auto simp: fun_eq_iff step_rows_def Let_def replay_row_def read_ok_def split: option.splits)
  show "row_ok (hd ?rows) = row_ok (base_row pc i x y eff v)" "row_opcode (hd ?rows) = i_opcode i"
    "row_cost (hd ?rows) = unat (gas_cost (i_opcode i))"
    by (simp_all add: step_rows_def Let_def row_ok_def row_cost_def row_opcode_def base_row_def)
  show "expands (i_opcode i) v r" if "r \<in> set (tl ?rows)" for r
  proof -
    consider (merkle) "i_opcode i = Op_VerifyMerkle" | (inference) "i_opcode i = Op_VerifyInference"
      | (other) "i_opcode i \<noteq> Op_VerifyMerkle" "i_opcode i \<noteq> Op_VerifyInference" by blast
    then show ?thesis
    proof cases
      case merkle
      then show ?thesis using that by (auto simp: step_rows_def Let_def merkle_rows_expand split: if_splits)
    next
      case inference
      then show ?thesis using that by (auto simp: step_rows_def Let_def inference_row_expands split: if_splits)
    qed (use that in \<open>simp add: step_rows_def Let_def\<close>)
  qed
qed

lemma step_rows_ok:
  assumes "length (vm_registers v) = 32" "vm_registers v ! 0 = 0" "length (vm_stack v) \<le> 1024"
  shows "list_all row_ok (step_rows pc i x y eff v)"
proof (rule step_rows_split [of pc i x y eff v])
  fix b rs assume "step_rows pc i x y eff v = b # rs" "row_ok b = row_ok (base_row pc i x y eff v)"
    "\<And>r. r \<in> set rs \<Longrightarrow> expands (i_opcode i) v r"
  then show ?thesis using assms by (auto simp: list_all_iff row_ok_def base_row_def expands_def)
qed

lemma step_rows_opcode:
  assumes "r \<in> set (step_rows pc i x y eff v)"
  shows "row_opcode r = i_opcode i"
proof (rule step_rows_split [of pc i x y eff v])
  fix b rs assume "step_rows pc i x y eff v = b # rs" "row_opcode b = i_opcode i"
    "\<And>r. r \<in> set rs \<Longrightarrow> expands (i_opcode i) v r"
  then show ?thesis using assms by (auto simp: expands_def)
qed

lemma step_rows_cost: "trace_cost (step_rows pc i x y eff v) = unat (gas_cost (i_opcode i))"
proof (rule step_rows_split [of pc i x y eff v])
  fix b rs assume rows: "step_rows pc i x y eff v = b # rs" "row_cost b = unat (gas_cost (i_opcode i))"
    "\<And>r. r \<in> set rs \<Longrightarrow> expands (i_opcode i) v r"
  then have "map row_cost rs = map (\<lambda>_. 0) rs" by (auto simp: row_cost_def expands_def)
  then have "sum_list (map row_cost rs) = 0" by simp
  then show ?thesis using rows by (simp add: trace_cost_def)
qed

lemma step_rows_memory:
  assumes ex: "exec_instruction i x y v = (Inr eff, w)" and mem: "vm_memory r = vm_memory w"
  shows "replay_memory (vm_memory v) (step_rows pc i x y eff r) = vm_memory w
    \<and> memory_consistent (vm_memory v) (step_rows pc i x y eff r)"
proof (rule step_rows_split [of pc i x y eff r])
  fix b rs assume rows: "step_rows pc i x y eff r = b # rs" "replay_row b = replay_row (base_row pc i x y eff r)"
    "(\<lambda>m. read_ok m b) = (\<lambda>m. read_ok m (base_row pc i x y eff r))"
    "\<And>s. s \<in> set rs \<Longrightarrow> expands (i_opcode i) r s"
  have base: "replay_row b (vm_memory v) = vm_memory w" "read_ok (vm_memory v) b"
    using exec_ok_memory [OF ex] rows(2) fun_cong [OF rows(3), of "vm_memory v"]
    by (auto simp: replay_row_def read_ok_def base_row_def split: if_splits option.splits)
  have "\<forall>s \<in> set rs. \<not> st_is_memory_write s \<and> read_ok (vm_memory w) s"
    using rows(4) mem by (auto simp: expands_def)
  from reads_only [OF this] show ?thesis using base by (simp add: rows(1) replay_memory_def)
qed

subsection \<open>The invariant\<close>

definition vm_fresh :: "vm \<Rightarrow> bool" where
  "vm_fresh v = (vm_registers v = replicate 32 0 \<and> vm_pc v = 0 \<and> vm_stack v = [] \<and> vm_events v = [] \<and>
     vm_trace v = [] \<and> \<not> vm_halted v \<and> vm_gas_used v = 0 \<and> vm_error v = None \<and> vm_state_writes v = [])"

lemma vm_fresh_new:
  "vm_fresh (vm_with_mainnet_mode n limit mainnet)"
  "vm_fresh v \<Longrightarrow> vm_fresh (v\<lparr> vm_ctx := c \<rparr>)" "vm_fresh v \<Longrightarrow> vm_fresh (v\<lparr> vm_storage := s \<rparr>)"
  "vm_fresh v \<Longrightarrow> vm_fresh (v\<lparr> vm_memory := m \<rparr>)"
  by (simp_all add: vm_fresh_def vm_with_mainnet_mode_def vm_with_gas_limit_def)

definition vm_bounds :: "vm \<Rightarrow> vm \<Rightarrow> bool" where
  "vm_bounds v0 v =
     (length (vm_registers v) = 32 \<and> vm_registers v ! 0 = 0 \<and> length (vm_stack v) \<le> 1024 \<and>
      length (vm_memory v) = length (vm_memory v0) \<and> vm_gas_limit v = vm_gas_limit v0 \<and>
      vm_mainnet_mode v = vm_mainnet_mode v0 \<and> vm_ctx v = vm_ctx v0 \<and>
      (vm_gas_used v \<le> vm_gas_limit v \<or> vm_error v = Some OutOfGas) \<and>
      (vm_error v \<noteq> None \<longrightarrow> vm_halted v))"

definition trace_faithful :: "vm \<Rightarrow> vm \<Rightarrow> bool" where
  "trace_faithful v0 v =
     (chained 0 (vm_trace v) (vm_pc v) \<and> list_all row_ok (vm_trace v) \<and>
      replay_memory (vm_memory v0) (vm_trace v) = vm_memory v \<and> memory_consistent (vm_memory v0) (vm_trace v) \<and>
      vm_storage v = apply_writes (vm_state_writes v) (vm_storage v0))"

definition trace_gated :: "vm \<Rightarrow> bool" where
  "trace_gated v =
     (vm_mainnet_mode v \<longrightarrow> list_all (\<lambda>r. activation_allows activation_default (row_opcode r)) (vm_trace v))"

definition trace_metered :: "vm \<Rightarrow> bool" where
  "trace_metered v =
     (vm_gas_limit v \<noteq> - 1 \<and> vm_error v = None \<longrightarrow> unat (vm_gas_used v) = trace_cost (vm_trace v))"

definition no_halt :: "trace_step list \<Rightarrow> bool" where
  "no_halt rs = list_all (\<lambda>r. row_opcode r \<noteq> Op_Halt) rs"

definition ends_in_halt :: "trace_step list \<Rightarrow> bool" where
  "ends_in_halt rs = (rs \<noteq> [] \<and> row_opcode (last rs) = Op_Halt \<and> no_halt (butlast rs))"

definition trace_halting :: "vm \<Rightarrow> bool" where
  "trace_halting v =
     (if vm_halted v \<and> vm_error v = None then ends_in_halt (vm_trace v) else no_halt (vm_trace v))"

definition vm_inv :: "vm \<Rightarrow> vm \<Rightarrow> bool" where
  "vm_inv v0 v =
     (vm_bounds v0 v \<and> trace_faithful v0 v \<and> trace_gated v \<and> trace_metered v \<and> trace_halting v)"

lemma apply_writes_append: "apply_writes (xs @ ys) m = apply_writes ys (apply_writes xs m)"
  by (simp add: apply_writes_def)

lemma vm_inv_fresh: "vm_fresh v0 \<Longrightarrow> vm_inv v0 v0"
  by (simp add: vm_fresh_def vm_inv_def vm_bounds_def trace_faithful_def trace_gated_def trace_metered_def
      trace_halting_def no_halt_def replay_memory_def apply_writes_def trace_cost_def)

lemma vm_inv_halted:
  assumes "vm_inv v0 v" "vm_halted v"
  shows "vm_inv v0 (reset_r0 v)"
  using assms
  by (auto simp: vm_inv_def vm_bounds_def trace_faithful_def trace_gated_def trace_metered_def trace_halting_def)

lemma vm_inv_error:
  assumes inv: "vm_inv v0 v" and step: "vm_step p v = (Inl e, w)"
  shows "vm_inv v0 w"
proof -
  from step obtain g where running: "\<not> vm_halted v" and "vm_gas_used v \<le> g"
    and g: "e \<noteq> OutOfGas \<and> vm_gas_used v \<le> vm_gas_limit v \<longrightarrow> g \<le> vm_gas_limit v"
    and w: "w = (reset_r0 v)\<lparr> vm_gas_used := g, vm_halted := True, vm_error := Some e \<rparr>"
    by (rule vm_step_error)
  then have "vm_gas_used v \<le> vm_gas_limit v" using inv by (auto simp: vm_inv_def vm_bounds_def)
  then show ?thesis
    using inv g running
    by (auto simp: w vm_inv_def vm_bounds_def trace_faithful_def trace_gated_def trace_metered_def trace_halting_def)
qed

lemma decode_instruction_gated: "decode_instruction raw True = Inr i \<Longrightarrow> activation_allows activation_default (i_opcode i)"
  by (auto simp: decode_instruction_def decode_for_mainnet_Inr map_sum_def split: sum.splits)

lemma vm_inv_ok:
  assumes inv: "vm_inv v0 v" and step: "vm_step p v = (Inr u, w)" and running: "\<not> vm_halted v"
  shows "vm_inv v0 w"
proof -
  from step running obtain i eff x y w0 g where
    dec: "decode_instruction (p ! unat (vm_pc v)) (vm_mainnet_mode v) = Inr i" and
    gas: "g = sat_add (vm_gas_used v) (gas_cost (i_opcode i))" "g \<le> vm_gas_limit v" and
    ex: "exec_instruction i x y ((reset_r0 v)\<lparr> vm_gas_used := g \<rparr>) = (Inr eff, w0)" and
    w: "w = finish_step (vm_pc v) i x y eff w0"
    by (rule vm_step_ok)
  let ?rows = "step_rows (vm_pc v) i x y eff (reset_r0 w0)"
  have frame: "exec_frame (i_opcode i) ((reset_r0 v)\<lparr> vm_gas_used := g \<rparr>) eff w0"
    using ex by (rule exec_ok_frame)
  note w = w [unfolded finish_step_trace]
  have bounds: "vm_bounds v0 w"
    using inv frame gas(2) running by (auto simp: w vm_inv_def vm_bounds_def exec_frame_def nth_list_update)
  have "chained (vm_pc v) ?rows (eff_next eff)"
    using exec_next_verify(1) [OF ex] by (intro step_rows_chained) simp
  moreover have "list_all row_ok ?rows"
    using bounds by (intro step_rows_ok) (simp_all add: w vm_bounds_def)
  moreover have "replay_memory (vm_memory v) ?rows = vm_memory w \<and> memory_consistent (vm_memory v) ?rows"
    using step_rows_memory [OF ex, of "reset_r0 w0" "vm_pc v"] by (simp add: w)
  moreover obtain ws where "vm_state_writes w = vm_state_writes v @ ws" "vm_storage w = apply_writes ws (vm_storage v)"
    using exec_ok_storage [OF ex] by (auto simp: w)
  ultimately have "trace_faithful v0 w"
    using inv frame
    by (auto simp: w vm_inv_def trace_faithful_def exec_frame_def chained_append replay_append
        memory_consistent_append apply_writes_append)
  moreover have "trace_gated w"
  proof -
    have "\<forall>r \<in> set ?rows. row_opcode r = i_opcode i" by (auto dest: step_rows_opcode)
    moreover have "activation_allows activation_default (i_opcode i)" if "vm_mainnet_mode v"
      using dec that by (simp add: decode_instruction_gated)
    ultimately show ?thesis
      using inv frame by (simp add: w vm_inv_def trace_gated_def exec_frame_def list_all_iff ball_Un)
  qed
  moreover have "trace_metered w"
  proof -
    have "unat g = unat (vm_gas_used v) + unat (gas_cost (i_opcode i))" if "vm_gas_limit v \<noteq> - 1"
    proof -
      have "unat (vm_gas_limit v) \<noteq> 2 ^ 64 - 1"
        using that unat_max_word [where 'a = 64] by (auto simp: word_unat_eq_iff)
      then have "unat g < 2 ^ 64 - 1"
        using gas(2) unat_le_max [of "vm_gas_limit v"] by (simp add: word_le_nat_alt)
      then show ?thesis unfolding gas(1) unat_sat_add by (simp add: min_def split: if_splits)
    qed
    moreover have "vm_gas_limit w = vm_gas_limit v" "vm_gas_used w = g" "vm_error w = vm_error v"
      "vm_trace w = vm_trace v @ ?rows"
      using frame by (simp_all add: w exec_frame_def)
    ultimately show ?thesis
      using inv by (auto simp: vm_inv_def trace_metered_def trace_cost_append step_rows_cost)
  qed
  moreover have "trace_halting w"
  proof -
    have none: "vm_error v = None" "no_halt (vm_trace v)"
      using inv running by (auto simp: vm_inv_def vm_bounds_def trace_halting_def)
    have w_fields: "vm_trace w = vm_trace v @ ?rows" "vm_error w = None" "vm_halted w = (i_opcode i = Op_Halt)"
      using frame running none by (simp_all add: w exec_frame_def)
    show ?thesis
    proof (cases "i_opcode i = Op_Halt")
      case True
      then have "?rows = [base_row (vm_pc v) i x y eff (reset_r0 w0)]" by (simp add: step_rows_def Let_def)
      then show ?thesis
        using True none by (simp add: trace_halting_def ends_in_halt_def w_fields row_opcode_def base_row_def butlast_append)
    next
      case False
      then have "no_halt ?rows" by (auto simp: no_halt_def list_all_iff dest: step_rows_opcode)
      then show ?thesis using False none by (simp add: trace_halting_def w_fields no_halt_def)
    qed
  qed
  ultimately show ?thesis using bounds by (simp add: vm_inv_def)
qed

lemma vm_inv_step:
  assumes "vm_inv v0 v" "vm_step p v = (r, w)"
  shows "vm_inv v0 w"
proof (cases r)
  case (Inl e)
  then show ?thesis using assms vm_inv_error by blast
next
  case (Inr u)
  then show ?thesis using assms vm_inv_ok [of v0 v p u w] vm_inv_halted [of v0 v]
    by (cases "vm_halted v") (auto simp: vm_step_halted)
qed

subsection \<open>Runs\<close>

inductive vm_next :: "u64 list \<Rightarrow> vm \<Rightarrow> vm \<Rightarrow> bool" for p where
  vm_nextI: "vm_step p v = (r, w) \<Longrightarrow> vm_next p v w"

inductive_cases vm_nextE: "vm_next p v w"

interpretation vm_safe: inductive_invariant "\<lambda>v. v = v0 \<and> vm_fresh v" "vm_next p" "vm_inv v0" for v0 p
  by unfold_locales (auto simp: vm_inv_fresh elim!: vm_nextE intro: vm_inv_step)

lemma run_loop_reaches: "run_loop n p v = Some (err, w) \<Longrightarrow> (vm_next p)\<^sup>*\<^sup>* v w"
proof (induction n p v rule: run_loop.induct)
  case (2 n p v)
  show ?case
  proof (cases "vm_halted v")
    case False
    obtain r w' where st: "vm_step p v = (r, w')" by (cases "vm_step p v") auto
    then have "vm_next p v w'" by (rule vm_nextI)
    moreover have "(vm_next p)\<^sup>*\<^sup>* w' w"
    proof (cases r)
      case (Inr u)
      then show ?thesis using 2 False st by auto
    qed (use 2 False st in auto)
    ultimately show ?thesis by (rule converse_rtranclp_into_rtranclp)
  qed (use 2 in auto)
qed (auto split: if_splits)

lemma vm_step_error_halts: "vm_step p v = (Inl e, w) \<Longrightarrow> vm_halted w \<and> vm_error w = Some e"
  by (erule vm_step_error) simp

lemma run_loop_halts:
  "run_loop n p v = Some (err, w) \<Longrightarrow> vm_halted w \<and> (err = None \<or> vm_error w = err)"
proof (induction n p v rule: run_loop.induct)
  case (2 n p v)
  show ?case
  proof (cases "vm_halted v")
    case False
    obtain r w' where st: "vm_step p v = (r, w')" by (cases "vm_step p v") auto
    show ?thesis
    proof (cases r)
      case (Inl e)
      then show ?thesis using 2 False st vm_step_error_halts [of p v e w'] by auto
    qed (use 2 False st in auto)
  qed (use 2 in auto)
qed (auto split: if_splits)

lemma run_loop_no_error:
  "run_loop n p v = Some (None, w) \<Longrightarrow> vm_error v = None \<Longrightarrow> vm_error w = None"
proof (induction n p v rule: run_loop.induct)
  case (2 n p v)
  show ?case
  proof (cases "vm_halted v")
    case False
    obtain r w' where st: "vm_step p v = (r, w')" by (cases "vm_step p v") auto
    show ?thesis
    proof (cases r)
      case (Inr u)
      from vm_step_ok [OF st [unfolded Inr] False] obtain i eff x y w0 g where
        "exec_instruction i x y ((reset_r0 v)\<lparr> vm_gas_used := g \<rparr>) = (Inr eff, w0)"
        "w' = finish_step (vm_pc v) i x y eff w0" by metis
      then have "vm_error w' = vm_error v"
        using exec_ok_frame by (fastforce simp: exec_frame_def finish_step_trace)
      then show ?thesis using 2 False st Inr by auto
    qed (use 2 False st in auto)
  qed (use 2 in auto)
qed (auto split: if_splits)

subsection \<open>Termination\<close>

text \<open>
  A machine that is driven until it halts or fails, with a bound on the iterations, and the
  contract under which a bound is enough: every step that succeeds halts the machine or
  uses up some of its remaining credit.
\<close>

fun drive :: "('s \<Rightarrow> bool) \<Rightarrow> ('s \<Rightarrow> ('e, 'a, 's) outcome) \<Rightarrow> nat \<Rightarrow> 's \<Rightarrow> ('e option \<times> 's) option" where
  "drive halted step 0 s = (if halted s then Some (None, s) else None)"
| "drive halted step (Suc n) s =
     (if halted s then Some (None, s)
      else case step s of (Inl e, t) \<Rightarrow> Some (Some e, t) | (Inr _, t) \<Rightarrow> drive halted step n t)"

lemma drive_more: "drive halted step n s = Some r \<Longrightarrow> n \<le> m \<Longrightarrow> drive halted step m s = Some r"
proof (induction n arbitrary: m s)
  case 0
  then show ?case by (cases m) (auto split: if_splits)
next
  case (Suc n)
  then obtain k where "m = Suc k" "n \<le> k" by (cases m) auto
  then show ?case using Suc by (auto split: if_splits prod.splits sum.splits)
qed

locale metered_machine =
  fixes halted :: "'s \<Rightarrow> bool"
    and step :: "'s \<Rightarrow> ('e, 'a, 's) outcome"
    and good :: "'s \<Rightarrow> bool"
    and credit :: "'s \<Rightarrow> nat"
  assumes metered_step:
    "good s \<Longrightarrow> \<not> halted s \<Longrightarrow> step s = (Inr u, t) \<Longrightarrow> good t \<and> (halted t \<or> credit t < credit s)"
begin

lemma drive_ends: "good s \<Longrightarrow> credit s < n \<Longrightarrow> \<exists>r. drive halted step n s = Some r"
proof (induction n arbitrary: s)
  case (Suc n)
  show ?case
  proof (cases "halted s")
    case False
    obtain r t where st: "step s = (r, t)" by (cases "step s") auto
    show ?thesis
    proof (cases r)
      case (Inr u)
      then have t: "good t" "halted t \<or> credit t < credit s"
        using metered_step [OF Suc.prems(1) False] st by auto
      show ?thesis
      proof (cases "halted t")
        case True
        then show ?thesis using False st Inr by (cases n) auto
      next
        case running: False
        then have "credit t < n" using t Suc.prems(2) by linarith
        then show ?thesis using Suc.IH [OF t(1)] False st Inr by auto
      qed
    qed (use False st in auto)
  qed simp
qed simp

end

lemma run_loop_drive: "run_loop n p v = drive vm_halted (vm_step p) n v"
  by (induction n p v rule: run_loop.induct) (auto split: prod.splits sum.splits)

lemma gas_cost_pos: "opc \<noteq> Op_Halt \<Longrightarrow> 0 < unat (gas_cost opc)"
  by (cases opc) simp_all

definition gas_credit :: "vm \<Rightarrow> nat" where
  "gas_credit v = unat (vm_gas_limit v) - unat (vm_gas_used v)"

interpretation vm_metered: metered_machine vm_halted "vm_step p" "\<lambda>v. vm_gas_limit v \<noteq> - 1" gas_credit for p
proof
  fix v u w
  assume limit: "vm_gas_limit v \<noteq> - 1" and running: "\<not> vm_halted v" and step: "vm_step p v = (Inr u, w)"
  from step running obtain i eff x y w0 g where
    gas: "g = sat_add (vm_gas_used v) (gas_cost (i_opcode i))" "g \<le> vm_gas_limit v" and
    ex: "exec_instruction i x y ((reset_r0 v)\<lparr> vm_gas_used := g \<rparr>) = (Inr eff, w0)" and
    w: "w = finish_step (vm_pc v) i x y eff w0"
    by (rule vm_step_ok)
  note frame = exec_ok_frame [OF ex, unfolded exec_frame_def]
  have fields: "vm_gas_limit w = vm_gas_limit v" "vm_gas_used w = g" "vm_halted w = (i_opcode i = Op_Halt)"
    using frame running by (simp_all add: w finish_step_trace)
  have "unat (vm_gas_limit v) \<noteq> 2 ^ 64 - 1"
    using limit unat_max_word [where 'a = 64] by (auto simp: word_unat_eq_iff)
  then have "unat g < 2 ^ 64 - 1" "unat g \<le> unat (vm_gas_limit v)"
    using gas(2) unat_le_max [of "vm_gas_limit v"] by (simp_all add: word_le_nat_alt)
  then have "unat g = unat (vm_gas_used v) + unat (gas_cost (i_opcode i))"
    unfolding gas(1) unat_sat_add by (simp add: min_def split: if_splits)
  then have "gas_credit w < gas_credit v" if "i_opcode i \<noteq> Op_Halt"
    using gas_cost_pos [OF that] \<open>unat g \<le> unat (vm_gas_limit v)\<close> by (simp add: gas_credit_def fields)
  then show "vm_gas_limit w \<noteq> - 1 \<and> (vm_halted w \<or> gas_credit w < gas_credit v)"
    using limit by (auto simp: fields)
qed

lemma run_loop_terminates:
  "vm_gas_limit v \<noteq> - 1 \<Longrightarrow> gas_credit v < n \<Longrightarrow> \<exists>r. run_loop n p v = Some r"
  unfolding run_loop_drive by (rule vm_metered.drive_ends)

lemma run_loop_more: "run_loop n p v = Some r \<Longrightarrow> n \<le> m \<Longrightarrow> run_loop m p v = Some r"
  unfolding run_loop_drive by (rule drive_more)

end
