(* ===== verification/Bud_Programs.thy ===== *)
theory Bud_Programs
  imports Bud_Vm_Inv
begin

text \<open>
  The canonical programs of \<^verbatim>\<open>budzero/bud-vm/src/private_transfer.rs\<close> and
  \<^verbatim>\<open>budzero/bud-vm/src/syscall_context.rs\<close>, and the lemmas that run a program of
  encoded instructions one instruction at a time.
\<close>

definition bud_inst :: "opcode \<Rightarrow> u8 \<Rightarrow> u8 \<Rightarrow> u8 \<Rightarrow> i32 \<Rightarrow> u64" where
  "bud_inst opc rd rs1 rs2 imm =
     inst_encode \<lparr> i_opcode = opc, i_rd = rd, i_rs1 = rs1, i_rs2 = rs2, i_imm = imm \<rparr>"

definition CANONICAL_AMOUNT :: i32 where "CANONICAL_AMOUNT = 1000"
definition CANONICAL_BLINDING :: i32 where "CANONICAL_BLINDING = 42"
definition CANONICAL_RECIPIENT :: i32 where "CANONICAL_RECIPIENT = 77"
definition CANONICAL_SUM_IN :: i32 where "CANONICAL_SUM_IN = 1000"
definition CANONICAL_SUM_OUT :: i32 where "CANONICAL_SUM_OUT = 1000"
definition CANONICAL_CLAIMED_NULLIFIER :: i32 where "CANONICAL_CLAIMED_NULLIFIER = 0x12345678"
definition CANONICAL_SECRET :: i32 where "CANONICAL_SECRET = 0x0BADC0DE"

lemmas canonical_constants =
  CANONICAL_AMOUNT_def CANONICAL_BLINDING_def CANONICAL_RECIPIENT_def CANONICAL_SUM_IN_def
  CANONICAL_SUM_OUT_def CANONICAL_CLAIMED_NULLIFIER_def CANONICAL_SECRET_def

definition PRIVATE_TRANSFER_PROGRAM_OPS :: nat where
  "PRIVATE_TRANSFER_PROGRAM_OPS = 12"

definition build_private_transfer_check_program :: "string + u64 list" where
  "build_private_transfer_check_program =
     (let prog =
        [bud_inst Op_Load 1 0 0 CANONICAL_AMOUNT,
         bud_inst Op_Load 2 0 0 CANONICAL_BLINDING,
         bud_inst Op_PrivacyCommit 4 1 2 CANONICAL_RECIPIENT,
         bud_inst Op_Load 5 0 0 CANONICAL_SUM_IN,
         bud_inst Op_Load 6 0 0 CANONICAL_SUM_OUT,
         bud_inst Op_SumConservation 7 5 6 0,
         bud_inst Op_Load 8 0 0 CANONICAL_CLAIMED_NULLIFIER,
         bud_inst Op_Load 9 0 0 CANONICAL_SECRET,
         bud_inst Op_NullifierCheck 10 8 9 0,
         bud_inst Op_Log 0 7 0 0,
         bud_inst Op_Log 0 10 0 0,
         bud_inst Op_Halt 0 0 0 0];
          emitted = length prog
      in if emitted \<noteq> PRIVATE_TRANSFER_PROGRAM_OPS
         then Inl (''private transfer program emitted '' @ decimal emitted @ '' ops != canonical ''
                   @ decimal PRIVATE_TRANSFER_PROGRAM_OPS)
         else Inr prog)"

definition SYSCALL_CONTEXT_PROGRAM_OPS :: nat where
  "SYSCALL_CONTEXT_PROGRAM_OPS = 7"

definition SYSCALL_SENDER :: i32 where "SYSCALL_SENDER = 1"
definition SYSCALL_BLOCK_HEIGHT :: i32 where "SYSCALL_BLOCK_HEIGHT = 2"
definition SYSCALL_NONCE :: i32 where "SYSCALL_NONCE = 3"

definition build_syscall_context_check_program :: "string + u64 list" where
  "build_syscall_context_check_program =
     (let prog =
        [bud_inst Op_Syscall 1 0 0 SYSCALL_SENDER,
         bud_inst Op_Syscall 2 0 0 SYSCALL_BLOCK_HEIGHT,
         bud_inst Op_Syscall 3 0 0 SYSCALL_NONCE,
         bud_inst Op_Log 0 1 0 0,
         bud_inst Op_Log 0 2 0 0,
         bud_inst Op_Log 0 3 0 0,
         bud_inst Op_Halt 0 0 0 0];
          emitted = length prog
      in if emitted \<noteq> SYSCALL_CONTEXT_PROGRAM_OPS
         then Inl (''syscall context program emitted '' @ decimal emitted @ '' ops != canonical ''
                   @ decimal SYSCALL_CONTEXT_PROGRAM_OPS)
         else Inr prog)"

subsection \<open>Running encoded instructions\<close>

lemma decode_instruction_encode:
  assumes "inst_fits i" "mainnet \<longrightarrow> activation_allows activation_default (i_opcode i)"
  shows "decode_instruction (inst_encode i) mainnet = Inr i"
proof -
  have "decode_for_mainnet (inst_encode i) activation_default = Inr i" if mainnet
    using assms that by (simp add: decode_for_mainnet_Inr decode_encode)
  then show ?thesis
    using assms by (simp add: decode_instruction_def isa_decode_any decode_encode)
qed

text \<open>
  One iteration on an instruction that is not a Merkle or inference check. The row it appends
  is left as a term: execution never reads the trace.
\<close>

definition plain :: "opcode \<Rightarrow> bool" where
  "plain opc = (opc \<noteq> Op_VerifyMerkle \<and> opc \<noteq> Op_VerifyInference)"

lemma vm_step_plain:
  assumes "\<not> vm_halted v" "unat (vm_pc v) < length p"
    and "p ! unat (vm_pc v) = bud_inst opc rd rs1 rs2 imm" "rd < 32" "rs1 < 32" "rs2 < 32" "plain opc"
    and "sat_add (vm_gas_used v) (gas_cost opc) \<le> vm_gas_limit v"
  shows "vm_step p v =
    (let i = \<lparr> i_opcode = opc, i_rd = rd, i_rs1 = rs1, i_rs2 = rs2, i_imm = imm \<rparr>;
         v' = (reset_r0 v)\<lparr> vm_gas_used := sat_add (vm_gas_used v) (gas_cost opc) \<rparr>;
         x = vm_registers v' ! unat rs1; y = vm_registers v' ! unat rs2
     in case exec_instruction i x y v' of
          (Inl e, w) \<Rightarrow> (Inl e, w)
        | (Inr eff, w) \<Rightarrow> (Inr (), (reset_r0 w)\<lparr> vm_trace := vm_trace w @ [base_row (vm_pc v) i x y eff (reset_r0 w)] \<rparr>))"
proof -
  let ?i = "\<lparr> i_opcode = opc, i_rd = rd, i_rs1 = rs1, i_rs2 = rs2, i_imm = imm \<rparr>"
  have "decode_instruction (p ! unat (vm_pc v)) (vm_mainnet_mode v) = Inr ?i"
    using assms(3-7) unfolding bud_inst_def plain_def
    by (simp only:) (rule decode_instruction_encode, simp_all add: inst_fits_def allows_default)
  moreover have "step_rows pc ?i x y eff w = [base_row pc ?i x y eff w]" for pc x y eff w
    using assms(7) by (simp add: step_rows_def plain_def Let_def)
  ultimately show ?thesis
    using assms(1,2,8)
    by (simp add: vm_step_def consume_gas_def finish_step_trace Let_def not_less leD split: prod.splits sum.splits)
qed

lemma run_loop_plain:
  assumes "\<not> vm_halted v" "unat (vm_pc v) < length p"
    and "p ! unat (vm_pc v) = bud_inst opc rd rs1 rs2 imm" "rd < 32" "rs1 < 32" "rs2 < 32" "plain opc"
    and "sat_add (vm_gas_used v) (gas_cost opc) \<le> vm_gas_limit v"
  shows "run_loop (Suc n) p v =
    (let i = \<lparr> i_opcode = opc, i_rd = rd, i_rs1 = rs1, i_rs2 = rs2, i_imm = imm \<rparr>;
         v' = (reset_r0 v)\<lparr> vm_gas_used := sat_add (vm_gas_used v) (gas_cost opc) \<rparr>;
         x = vm_registers v' ! unat rs1; y = vm_registers v' ! unat rs2
     in case exec_instruction i x y v' of
          (Inl e, w) \<Rightarrow> Some (Some e, w)
        | (Inr eff, w) \<Rightarrow> run_loop n p ((reset_r0 w)\<lparr> vm_trace := vm_trace w @ [base_row (vm_pc v) i x y eff (reset_r0 w)] \<rparr>))"
  using vm_step_plain [OF assms] assms(1)
  by (auto simp: Let_def split: prod.splits sum.splits)

lemmas run_arms =
  exec_instruction_def exec_load_def exec_halt_def exec_log_def exec_syscall_def exec_privacy_commit_def
  exec_nullifier_check_def exec_sum_conservation_def write_result_def write_result_nonzero_def
  exec_frame_defs

lemma sat_add_small: "unat a + unat b < 2 ^ 64 \<Longrightarrow> sat_add a b = a + b" for a b :: u64
  by (simp add: sat_add_def)

lemma sat_add_num [simp]:
  "unat (numeral a :: u64) + unat (numeral b :: u64) < 2 ^ 64 \<Longrightarrow> sat_add (numeral a :: u64) (numeral b) = numeral a + numeral b"
  "sat_add (0 :: u64) x = x" "sat_add x (0 :: u64) = x"
  "unat (numeral c :: u64) + 1 < 2 ^ 64 \<Longrightarrow> sat_add (numeral c :: u64) 1 = numeral c + 1"
  using unat_lt64 [of x] by (simp_all add: sat_add_def)

lemma run_loop_halted: "vm_halted v \<Longrightarrow> run_loop n p v = Some (None, v)"
  by (cases n) simp_all

lemma private_transfer_run:
  assumes "build_private_transfer_check_program = Inr prog" "50 \<le> limit"
  shows "\<exists>w. run_loop (n + 12) prog (vm_with_mainnet_mode m limit mainnet) = Some (None, w)
    \<and> vm_gas_used w = 50 \<and> vm_registers w ! 4 = poseidon4_hash3 1000 42 77
    \<and> vm_events w = [1, bool_u64 (poseidon4_hash 0x0BADC0DE DOMAIN_NULLIFIER = 0x12345678)]"
proof -
  have lim: "unat limit \<ge> 50" using assms(2) by (simp add: word_le_nat_alt)
  then have le: "3 \<le> limit" "6 \<le> limit" "16 \<le> limit" "19 \<le> limit" "22 \<le> limit" "32 \<le> limit" "35 \<le> limit"
    "38 \<le> limit" "48 \<le> limit" "49 \<le> limit" "50 \<le> limit"
    by (simp_all add: word_le_nat_alt)
  have n: "n + 12 = Suc (Suc (Suc (Suc (Suc (Suc (Suc (Suc (Suc (Suc (Suc (Suc n)))))))))))" by simp
  show ?thesis
    using assms(1) unfolding n
    by (auto simp: build_private_transfer_check_program_def PRIVATE_TRANSFER_PROGRAM_OPS_def canonical_constants
        vm_with_mainnet_mode_def vm_with_gas_limit_def run_loop_plain run_loop_halted plain_def run_arms
        reset_r0_def base_row_def le Let_def recipient_tag_def bool_u64_def GOLDILOCKS_P_def simp del: run_loop.simps)
qed

lemma syscall_context_run:
  assumes "build_syscall_context_check_program = Inr prog" "18 \<le> limit"
  shows "\<exists>w. run_loop (n + 7) prog ((vm_with_mainnet_mode m limit mainnet)\<lparr> vm_ctx := c \<rparr>) = Some (None, w)
    \<and> vm_gas_used w = 18 \<and> vm_events w = [ctx_sender c, ctx_block_height c, ctx_nonce c]"
proof -
  have "unat limit \<ge> 18" using assms(2) by (simp add: word_le_nat_alt)
  then have le: "5 \<le> limit" "10 \<le> limit" "15 \<le> limit" "16 \<le> limit" "17 \<le> limit" "18 \<le> limit"
    by (simp_all add: word_le_nat_alt)
  have n: "n + 7 = Suc (Suc (Suc (Suc (Suc (Suc (Suc n))))))" by simp
  show ?thesis
    using assms(1) unfolding n
    by (auto simp: build_syscall_context_check_program_def SYSCALL_CONTEXT_PROGRAM_OPS_def SYSCALL_SENDER_def
        SYSCALL_BLOCK_HEIGHT_def SYSCALL_NONCE_def vm_with_mainnet_mode_def vm_with_gas_limit_def run_loop_plain
        run_loop_halted plain_def run_arms reset_r0_def base_row_def le Let_def simp del: run_loop.simps)
qed

end
