(* ===== verification/Vm_Theorems.thy ===== *)
theory Vm_Theorems
  imports Bud_Programs
begin

text \<open>The properties of the instruction set, the field and the virtual machine.\<close>

subsection \<open>Runs\<close>

text \<open>
  C35: With any gas limit below the largest \<open>u64\<close> every program ends: each instruction but
  \<open>Halt\<close> costs gas, so the loop stops within as many iterations as the machine has gas
  left, plus one, and more iterations change nothing.
\<close>

theorem vm_run_terminates:
  assumes "vm_gas_limit v \<noteq> - 1"
  shows "\<exists>receipt w. \<forall>fuel > gas_credit v. run_receipt fuel program v = Some (receipt, w)"
proof -
  obtain r where r: "run_loop (Suc (gas_credit v)) program v = Some r"
    using run_loop_terminates [OF assms, of "Suc (gas_credit v)" program] by auto
  then have loop: "run_loop fuel program v = Some r" if "fuel > gas_credit v" for fuel
    using run_loop_more that by (metis Suc_leI)
  obtain receipt w where "run_receipt (Suc (gas_credit v)) program v = Some (receipt, w)"
    using r by (cases r) (auto simp: run_receipt_def Let_def)
  then have "run_receipt fuel program v = Some (receipt, w)" if "fuel > gas_credit v" for fuel
    using r loop [OF that] by (simp add: run_receipt_def)
  then show ?thesis by blast
qed

theorem vm_run_terminates_witness:
  "\<exists>receipt w. \<forall>fuel > 1000000. run_receipt fuel [bud_inst Op_Jmp 0 0 0 0] (vm_new 8) = Some (receipt, w)"
  using vm_run_terminates [of "vm_new 8" "[bud_inst Op_Jmp 0 0 0 0]"]
  by (simp add: vm_new_def vm_with_gas_limit_def gas_credit_def)

text \<open>
  With the largest gas limit the loop need not end: the gas counter saturates at the limit,
  which never exceeds it, and a program that jumps to itself runs forever.
\<close>

theorem unlimited_gas_runs_forever:
  "run_receipt fuel [bud_inst Op_Jmp 0 0 0 0] (vm_with_gas_limit memory_size (- 1)) = None"
proof -
  let ?p = "[bud_inst Op_Jmp 0 0 0 0]"
  have "run_loop n ?p v = None" if "\<not> vm_halted v" "vm_pc v = 0" "vm_gas_limit v = - 1" for n v
    using that
  proof (induction n arbitrary: v)
    case (Suc n)
    show ?case
      by (subst run_loop_plain [of _ _ Op_Jmp 0 0 0 0])
        (simp_all add: Suc.prems plain_def exec_instruction_def exec_jmp_def jump_target_def effect_of_def Let_def Suc.IH
          del: run_loop.simps)
  qed simp
  then show ?thesis by (simp add: run_receipt_def vm_with_gas_limit_def)
qed

subsection \<open>The trace of a run\<close>

lemma run_receipt_cases:
  assumes "vm_fresh v0" "run_receipt fuel p v0 = Some (receipt, v)"
  obtains w where "vm_inv v0 w" "vm_halted w" "vm_error w = rc_error receipt"
    "v = (if rc_error receipt \<noteq> None then push_row (halt_row w) w else w)"
    "rc_success receipt = (rc_error receipt = None)" "rc_gas_used receipt = vm_gas_used w"
proof -
  obtain err w where loop: "run_loop fuel p v0 = Some (err, w)"
    using assms(2) by (auto simp: run_receipt_def split: option.splits)
  have inv: "vm_inv v0 w"
    using vm_safe.inv_steps [OF run_loop_reaches [OF loop]] assms(1) by (simp add: vm_inv_fresh)
  have halted: "vm_halted w" using run_loop_halts [OF loop] by blast
  have err: "vm_error w = err"
  proof (cases err)
    case None
    then show ?thesis using run_loop_no_error [of fuel p v0 w] loop assms(1) by (simp add: vm_fresh_def)
  next
    case (Some e)
    then show ?thesis using run_loop_halts [OF loop] by simp
  qed
  have synth: "push_synthetic_halt w = push_row (halt_row w) w" if "err \<noteq> None"
  proof -
    have "no_halt (vm_trace w)" using inv err that by (simp add: vm_inv_def trace_halting_def)
    then have "vm_trace w = [] \<or> row_opcode (last (vm_trace w)) \<noteq> Op_Halt"
      by (auto simp: no_halt_def list_all_iff)
    then show ?thesis by (auto simp: push_synthetic_halt_def row_opcode_def Let_def)
  qed
  have rc: "rc_error receipt = err" "rc_success receipt = (err = None)"
    "v = (if err \<noteq> None then push_synthetic_halt w else w)" "rc_gas_used receipt = vm_gas_used v"
    using assms(2) loop by (auto simp: run_receipt_def Let_def)
  have v: "v = (if rc_error receipt \<noteq> None then push_row (halt_row w) w else w)"
    using rc(1,3) synth by simp
  have "vm_gas_used v = vm_gas_used w" by (simp add: v push_row_def)
  then show ?thesis using that [OF inv halted _ v] rc(1,2,4) err by simp
qed

lemma halt_row_facts:
  "st_pc (halt_row w) = vm_pc w" "st_next_pc (halt_row w) = vm_pc w" "row_opcode (halt_row w) = Op_Halt"
  "st_memory_addr (halt_row w) = None" "\<not> st_is_memory_write (halt_row w)" "row_cost (halt_row w) = 0"
  by (simp_all add: halt_row_def base_row_def effect_of_def row_opcode_def row_cost_def)

text \<open>
  C36: The trace of a run is faithful. Its rows follow each other by program counter, from
  address 0 to where the machine stopped, and the only \<open>Halt\<close> row is the last one, whether
  the program halted or failed. Replaying the writes it records from the initial memory
  gives the final memory, every read it records returns what the replay holds at that
  row, and the storage is the initial one with the recorded state writes applied in order.
\<close>

theorem run_trace_is_faithful:
  assumes "vm_fresh v0" "run_receipt fuel program v0 = Some (receipt, v)"
  shows "chained 0 (vm_trace v) (vm_pc v) \<and> ends_in_halt (vm_trace v)
    \<and> memory_consistent (vm_memory v0) (vm_trace v) \<and> replay_memory (vm_memory v0) (vm_trace v) = vm_memory v
    \<and> vm_storage v = apply_writes (vm_state_writes v) (vm_storage v0)"
proof -
  from assms obtain w where inv: "vm_inv v0 w" and w: "vm_halted w" "vm_error w = rc_error receipt"
    and v: "v = (if rc_error receipt \<noteq> None then push_row (halt_row w) w else w)"
    by (rule run_receipt_cases)
  have faithful: "trace_faithful v0 w" and halting: "trace_halting w" using inv by (simp_all add: vm_inv_def)
  show ?thesis
  proof (cases "rc_error receipt")
    case None
    then show ?thesis using faithful halting w v by (simp add: trace_faithful_def trace_halting_def)
  next
    case (Some e)
    then have "vm_trace v = vm_trace w @ [halt_row w]" by (simp add: v push_row_def)
    then show ?thesis
      using faithful halting w Some
      by (simp add: v push_row_def trace_faithful_def trace_halting_def chained_append ends_in_halt_def halt_row_facts
          memory_consistent_append replay_append read_ok_def replay_memory_def replay_row_def)
  qed
qed

theorem run_trace_is_faithful_witness:
  "\<exists>receipt v. run_receipt 3 [bud_inst Op_Push 0 0 0 0, bud_inst Op_Pop 1 0 0 0, bud_inst Op_Assert 0 1 0 0] (vm_new 8)
     = Some (receipt, v) \<and> rc_error receipt = Some AssertionFailed \<and> length (vm_trace v) = 3
     \<and> chained 0 (vm_trace v) (vm_pc v) \<and> ends_in_halt (vm_trace v)"
proof -
  let ?p = "[bud_inst Op_Push 0 0 0 0, bud_inst Op_Pop 1 0 0 0, bud_inst Op_Assert 0 1 0 0]"
  obtain receipt v where run: "run_receipt 3 ?p (vm_new 8) = Some (receipt, v)"
    and "rc_error receipt = Some AssertionFailed" "length (vm_trace v) = 3"
    by (simp add: run_receipt_def numeral_3_eq_3 vm_new_def vm_with_gas_limit_def run_loop_plain plain_def
        exec_instruction_def exec_push_def exec_pop_def exec_assert_def vm_fail_def write_result_def exec_frame_defs
        reset_r0_def base_row_def push_synthetic_halt_def push_row_def Let_def del: run_loop.simps)
  moreover have "vm_fresh (vm_new 8)" by (simp add: vm_fresh_def vm_new_def vm_with_gas_limit_def)
  ultimately show ?thesis using run_trace_is_faithful [OF _ run] by blast
qed

text \<open>
  C37: Gas is metered exactly. A run that did not end out of gas used no more than its limit, and
  a successful run under a limit below the largest \<open>u64\<close> used the sum of the costs of the
  rows of its trace, expansion rows being free.
\<close>

theorem run_gas_is_metered:
  assumes "vm_fresh v0" "run_receipt fuel program v0 = Some (receipt, v)"
  shows "(rc_error receipt \<noteq> Some OutOfGas \<longrightarrow> rc_gas_used receipt \<le> vm_gas_limit v0)
    \<and> (rc_success receipt \<and> vm_gas_limit v0 \<noteq> - 1 \<longrightarrow> unat (rc_gas_used receipt) = trace_cost (vm_trace v))"
proof -
  from assms obtain w where inv: "vm_inv v0 w" and w: "vm_error w = rc_error receipt"
    and v: "v = (if rc_error receipt \<noteq> None then push_row (halt_row w) w else w)"
    and rc: "rc_success receipt = (rc_error receipt = None)" "rc_gas_used receipt = vm_gas_used w"
    by (rule run_receipt_cases)
  then show ?thesis by (auto simp: vm_inv_def vm_bounds_def trace_metered_def)
qed

theorem run_gas_is_metered_witness:
  "\<exists>receipt v prog. build_private_transfer_check_program = Inr prog
     \<and> run_receipt 12 prog (vm_with_mainnet_mode 8 60 True) = Some (receipt, v)
     \<and> rc_gas_used receipt \<le> 60 \<and> trace_cost (vm_trace v) = 50"
proof -
  obtain prog where prog: "build_private_transfer_check_program = Inr prog"
    by (simp add: build_private_transfer_check_program_def PRIVATE_TRANSFER_PROGRAM_OPS_def Let_def)
  obtain w where "run_loop 12 prog (vm_with_mainnet_mode 8 60 True) = Some (None, w)" "vm_gas_used w = 50"
    using private_transfer_run [OF prog, of 60 0 8 True] by auto
  then obtain receipt where run: "run_receipt 12 prog (vm_with_mainnet_mode 8 60 True) = Some (receipt, w)"
    and rc: "rc_gas_used receipt = 50" "rc_error receipt = None" "rc_success receipt"
    by (simp add: run_receipt_def)
  have lim: "vm_gas_limit (vm_with_mainnet_mode 8 60 True) = 60"
    by (simp add: vm_with_mainnet_mode_def vm_with_gas_limit_def)
  have "rc_gas_used receipt \<le> 60 \<and> trace_cost (vm_trace w) = 50"
    using run_gas_is_metered [OF vm_fresh_new(1) run] rc by (simp add: lim)
  then show ?thesis using prog run by blast
qed

subsection \<open>Steps\<close>

text \<open>
  C38: Whatever a program does, the machine stays within its bounds: 32 registers, register 0
  is zero, at most 1024 words on the stack, a memory of constant size, and a machine that
  recorded an error has stopped.
\<close>

theorem vm_stays_in_bounds:
  assumes "vm_fresh v0" "(vm_next program)\<^sup>*\<^sup>* v0 v"
  shows "length (vm_registers v) = 32 \<and> vm_registers v ! 0 = 0 \<and> length (vm_stack v) \<le> 1024
    \<and> length (vm_memory v) = length (vm_memory v0) \<and> (vm_error v \<noteq> None \<longrightarrow> vm_halted v)"
proof -
  have "vm_inv v0 v" by (rule vm_safe.inv_steps [OF assms(2) vm_inv_fresh [OF assms(1)]])
  then show ?thesis by (simp add: vm_inv_def vm_bounds_def)
qed

theorem vm_stays_in_bounds_witness:
  "let p = [bud_inst Op_Load 0 0 0 7, bud_inst Op_Push 0 0 0 0]; v = snd (vm_step p (vm_new 8))
   in vm_pc v = 1 \<and> vm_registers v ! 0 = 0 \<and> length (vm_stack v) \<le> 1024"
proof -
  let ?p = "[bud_inst Op_Load 0 0 0 7, bud_inst Op_Push 0 0 0 0]"
  let ?v = "snd (vm_step ?p (vm_new 8))"
  have "vm_fresh (vm_new 8)" by (simp add: vm_fresh_def vm_new_def vm_with_gas_limit_def)
  moreover have "vm_next ?p (vm_new 8) ?v" by (rule vm_nextI [OF prod.collapse [symmetric]])
  ultimately have "vm_registers ?v ! 0 = 0 \<and> length (vm_stack ?v) \<le> 1024"
    using vm_stays_in_bounds [of "vm_new 8" ?p ?v] by blast
  moreover have "vm_pc ?v = 1"
    by (simp add: vm_new_def vm_with_gas_limit_def vm_step_plain plain_def exec_instruction_def exec_load_def
        write_result_def exec_frame_defs Let_def)
  ultimately show ?thesis by (simp only: Let_def simp_thms)
qed

text \<open>
  A step that fails has no effect on memory, stack, storage, events, state writes, program
  counter or trace: it stops the machine, records the error, may charge gas and clears
  register 0.
\<close>

theorem failed_step_frame:
  assumes "vm_step program v = (Inl e, w)"
  shows "w = v\<lparr> vm_registers := (vm_registers v)[0 := 0], vm_gas_used := vm_gas_used w,
                vm_halted := True, vm_error := Some e \<rparr> \<and> vm_gas_used v \<le> vm_gas_used w"
  using assms by (rule vm_step_error) (simp add: reset_r0_def put_reg_def)

theorem failed_step_frame_witness:
  "vm_trace (snd (vm_step [bud_inst Op_Pop 1 0 0 0] (vm_new 8))) = []
   \<and> fst (vm_step [bud_inst Op_Pop 1 0 0 0] (vm_new 8)) = Inl StackUnderflow"
proof -
  obtain w where step: "vm_step [bud_inst Op_Pop 1 0 0 0] (vm_new 8) = (Inl StackUnderflow, w)"
    by (simp add: vm_new_def vm_with_gas_limit_def vm_step_plain plain_def exec_instruction_def exec_pop_def
        vm_fail_def Let_def reset_r0_def put_reg_def)
  have "vm_trace w = vm_trace (vm_new 8)"
    using failed_step_frame [OF step] by (metis vm.select_convs(8) vm.surjective vm.update_convs(1,9,10,12))
  moreover have "vm_trace (vm_new 8) = []" by (simp add: vm_new_def vm_with_gas_limit_def)
  ultimately show ?thesis by (simp add: step)
qed

text \<open>
  In mainnet mode the machine refuses the opcodes that are not activated yet: an instruction
  word that decodes to \<open>VerifyMerkle\<close> or \<open>VerifyInference\<close> stops it with the activation
  error, before any gas is charged.
\<close>

theorem mainnet_refuses_unactivated:
  assumes "vm_mainnet_mode v" "\<not> vm_halted v" "unat (vm_pc v) < length program"
    and "decode_any (program ! unat (vm_pc v)) = Inr i" "i_opcode i \<in> {Op_VerifyMerkle, Op_VerifyInference}"
  shows "vm_step program v =
    (let e = InvalidOpcode (decode_error_display (MainnetActivationRequired (i_opcode i)))
     in (Inl e, v\<lparr> vm_registers := (vm_registers v)[0 := 0], vm_halted := True, vm_error := Some e \<rparr>))"
proof -
  have "decode_for_mainnet (program ! unat (vm_pc v)) activation_default = Inl (MainnetActivationRequired (i_opcode i))"
    using assms(4,5) by (auto simp: decode_for_mainnet_def allows_default)
  then show ?thesis
    using assms(1-3) by (simp add: vm_step_def decode_instruction_def vm_fail_def reset_r0_def put_reg_def Let_def)
qed

theorem mainnet_refuses_unactivated_witness:
  "fst (vm_step [bud_inst Op_VerifyMerkle 1 2 3 0] (vm_with_mainnet_mode 8 100 True))
   = Inl (InvalidOpcode ''Opcode VerifyMerkle requires mainnet activation'')"
  by (subst mainnet_refuses_unactivated [where i = "\<lparr> i_opcode = Op_VerifyMerkle, i_rd = 1, i_rs1 = 2, i_rs2 = 3, i_imm = 0 \<rparr>"])
    (simp_all add: vm_with_mainnet_mode_def vm_with_gas_limit_def bud_inst_def decode_encode inst_fits_def Let_def)

text \<open>
  No trace of a mainnet run contains a row of an opcode that is not activated.
\<close>

theorem mainnet_trace_is_gated:
  assumes "vm_fresh v0" "vm_mainnet_mode v0" "run_receipt fuel program v0 = Some (receipt, v)"
  shows "\<forall>r \<in> set (vm_trace v). row_opcode r \<noteq> Op_VerifyMerkle \<and> row_opcode r \<noteq> Op_VerifyInference"
proof -
  from assms(1,3) obtain w where inv: "vm_inv v0 w"
    and v: "v = (if rc_error receipt \<noteq> None then push_row (halt_row w) w else w)"
    by (rule run_receipt_cases)
  have "\<forall>r \<in> set (vm_trace w). row_opcode r \<noteq> Op_VerifyMerkle \<and> row_opcode r \<noteq> Op_VerifyInference"
    using inv assms(2) by (simp add: vm_inv_def vm_bounds_def trace_gated_def list_all_iff allows_default)
  then show ?thesis by (auto simp: v push_row_def halt_row_facts split: if_splits)
qed

theorem mainnet_trace_is_gated_witness:
  "\<exists>receipt v. run_receipt 1 [bud_inst Op_Halt 0 0 0 0] (vm_with_mainnet_mode 8 100 True) = Some (receipt, v)
     \<and> length (vm_trace v) = 1 \<and> (\<forall>r \<in> set (vm_trace v). row_opcode r \<noteq> Op_VerifyMerkle)"
proof -
  obtain receipt v where run: "run_receipt 1 [bud_inst Op_Halt 0 0 0 0] (vm_with_mainnet_mode 8 100 True) = Some (receipt, v)"
    and len: "length (vm_trace v) = 1"
    by (simp add: run_receipt_def vm_with_mainnet_mode_def vm_with_gas_limit_def run_loop_plain run_loop_halted
        plain_def exec_instruction_def exec_halt_def exec_frame_defs Let_def del: run_loop.simps)
  have "vm_mainnet_mode (vm_with_mainnet_mode 8 100 True)"
    by (simp add: vm_with_mainnet_mode_def)
  then show ?thesis using mainnet_trace_is_gated [OF vm_fresh_new(1) _ run] run len by blast
qed

subsection \<open>Instructions and field arithmetic\<close>

text \<open>
  Packing and unpacking an instruction are inverse. An instruction whose register numbers
  are below 32 is decoded to itself, and an instruction that was decoded from a word packs to
  the 55 bits of that word the format uses.
\<close>

theorem instruction_round_trip:
  "(inst_fits i \<longrightarrow> decode_any (inst_encode i) = Inr i)
   \<and> (decode_any word = Inr i \<longrightarrow> inst_fits i \<and> inst_encode i = take_bit 55 word)"
  using decode_encode decode_fits encode_decode by blast

theorem instruction_round_trip_witness:
  "decode_any (inst_encode \<lparr> i_opcode = Op_Load, i_rd = 1, i_rs1 = 31, i_rs2 = 0, i_imm = - 5 \<rparr>)
   = Inr \<lparr> i_opcode = Op_Load, i_rd = 1, i_rs1 = 31, i_rs2 = 0, i_imm = - 5 \<rparr>"
  using instruction_round_trip [of "\<lparr> i_opcode = Op_Load, i_rd = 1, i_rs1 = 31, i_rs2 = 0, i_imm = - 5 \<rparr>"]
  by (simp add: inst_fits_def)

text \<open>
  The \<open>Div\<close> instruction divides and \<open>Inv\<close> inverts in the field: for a divisor that is not a multiple of \<open>P\<close>
  the quotient times the divisor is the dividend modulo \<open>P\<close>, and the inverse times the
  operand is one.
\<close>

theorem field_division_is_exact:
  assumes "unat y mod unat GOLDILOCKS_P \<noteq> 0"
  shows "unat (field_mul_goldilocks (arith_result Op_Div x y) y) = unat x mod unat GOLDILOCKS_P
    \<and> field_mul_goldilocks y (arith_result Op_Inv y z) = 1"
proof -
  have y: "y \<noteq> 0" and inv: "field_mul_goldilocks y (field_inverse_goldilocks y) = 1"
    using assms field_inverse_unit by auto
  have "arith_result Op_Div x y = field_mul_goldilocks x (field_inverse_goldilocks y)"
    using y by (simp add: field_mul_goldilocks_def)
  then have "unat (field_mul_goldilocks (arith_result Op_Div x y) y)
      = unat x * unat (field_inverse_goldilocks y) * unat y mod gp"
    by (simp add: unat_field_mul mod_mult_left_eq)
  also have "\<dots> = unat x * (unat y * unat (field_inverse_goldilocks y) mod gp) mod gp"
    by (simp add: mod_mult_right_eq ac_simps)
  also have "unat y * unat (field_inverse_goldilocks y) mod gp = 1"
    using inv by (metis unat_field_mul unat_1)
  finally show ?thesis using y inv by simp
qed

theorem field_division_is_exact_witness:
  "unat (field_mul_goldilocks (arith_result Op_Div 1 3) 3) = 1"
  using field_division_is_exact [of 3 1] by (simp add: gp_def)

text \<open>
  The 30-round Poseidon permutation is one: it maps the states of eight canonical field elements
  one to one onto themselves.
\<close>

theorem poseidon_is_a_permutation:
  "bij_betw poseidon_full_state {s. canonical_state s} {s. canonical_state s}"
  by (rule full_state_bij)

subsection \<open>The Merkle opcode\<close>

text \<open>What an expansion row says the next accumulator is.\<close>

definition merkle_row_next :: "trace_step \<Rightarrow> u64 option" where
  "merkle_row_next r =
     (case (st_merkle_key r, st_merkle_current r, st_merkle_sibling r, st_merkle_round r) of
        (Some key, Some c, Some s, Some k) \<Rightarrow>
          Some (if drop_bit (unat k) key AND 1 = 0 then merkle_poseidon_round c s else merkle_poseidon_round s c)
      | _ \<Rightarrow> None)"

definition walk_traced :: "trace_step \<Rightarrow> trace_step list \<Rightarrow> bool" where
  "walk_traced b rows =
     (length rows = 64 \<and> st_merkle_current (rows ! 0) = Some (st_src2_val b) \<and>
      list_all (\<lambda>k. merkle_row_next (rows ! k) = st_merkle_current (rows ! Suc k)) [0..<63] \<and>
      merkle_row_next (rows ! 63) = st_merkle_current b)"

lemma merkle_rows_nth:
  "k < length ks \<Longrightarrow> merkle_rows pc i pa key v c ks ! k =
     merkle_row pc i key (ks ! k) (pa + 8 + ks ! k * 8) (read_u64 (vm_memory v) (pa + 8 + ks ! k * 8))
       (fold (merkle_path_round (vm_memory v) pa key) (take k ks) c) v"
  by (induction ks arbitrary: c k) (auto simp: nth_Cons' take_Cons')

lemma merkle_row_next_row:
  "k < 64 \<Longrightarrow> merkle_row_next (merkle_row pc i key k a (read_u64 mem (pa + 8 + k * 8)) c v)
     = Some (merkle_path_round mem pa key k c)"
  by (simp add: merkle_row_next_def merkle_row_def merkle_path_round_def Let_def unat_of_nat take_bit_nat_eq_self)

lemma merkle_walk_rows:
  assumes "st_src2_val b = y" "st_merkle_current b = Some (merkle_path_root (vm_memory v) pa y)"
  shows "walk_traced b (merkle_rows pc i pa (read_u64 (vm_memory v) pa) v y [0..<64])"
proof -
  let ?f = "merkle_path_round (vm_memory v) pa (read_u64 (vm_memory v) pa)"
  let ?rows = "merkle_rows pc i pa (read_u64 (vm_memory v) pa) v y [0..<64]"
  have row: "?rows ! k = merkle_row pc i (read_u64 (vm_memory v) pa) k (pa + 8 + k * 8)
      (read_u64 (vm_memory v) (pa + 8 + k * 8)) (fold ?f [0..<k] y) v" if "k < 64" for k
    using that by (simp add: merkle_rows_nth)
  have nxt: "merkle_row_next (?rows ! k) = Some (fold ?f [0..<Suc k] y)" if "k < 64" for k
    using that by (simp add: row merkle_row_next_row)
  have cur: "st_merkle_current (?rows ! k) = Some (fold ?f [0..<k] y)" if "k < 64" for k
    using that by (simp add: row merkle_row_def)
  have "merkle_row_next (?rows ! k) = st_merkle_current (?rows ! Suc k)" if "k < 63" for k
    using that nxt [of k] cur [of "Suc k"] by (simp del: upt_Suc)
  moreover have "[0..<Suc 63] = [0..<64]" by simp
  then have "merkle_row_next (?rows ! 63) = st_merkle_current b"
    using nxt [of 63] assms(2) by (simp add: merkle_path_root_def del: upt_Suc)
  moreover have "st_merkle_current (?rows ! 0) = Some (st_src2_val b)" using cur [of 0] assms(1) by simp
  ultimately show ?thesis by (simp add: walk_traced_def list_all_iff)
qed

lemma decode_instruction_fits: "decode_instruction raw b = Inr i \<Longrightarrow> inst_fits i"
  by (auto simp: decode_instruction_def isa_decode_any decode_for_mainnet_def map_sum_def
      split: if_splits sum.splits intro: decode_fits)

text \<open>
  The verdict of \<open>VerifyMerkle\<close> is the one its trace proves. A step on the opcode appends its own row
  and 64 expansion rows; the expansion starts at the leaf, each row's accumulator is one round
  of the row before it, the last round gives the accumulator the own row carries, and the
  destination register is 1 exactly when that accumulator is the claimed root.
\<close>

theorem merkle_verdict_is_traced:
  assumes "vm_step program v = (Inr u, w)" "\<not> vm_halted v" "length (vm_registers v) = 32"
    and "decode_instruction (program ! unat (vm_pc v)) (vm_mainnet_mode v) = Inr i"
    and "i_opcode i = Op_VerifyMerkle" "i_rd i \<noteq> 0" "window_fits (scast (i_imm i)) 520 (vm_memory v)"
  shows "\<exists>b rows. vm_trace w = vm_trace v @ b # rows \<and> walk_traced b rows
    \<and> vm_registers w ! unat (i_rd i) = bool_u64 (st_merkle_current b = Some (st_src1_val b))"
proof -
  from assms(1,2) obtain j eff x y w0 g where
    dec: "decode_instruction (program ! unat (vm_pc v)) (vm_mainnet_mode v) = Inr j" and
    ex: "exec_instruction j x y ((reset_r0 v)\<lparr> vm_gas_used := g \<rparr>) = (Inr eff, w0)" and
    w: "w = finish_step (vm_pc v) j x y eff w0"
    by (rule vm_step_ok)
  have j: "j = i" using dec assms(4) by simp
  let ?pa = "unat (scast (i_imm i) :: u64)" and ?mem = "vm_memory v"
  let ?root = "merkle_path_root ?mem ?pa y"
  let ?b = "(base_row (vm_pc v) i x y eff (reset_r0 w0))\<lparr> st_merkle_key := Some (read_u64 ?mem ?pa), st_next_pc := vm_pc v,
      st_merkle_current := Some ?root \<rparr>"
  have w0: "vm_memory w0 = ?mem" "vm_trace w0 = vm_trace v"
    "vm_registers w0 = ((vm_registers v)[0 := 0])[unat (i_rd i) := bool_u64 (?root = x)]"
    using ex assms(5,7) by (auto simp: j exec_instruction_def exec_verify_merkle_def exec_frame_defs Let_def)
  have "vm_trace w = vm_trace v @ ?b # merkle_rows (vm_pc v) i ?pa (read_u64 ?mem ?pa) (reset_r0 w0) y [0..<64]"
    using assms(5,7) by (simp add: w j finish_step_trace step_rows_def w0 Let_def)
  moreover have "walk_traced ?b (merkle_rows (vm_pc v) i ?pa (read_u64 ?mem ?pa) (reset_r0 w0) y [0..<64])"
    using merkle_walk_rows [of ?b y "reset_r0 w0" ?pa "vm_pc v" i] by (simp add: w0 base_row_def)
  moreover have "unat (i_rd i) < 32" "unat (i_rd i) \<noteq> 0"
    using decode_instruction_fits [OF assms(4)] assms(6) by (simp_all add: inst_fits_def word_less_nat_alt unat_eq_0)
  then have "vm_registers w ! unat (i_rd i) = bool_u64 (st_merkle_current ?b = Some (st_src1_val ?b))"
    using assms(3) by (simp add: w finish_step_trace w0 base_row_def)
  ultimately show ?thesis by blast
qed

theorem merkle_verdict_is_traced_witness:
  "\<exists>w b rows. vm_step [bud_inst Op_VerifyMerkle 1 2 3 0] (vm_new 520) = (Inr (), w)
     \<and> vm_trace w = b # rows \<and> walk_traced b rows"
proof -
  let ?i = "\<lparr> i_opcode = Op_VerifyMerkle, i_rd = 1, i_rs1 = 2, i_rs2 = 3, i_imm = 0 \<rparr>"
  have dec: "decode_instruction (bud_inst Op_VerifyMerkle 1 2 3 0) False = Inr ?i"
    unfolding bud_inst_def by (rule decode_instruction_encode) (simp_all add: inst_fits_def)
  obtain w where step: "vm_step [bud_inst Op_VerifyMerkle 1 2 3 0] (vm_new 520) = (Inr (), w)"
    using dec by (simp add: vm_step_def vm_new_def vm_with_gas_limit_def reset_r0_def put_reg_def consume_gas_def
        exec_instruction_def exec_verify_merkle_def write_result_def window_fits_def Let_def)
  have "\<exists>b rows. vm_trace w = vm_trace (vm_new 520) @ b # rows \<and> walk_traced b rows
      \<and> vm_registers w ! unat (i_rd ?i) = bool_u64 (st_merkle_current b = Some (st_src1_val b))"
    using dec by (intro merkle_verdict_is_traced [OF step])
      (simp_all add: vm_new_def vm_with_gas_limit_def window_fits_def)
  then show ?thesis using step by (auto simp: vm_new_def vm_with_gas_limit_def)
qed

text \<open>
  C39: The path check alone binds nothing: for every leaf and every canonical root there is a memory
  of the same size in which the path at the given address leads from the leaf to the root, so
  that \<open>VerifyMerkle\<close> answers 1. A single round can be solved for the last sibling.
\<close>

theorem merkle_path_is_forgeable:
  assumes "canonical root" "window_fits (scast (i_imm i)) 520 (vm_memory v)"
  shows "\<exists>mem eff w. length mem = length (vm_memory v)
    \<and> exec_verify_merkle i root leaf (v\<lparr> vm_memory := mem \<rparr>) = (Inr eff, w) \<and> eff_dst eff = 1"
proof -
  define pa where "pa = unat (scast (i_imm i) :: u64)"
  define m0 where "m0 = write_u64 (vm_memory v) pa 0"
  have len: "pa + 520 \<le> length (vm_memory v)" "pa + 520 < 2 ^ 64"
    using assms(2) by (simp_all add: window_fits_def pa_def)
  then have len0: "length m0 = length (vm_memory v)" by (simp add: m0_def)
  let ?cur = "fold (merkle_path_round m0 pa 0) [0..<63] leaf"
  obtain b where b: "merkle_poseidon_round ?cur b = root" using merkle_round_solvable [OF assms(1)] by blast
  define mem where "mem = write_u64 m0 (pa + 512) b"
  have lenm: "length mem = length (vm_memory v)" using len len0 by (simp add: mem_def)
  have other: "read_u64 mem a = read_u64 m0 a" if "a + 8 \<le> pa + 512" for a
    using that len len0 unfolding mem_def by (intro read_write_u64_other) simp_all
  have "read_u64 m0 pa = 0" using len unfolding m0_def by (intro read_write_u64) simp
  then have key: "read_u64 mem pa = 0" by (simp add: other)
  have "read_u64 mem (pa + 512) = b" using len len0 unfolding mem_def by (intro read_write_u64) simp
  then have sibling: "read_u64 mem (512 + pa) = b" by (simp add: add.commute)
  have "fold (merkle_path_round mem pa 0) [0..<63] leaf = ?cur"
    by (intro fold_cong) (auto simp: merkle_path_round_def other)
  moreover have "[0..<64] = [0..<63] @ [63]" by (simp add: upt_rec)
  ultimately have "merkle_path_root mem pa leaf = root"
    by (simp add: merkle_path_root_def key merkle_path_round_def [of mem pa 0 63] sibling Let_def b)
  then show ?thesis
    using len lenm
    by (intro exI [of _ mem]) (simp add: exec_verify_merkle_def window_fits_def effect_of_def bool_u64_def Let_def pa_def)
qed

theorem merkle_path_is_forgeable_witness:
  "\<exists>mem eff w. length mem = 520
    \<and> exec_verify_merkle \<lparr> i_opcode = Op_VerifyMerkle, i_rd = 1, i_rs1 = 2, i_rs2 = 3, i_imm = 0 \<rparr> 7 9
        ((vm_new 520)\<lparr> vm_memory := mem \<rparr>) = (Inr eff, w) \<and> eff_dst eff = 1"
  using merkle_path_is_forgeable [of 7 "\<lparr> i_opcode = Op_VerifyMerkle, i_rd = 1, i_rs1 = 2, i_rs2 = 3, i_imm = 0 \<rparr>" "vm_new 520" 9]
  by (simp add: canonical_def GOLDILOCKS_P_def window_fits_def vm_new_def vm_with_gas_limit_def)

subsection \<open>Memory and programs\<close>

text \<open>
  What a program stores it loads back: after a successful \<open>Store\<close>, a \<open>Load\<close> through
  the same base register and offset succeeds, given the gas for it, and its destination
  register holds the stored word.
\<close>

theorem store_then_load:
  assumes "vm_step program v = (Inr u, v1)" "\<not> vm_halted v" "length (vm_registers v) = 32"
    and "decode_instruction (program ! unat (vm_pc v)) (vm_mainnet_mode v) = Inr si" "i_opcode si = Op_Store"
    and "unat (vm_pc v1) < length program"
    and "decode_instruction (program ! unat (vm_pc v1)) (vm_mainnet_mode v) = Inr li" "i_opcode li = Op_Load"
    and "i_rs1 li = i_rs1 si" "i_imm li = i_imm si" "i_rs1 li \<noteq> 0" "i_rd li \<noteq> 0"
    and "sat_add (vm_gas_used v1) 3 \<le> vm_gas_limit v"
  shows "\<exists>v2. vm_step program v1 = (Inr (), v2)
    \<and> vm_registers v2 ! unat (i_rd li) = (vm_registers v)[0 := 0] ! unat (i_rs2 si)"
proof -
  from assms(1,2) obtain j eff x y w0 g where
    dec: "decode_instruction (program ! unat (vm_pc v)) (vm_mainnet_mode v) = Inr j" and
    xy: "x = vm_registers (reset_r0 v) ! unat (i_rs1 j)" "y = vm_registers (reset_r0 v) ! unat (i_rs2 j)" and
    ex: "exec_instruction j x y ((reset_r0 v)\<lparr> vm_gas_used := g \<rparr>) = (Inr eff, w0)" and
    v1: "v1 = finish_step (vm_pc v) j x y eff w0"
    by (rule vm_step_ok)
  have j: "j = si" using dec assms(4) by simp
  obtain a where a: "memory_word_addr x (i_imm si) (length (vm_memory v)) = Some a"
    and w0: "w0 = next_instr ((reset_r0 v)\<lparr> vm_gas_used := g, vm_memory := write_u64 (vm_memory v) a y \<rparr>)"
    using ex assms(5) by (auto simp: j exec_instruction_def exec_store_def vm_fail_def split: option.splits)
  have a8: "a + 8 \<le> length (vm_memory v)" using a by (simp add: memory_word_addr_Some)
  have f: "vm_registers v1 = (vm_registers v)[0 := 0]" "vm_memory v1 = write_u64 (vm_memory v) a y"
    "\<not> vm_halted v1" "vm_gas_limit v1 = vm_gas_limit v" "vm_mainnet_mode v1 = vm_mainnet_mode v"
    using assms(2) by (simp_all add: v1 finish_step_trace w0 next_instr_def)
  have gas: "consume_gas 3 (reset_r0 v1) = (Inr (), (reset_r0 v1)\<lparr> vm_gas_used := sat_add (vm_gas_used v1) 3 \<rparr>)"
    using assms(13) by (simp add: consume_gas_def Let_def f leD)
  have rd: "unat (i_rd li) < 32" "unat (i_rd li) \<noteq> 0"
    using decode_instruction_fits [OF assms(7)] assms(12) by (simp_all add: inst_fits_def word_less_nat_alt unat_eq_0)
  have "memory_word_addr ((vm_registers v)[0 := 0] ! unat (i_rs1 li)) (i_imm li) (length (vm_memory v1)) = Some a"
    using a a8 assms(9,10) by (simp add: f xy j)
  then show ?thesis
    using assms(3,6-8,11) rd a8
    by (simp add: vm_step_def f gas exec_instruction_def exec_load_def exec_frame_defs Let_def finish_step_trace
        read_write_u64 xy j)
qed

theorem store_then_load_witness:
  "let p = [bud_inst Op_Load 2 0 0 8, bud_inst Op_Store 0 2 2 0, bud_inst Op_Load 3 2 0 0];
       v = snd (vm_step p (vm_new 16)); v1 = snd (vm_step p v)
   in \<exists>v2. vm_step p v1 = (Inr (), v2) \<and> vm_registers v2 ! 3 = 8"
proof -
  let ?p = "[bud_inst Op_Load 2 0 0 8, bud_inst Op_Store 0 2 2 0, bud_inst Op_Load 3 2 0 0]"
  define v where "v = snd (vm_step ?p (vm_new 16))"
  have dec: "decode_instruction (bud_inst opc rd rs1 rs2 imm) False
      = Inr \<lparr> i_opcode = opc, i_rd = rd, i_rs1 = rs1, i_rs2 = rs2, i_imm = imm \<rparr>"
    if "rd < 32" "rs1 < 32" "rs2 < 32" for opc rd rs1 rs2 imm
    unfolding bud_inst_def using that by (intro decode_instruction_encode) (simp_all add: inst_fits_def)
  have v: "vm_registers v = (replicate 32 0)[0 := 0, 2 := 8, 0 := 0]" "vm_pc v = 1" "\<not> vm_halted v" "\<not> vm_mainnet_mode v"
    "vm_memory v = replicate 16 0" "vm_gas_used v = 3" "vm_gas_limit v = 1000000"
    by (simp_all add: v_def vm_new_def vm_with_gas_limit_def vm_step_plain plain_def exec_instruction_def exec_load_def
        write_result_def exec_frame_defs Let_def)
  have addr: "memory_word_addr 8 0 16 = Some 8" by (simp add: memory_word_addr_def Let_def)
  obtain v1 where step: "vm_step ?p v = (Inr (), v1)" and v1: "vm_pc v1 = 2" "vm_gas_used v1 = 6"
    by (simp add: v vm_step_plain plain_def exec_instruction_def exec_store_def addr exec_frame_defs Let_def)
  have "\<exists>v2. vm_step ?p v1 = (Inr (), v2)
      \<and> vm_registers v2 ! unat (i_rd \<lparr> i_opcode = Op_Load, i_rd = 3, i_rs1 = 2, i_rs2 = 0, i_imm = 0 \<rparr>)
        = (vm_registers v)[0 := 0] ! unat (i_rs2 \<lparr> i_opcode = Op_Store, i_rd = 0, i_rs1 = 2, i_rs2 = 2, i_imm = 0 \<rparr>)"
    by (rule store_then_load [OF step]) (simp_all add: v v1 dec)
  then have "\<exists>v2. vm_step ?p v1 = (Inr (), v2) \<and> vm_registers v2 ! 3 = 8" by (simp add: v)
  then show ?thesis using step by (simp add: v_def [symmetric] Let_def)
qed

text \<open>
  The canonical private-transfer program succeeds in either mode with 50 gas or more and logs its two
  verdicts: conservation holds, and the nullifier flag says whether the canonical secret derives
  the canonical claim. Register 4 holds the commitment to amount, blinding and recipient.
\<close>

theorem private_transfer_program_verdicts:
  assumes "build_private_transfer_check_program = Inr prog" "50 \<le> limit"
  shows "\<exists>receipt w. run_receipt (n + 12) prog (vm_with_mainnet_mode m limit mainnet) = Some (receipt, w)
    \<and> rc_success receipt \<and> rc_gas_used receipt = 50
    \<and> vm_registers w ! 4 = poseidon4_hash3 1000 42 77
    \<and> rc_events receipt = [1, bool_u64 (poseidon4_hash 0x0BADC0DE DOMAIN_NULLIFIER = 0x12345678)]"
  using private_transfer_run [OF assms, of n m mainnet] by (auto simp: run_receipt_def Let_def)

theorem private_transfer_program_verdicts_witness:
  "\<exists>prog receipt w. build_private_transfer_check_program = Inr prog
     \<and> run_receipt 12 prog (vm_with_mainnet_mode 0 50 True) = Some (receipt, w) \<and> rc_success receipt
     \<and> rc_events receipt ! 0 = 1"
proof -
  obtain prog where prog: "build_private_transfer_check_program = Inr prog"
    by (simp add: build_private_transfer_check_program_def PRIVATE_TRANSFER_PROGRAM_OPS_def Let_def)
  then show ?thesis using private_transfer_program_verdicts [OF prog, of 50 0 0 True] by auto
qed

text \<open>
  The canonical syscall program logs the sender, the block height and the nonce of the context
  it runs in, in that order, whatever the context is.
\<close>

theorem syscall_program_logs_context:
  assumes "build_syscall_context_check_program = Inr prog" "18 \<le> limit"
  shows "\<exists>receipt w. run_receipt (n + 7) prog ((vm_with_mainnet_mode m limit mainnet)\<lparr> vm_ctx := c \<rparr>) = Some (receipt, w)
    \<and> rc_success receipt \<and> rc_events receipt = [ctx_sender c, ctx_block_height c, ctx_nonce c]"
  using syscall_context_run [OF assms, where n = n and m = m and mainnet = mainnet and c = c] by (auto simp: run_receipt_def Let_def)

theorem syscall_program_logs_context_witness:
  "\<exists>prog receipt w. build_syscall_context_check_program = Inr prog
     \<and> run_receipt 7 prog ((vm_with_mainnet_mode 0 18 False)\<lparr> vm_ctx :=
         \<lparr> ctx_sender = 11, ctx_nonce = 7, ctx_block_height = 12345, ctx_initial_state_root = [] \<rparr> \<rparr>) = Some (receipt, w)
     \<and> rc_events receipt = [11, 12345, 7]"
proof -
  obtain prog where prog: "build_syscall_context_check_program = Inr prog"
    by (simp add: build_syscall_context_check_program_def SYSCALL_CONTEXT_PROGRAM_OPS_def Let_def)
  then show ?thesis
    using syscall_program_logs_context [OF prog, where limit = 18 and n = 0 and m = 0 and mainnet = False
        and c = "\<lparr> ctx_sender = 11, ctx_nonce = 7, ctx_block_height = 12345, ctx_initial_state_root = [] \<rparr>"] by auto
qed

end
