(* ===== verification/Registry_Params.thy ===== *)
theory Registry_Params
  imports Field_Hash
begin

text \<open>
  The vocabulary of the permissionless registry: roles (\<^verbatim>\<open>src/registry/role.rs\<close>),
  its parameters and the fees computed from them (\<^verbatim>\<open>src/registry/params.rs\<close>), the
  slash penalty (\<^verbatim>\<open>src/core/chain_config.rs\<close>) and the slashing evidence
  (\<^verbatim>\<open>src/registry/evidence.rs\<close>). The lemmas read the fixed-point arithmetic as
  arithmetic on natural numbers and give the exact condition under which a report may be
  acted on.
\<close>

subsection \<open>Roles\<close>

type_synonym role_id = u32

definition VALIDATOR :: role_id where "VALIDATOR = 1"
definition VERIFIER :: role_id where "VERIFIER = 2"
definition MASTER_VERIFIER :: role_id where "MASTER_VERIFIER = 2"
definition RELAYER :: role_id where "RELAYER = 3"
definition PROVER :: role_id where "PROVER = 4"
definition STORAGE_OPERATOR :: role_id where "STORAGE_OPERATOR = 5"
definition AI_VERIFIER :: role_id where "AI_VERIFIER = 6"
definition ATTESTER :: role_id where "ATTESTER = 7"
definition AI_OPERATOR :: role_id where "AI_OPERATOR = 8"
definition CONTENT_VALIDATOR :: role_id where "CONTENT_VALIDATOR = 9"

lemmas role_defs =
  VALIDATOR_def VERIFIER_def MASTER_VERIFIER_def RELAYER_def PROVER_def STORAGE_OPERATOR_def
  AI_VERIFIER_def ATTESTER_def AI_OPERATOR_def CONTENT_VALIDATOR_def

definition role_as_bytes :: "role_id \<Rightarrow> bytes" where
  "role_as_bytes r = le_bytes 4 r"

definition role_display :: "role_id \<Rightarrow> string" where
  "role_display r =
     (if r = VALIDATOR then ''validator''
      else if r = VERIFIER then ''master_verifier''
      else if r = RELAYER then ''relayer''
      else if r = PROVER then ''prover''
      else if r = STORAGE_OPERATOR then ''storage_operator''
      else if r = AI_VERIFIER then ''ai_verifier''
      else if r = ATTESTER then ''attester''
      else if r = AI_OPERATOR then ''ai_operator''
      else if r = CONTENT_VALIDATOR then ''content_validator''
      else ''role#'' @ decimal (unat r))"

subsection \<open>Parameters\<close>

definition PPM_DENOMINATOR :: u64 where
  "PPM_DENOMINATOR = 1000000"

definition FIXED_POINT_SCALE :: u64 where
  "FIXED_POINT_SCALE = 1000000"

definition UNBONDING_EPOCHS :: u64 where
  "UNBONDING_EPOCHS = 7"

datatype slashing_condition = DoubleSign | LivenessFault | MaliciousBehaviour

fun condition_as_bytes :: "slashing_condition \<Rightarrow> bytes" where
  "condition_as_bytes DoubleSign = ascii ''double_sign''"
| "condition_as_bytes LivenessFault = ascii ''liveness_fault''"
| "condition_as_bytes MaliciousBehaviour = ascii ''malicious_behaviour''"

record registry_params =
  min_stake :: u64
  unbonding_epochs :: u64
  double_sign_slash_ratio_fixed :: u64
  liveness_slash_ratio_fixed :: u64
  malicious_slash_ratio_fixed :: u64
  liveness_max_missed_epochs :: u64
  slashing_report_fee :: u64
  proof_submission_fee :: u64
  ai_model_register_fee :: u64
  prover_reward :: u64
  max_invalid_votes_per_epoch :: u64
  liveness_slashing_enabled :: bool
  bridge_relayer_fee_ppm :: u64
  bridge_relayer_min_fee :: u64
  transfer_fee_ppm :: u64
  swap_fee_ppm :: u64
  bridge_fee_ppm :: u64

fun slash_ratio :: "registry_params \<Rightarrow> slashing_condition \<Rightarrow> u64" where
  "slash_ratio p DoubleSign = double_sign_slash_ratio_fixed p"
| "slash_ratio p LivenessFault = liveness_slash_ratio_fixed p"
| "slash_ratio p MaliciousBehaviour = malicious_slash_ratio_fixed p"

text \<open>\<open>u128::div_ceil\<close> and \<open>u64::try_from(..).unwrap_or(u64::MAX)\<close>.\<close>

definition div_ceil :: "u128 \<Rightarrow> u128 \<Rightarrow> u128" where
  "div_ceil a b = (if a mod b > 0 then a div b + 1 else a div b)"

definition narrow_or_max :: "u128 \<Rightarrow> u64" where
  "narrow_or_max x = (if unat x < 2 ^ 64 then ucast x else - 1)"

definition proportional_fee :: "u64 \<Rightarrow> u64 \<Rightarrow> u64" where
  "proportional_fee amount rate_ppm =
     (if rate_ppm = 0 \<or> amount = 0 then 0
      else let scaled = sat_mul (ucast amount) (ucast rate_ppm) :: u128
           in narrow_or_max (div_ceil scaled (ucast PPM_DENOMINATOR)))"

definition required_transfer_fee :: "registry_params \<Rightarrow> u64 \<Rightarrow> u64 \<Rightarrow> u64" where
  "required_transfer_fee p amount base_fee = sat_add base_fee (proportional_fee amount (transfer_fee_ppm p))"

text \<open>The first rate of a list of named rates that is not below 100%.\<close>

fun check_rates :: "(string \<times> u64) list \<Rightarrow> string + unit" where
  "check_rates [] = Inr ()"
| "check_rates ((name, rate) # rs) =
     (if rate \<ge> PPM_DENOMINATOR then Inl (name @ '' must be below 100%'') else check_rates rs)"

definition params_validate :: "registry_params \<Rightarrow> string + unit" where
  "params_validate p =
     (if min_stake p < 100 then Inl ''min_stake must be at least 100''
      else if unbonding_epochs p = 0 \<or> unbonding_epochs p > 100000
        then Inl ''unbonding_epochs must be between 1 and 100,000''
      else if double_sign_slash_ratio_fixed p > FIXED_POINT_SCALE
        then Inl ''double_sign_slash_ratio_fixed cannot exceed FIXED_POINT_SCALE''
      else if liveness_slash_ratio_fixed p > FIXED_POINT_SCALE
        then Inl ''liveness_slash_ratio_fixed cannot exceed FIXED_POINT_SCALE''
      else if malicious_slash_ratio_fixed p > FIXED_POINT_SCALE
        then Inl ''malicious_slash_ratio_fixed cannot exceed FIXED_POINT_SCALE''
      else if bridge_relayer_fee_ppm p \<ge> PPM_DENOMINATOR
        then Inl ''bridge_relayer_fee_ppm must be below 100%''
      else case check_rates [(''transfer_fee_ppm'', transfer_fee_ppm p), (''swap_fee_ppm'', swap_fee_ppm p),
                             (''bridge_fee_ppm'', bridge_fee_ppm p)] of
             Inl e \<Rightarrow> Inl e
           | Inr _ \<Rightarrow>
               if max_invalid_votes_per_epoch p > 100000
               then Inl ''max_invalid_votes_per_epoch must be at most 100,000''
               else Inr ())"

definition params_default :: registry_params where
  "params_default =
     \<lparr> min_stake = 1000, unbonding_epochs = UNBONDING_EPOCHS,
       double_sign_slash_ratio_fixed = FIXED_POINT_SCALE div 2,
       liveness_slash_ratio_fixed = FIXED_POINT_SCALE div 100,
       malicious_slash_ratio_fixed = FIXED_POINT_SCALE,
       liveness_max_missed_epochs = 20, slashing_report_fee = 10, proof_submission_fee = 10,
       ai_model_register_fee = 10, prover_reward = 0, max_invalid_votes_per_epoch = 20,
       liveness_slashing_enabled = False, bridge_relayer_fee_ppm = 10000, bridge_relayer_min_fee = 10,
       transfer_fee_ppm = 0, swap_fee_ppm = 0, bridge_fee_ppm = 0 \<rparr>"

definition slash_penalty :: "u64 \<Rightarrow> u64 \<Rightarrow> u64" where
  "slash_penalty stake ratio =
     (let quotient = (ucast stake * ucast ratio) div (ucast FIXED_POINT_SCALE :: u128)
      in if quotient > ucast (- 1 :: u64) then stake
         else let narrow = ucast quotient :: u64
              in if narrow > stake then stake else narrow)"

subsection \<open>Evidence\<close>

datatype proof_provenance = ConsensusVerified | Unverified

datatype slashing_proof =
  ProofDoubleSign (ds_height: u64) (ds_hash_1: string) (ds_hash_2: string) (ds_sig_1: bytes) (ds_sig_2: bytes)
| ProofLiveness (lv_start: u64) (lv_end: u64) (lv_missed: u64) (lv_expected: u64)
| ProofOther (ot_tag: string) (ot_data: bytes)
| ProofInvalidSignatureSpam (sp_epoch: u64) (sp_count: u64) (sp_threshold: u64)

fun proof_condition :: "slashing_proof \<Rightarrow> slashing_condition" where
  "proof_condition (ProofDoubleSign _ _ _ _ _) = DoubleSign"
| "proof_condition (ProofLiveness _ _ _ _) = LivenessFault"
| "proof_condition (ProofOther _ _) = MaliciousBehaviour"
| "proof_condition (ProofInvalidSignatureSpam _ _ _) = MaliciousBehaviour"

record slashing_report =
  sr_offender :: address
  sr_role :: role_id
  sr_proof :: slashing_proof
  sr_provenance :: proof_provenance
  sr_reporter :: "address option"

datatype evidence_error =
  ZeroOffender | NonConflictingHashes | MissingSignature | ImpossibleLivenessWindow | EmptyProofTag
| InsufficientInvalidVoteCount | EvidenceUnverified | MalformedBlockHash | SignatureDoesNotVerify
| WrongRoleForProof | WrongProofForVerification

fun evidence_error_display :: "evidence_error \<Rightarrow> string" where
  "evidence_error_display ZeroOffender = ''offender is the zero address''"
| "evidence_error_display NonConflictingHashes = ''double-sign proof references identical block hashes''"
| "evidence_error_display MissingSignature = ''double-sign proof missing a signature''"
| "evidence_error_display ImpossibleLivenessWindow = ''liveness proof claims more missed than expected''"
| "evidence_error_display EmptyProofTag = ''opaque proof has an empty tag''"
| "evidence_error_display InsufficientInvalidVoteCount = ''invalid-signature-spam proof does not cross its threshold''"
| "evidence_error_display EvidenceUnverified = ''cannot slash on an unverified evidence report''"
| "evidence_error_display MalformedBlockHash = ''block hash is not 32 bytes of hex''"
| "evidence_error_display SignatureDoesNotVerify = ''signature does not verify under the offender's key''"
| "evidence_error_display WrongRoleForProof = ''double-sign proof names a role other than validator''"
| "evidence_error_display WrongProofForVerification = ''proof is not a double-sign proof''"

definition report_new :: "address \<Rightarrow> role_id \<Rightarrow> slashing_proof \<Rightarrow> proof_provenance \<Rightarrow> address option \<Rightarrow> slashing_report" where
  "report_new offender role prf provenance reporter =
     \<lparr> sr_offender = offender, sr_role = role, sr_proof = prf, sr_provenance = provenance, sr_reporter = reporter \<rparr>"

definition consensus_double_sign ::
  "address \<Rightarrow> u64 \<Rightarrow> string \<Rightarrow> string \<Rightarrow> bytes \<Rightarrow> bytes \<Rightarrow> address option \<Rightarrow> slashing_report" where
  "consensus_double_sign offender height hash1 hash2 sig1 sig2 reporter =
     report_new offender VALIDATOR (ProofDoubleSign height hash1 hash2 sig1 sig2) ConsensusVerified reporter"

definition consensus_liveness ::
  "address \<Rightarrow> role_id \<Rightarrow> u64 \<Rightarrow> u64 \<Rightarrow> u64 \<Rightarrow> u64 \<Rightarrow> address option \<Rightarrow> slashing_report" where
  "consensus_liveness offender role start_epoch end_epoch missed expected reporter =
     report_new offender role (ProofLiveness start_epoch end_epoch missed expected) ConsensusVerified reporter"

definition consensus_invalid_signature_spam ::
  "address \<Rightarrow> role_id \<Rightarrow> u64 \<Rightarrow> u64 \<Rightarrow> u64 \<Rightarrow> address option \<Rightarrow> slashing_report" where
  "consensus_invalid_signature_spam offender role epoch count threshold reporter =
     report_new offender role (ProofInvalidSignatureSpam epoch count threshold) ConsensusVerified reporter"

text \<open>\<open>reason.into_bytes()\<close> of a \<open>String\<close> gives its bytes; a reason is therefore a byte list.\<close>

definition consensus_invalid_relay_proof :: "address \<Rightarrow> bytes \<Rightarrow> address option \<Rightarrow> slashing_report" where
  "consensus_invalid_relay_proof offender reason reporter =
     report_new offender RELAYER (ProofOther ''relayer_invalid_proof'' reason) ConsensusVerified reporter"

definition consensus_invalid_relay_griefing :: "address \<Rightarrow> bytes \<Rightarrow> address option \<Rightarrow> slashing_report" where
  "consensus_invalid_relay_griefing offender reason reporter =
     report_new offender RELAYER (ProofOther ''relayer_griefing'' reason) ConsensusVerified reporter"

definition consensus_invalid_relay_front_running :: "address \<Rightarrow> bytes \<Rightarrow> address option \<Rightarrow> slashing_report" where
  "consensus_invalid_relay_front_running offender reason reporter =
     report_new offender RELAYER (ProofOther ''relayer_front_running'' reason) ConsensusVerified reporter"

definition consensus_invalid_relay_wrong_relay :: "address \<Rightarrow> bytes \<Rightarrow> address option \<Rightarrow> slashing_report" where
  "consensus_invalid_relay_wrong_relay offender reason reporter =
     report_new offender RELAYER (ProofOther ''relayer_wrong_relay'' reason) ConsensusVerified reporter"

definition consensus_invalid_attester_proof :: "address \<Rightarrow> bytes \<Rightarrow> address option \<Rightarrow> slashing_report" where
  "consensus_invalid_attester_proof offender reason reporter =
     report_new offender ATTESTER (ProofOther ''attester_invalid_attestation'' reason) ConsensusVerified reporter"

definition consensus_invalid_content_validation :: "address \<Rightarrow> bytes \<Rightarrow> address option \<Rightarrow> slashing_report" where
  "consensus_invalid_content_validation offender reason reporter =
     report_new offender CONTENT_VALIDATOR (ProofOther ''content_validator_malicious'' reason) ConsensusVerified reporter"

definition report_condition :: "slashing_report \<Rightarrow> slashing_condition" where
  "report_condition r = proof_condition (sr_proof r)"

definition zero_address :: address where
  "zero_address = replicate 32 0"

definition validate_shape :: "slashing_report \<Rightarrow> evidence_error + unit" where
  "validate_shape r =
     (if sr_offender r = zero_address then Inl ZeroOffender
      else case sr_proof r of
        ProofDoubleSign _ hash1 hash2 sig1 sig2 \<Rightarrow>
          if hash1 = hash2 then Inl NonConflictingHashes
          else if sig1 = [] \<or> sig2 = [] then Inl MissingSignature
          else Inr ()
      | ProofLiveness _ _ missed expected \<Rightarrow>
          if missed > expected then Inl ImpossibleLivenessWindow else Inr ()
      | ProofOther tag _ \<Rightarrow> if tag = [] then Inl EmptyProofTag else Inr ()
      | ProofInvalidSignatureSpam _ count threshold \<Rightarrow>
          if threshold = 0 \<or> count < threshold then Inl InsufficientInvalidVoteCount else Inr ())"

definition is_actionable :: "slashing_report \<Rightarrow> evidence_error + unit" where
  "is_actionable r =
     (case validate_shape r of
        Inl e \<Rightarrow> Inl e
      | Inr _ \<Rightarrow> (case sr_provenance r of ConsensusVerified \<Rightarrow> Inr () | Unverified \<Rightarrow> Inl EvidenceUnverified))"

subsection \<open>The arithmetic\<close>

lemma unat_u64_ucast: "unat (ucast (a :: u64) :: u128) = unat a"
  by (simp add: unat_ucast_up)

lemma unat_slash_penalty:
  "unat (slash_penalty stake ratio) = min (unat stake) (unat stake * unat ratio div 1000000)"
proof -
  define q where "q = (ucast stake * ucast ratio) div (ucast FIXED_POINT_SCALE :: u128)"
  have q: "unat q = unat stake * unat ratio div 1000000"
    by (simp add: q_def unat_div_distrib unat_mul_ucast unat_u64_ucast FIXED_POINT_SCALE_def)
  have max: "unat (ucast (- 1 :: u64) :: u128) = 2 ^ 64 - 1" by (simp add: unat_u64_ucast unat_max_word)
  show ?thesis
  proof (cases "unat q < 2 ^ 64")
    case True
    then have "\<not> q > ucast (- 1 :: u64)" unfolding word_less_nat_alt max by simp
    moreover have "unat (ucast q :: u64) = unat q"
      using True by (simp add: unsigned_ucast_eq take_bit_nat_eq_self)
    ultimately show ?thesis
      by (simp add: slash_penalty_def q_def [symmetric] Let_def word_less_nat_alt q [symmetric])
  next
    case False
    then have "q > ucast (- 1 :: u64)" unfolding word_less_nat_alt max by simp
    moreover have "unat stake \<le> unat q" using False unat_lt64 [of stake] by linarith
    ultimately show ?thesis by (simp add: slash_penalty_def q_def [symmetric] Let_def q [symmetric])
  qed
qed

lemma slash_penalty_le: "slash_penalty stake ratio \<le> stake"
  by (simp add: word_le_nat_alt unat_slash_penalty)

lemma unat_proportional_fee:
  "unat (proportional_fee amount rate) = min (2 ^ 64 - 1) ((unat amount * unat rate + 999999) div 1000000)"
proof (cases "rate = 0 \<or> amount = 0")
  case True
  then show ?thesis by (auto simp: proportional_fee_def)
next
  case False
  define s where "s = sat_mul (ucast amount) (ucast rate :: u128)"
  have prod: "unat amount * unat rate < 2 ^ 64 * 2 ^ 64"
    using unat_lt64 [of amount] unat_lt64 [of rate] by (intro mult_strict_mono) auto
  then have s: "unat s = unat amount * unat rate" by (simp add: s_def unat_sat_mul unat_u64_ucast)
  have ppm: "unat (ucast PPM_DENOMINATOR :: u128) = 1000000" by (simp add: unat_u64_ucast PPM_DENOMINATOR_def)
  have "unat s div 1000000 + 1 < 2 ^ 128" using prod s by simp
  then have "unat (div_ceil s (ucast PPM_DENOMINATOR)) = (unat s + 999999) div 1000000"
    using div_ceil_nat [of 1000000 "unat s"]
    by (simp add: div_ceil_def word_less_nat_alt unat_mod_distrib unat_div_distrib ppm unat_word_ariths)
  then show ?thesis
    using False by (simp add: proportional_fee_def s_def [symmetric] s narrow_or_max_def Let_def unat_max_word
        unsigned_ucast_eq take_bit_nat_eq_self min_def)
qed

lemma params_default_valid: "params_validate params_default = Inr ()"
  by (simp add: params_validate_def params_default_def UNBONDING_EPOCHS_def FIXED_POINT_SCALE_def PPM_DENOMINATOR_def)

lemma params_validate_ratio:
  "params_validate p = Inr () \<Longrightarrow> slash_ratio p c \<le> FIXED_POINT_SCALE"
  by (cases c) (auto simp: params_validate_def split: if_splits)

lemma is_actionable_iff:
  "is_actionable r = Inr () \<longleftrightarrow> sr_provenance r = ConsensusVerified \<and> validate_shape r = Inr ()"
  by (auto simp: is_actionable_def split: sum.splits proof_provenance.splits)

end
