(* ===== verification/Registry.thy ===== *)
theory Registry
  imports Registry_Params BTree_Map
begin

text \<open>
  \<^verbatim>\<open>src/registry/permissionless.rs\<close>: the stake-based registry of validators, relayers
  and the other roles. Registrations are keyed by role and account; slashing, unbonding
  and withdrawal are modelled on every branch, and the slashing history keeps its newest
  records. The printed forms of the registry's errors are not modelled, and neither is
  the log line for a report that was refused.
\<close>

definition MIN_REGISTRATION_STAKE :: u64 where
  "MIN_REGISTRATION_STAKE = 1000"

definition MAX_SLASHING_HISTORY :: nat where
  "MAX_SLASHING_HISTORY = 4096"

datatype member_status = Active | Unbonding (release_epoch: u64) | Slashed

record registration =
  rg_account :: address
  rg_role :: role_id
  rg_stake :: u64
  rg_status :: member_status
  rg_registered_epoch :: u64

fun status_bonded :: "member_status \<Rightarrow> bool" where
  "status_bonded Active = True"
| "status_bonded (Unbonding _) = True"
| "status_bonded Slashed = False"

definition registration_is_active :: "registration \<Rightarrow> bool" where
  "registration_is_active r = (rg_status r = Active \<and> rg_stake r > 0)"

definition registration_is_slashable :: "registration \<Rightarrow> bool" where
  "registration_is_slashable r = (status_bonded (rg_status r) \<and> rg_stake r > 0)"

datatype registry_error =
  InsufficientStake u64 u64
| AlreadyRegistered address role_id
| NotRegistered address role_id
| NotActive address role_id
| StillUnbonding u64 u64
| RelayerNotActive address
| AlreadySlashed address role_id

record slash_outcome =
  so_condition :: slashing_condition
  so_penalty :: u64
  so_remaining_stake :: u64

record slashing_record =
  sl_report :: slashing_report
  sl_penalty :: u64
  sl_remaining_stake :: u64

record registry =
  reg_registrations :: "(role_id \<times> address, registration) btree_map"
  reg_params :: registry_params
  reg_slashing_history :: "slashing_record list"

definition registry_with_params :: "registry_params \<Rightarrow> registry" where
  "registry_with_params p =
     \<lparr> reg_registrations = bt_empty, reg_params = p, reg_slashing_history = [] \<rparr>"

definition registry_new :: registry where
  "registry_new = registry_with_params params_default"

definition set_params :: "registry_params \<Rightarrow> registry \<Rightarrow> registry" where
  "set_params p r = r\<lparr> reg_params := p \<rparr>"

definition put_registration :: "role_id \<times> address \<Rightarrow> registration \<Rightarrow> registry \<Rightarrow> registry" where
  "put_registration k x r = r\<lparr> reg_registrations := bt_insert k x (reg_registrations r) \<rparr>"

definition registry_register ::
  "address \<Rightarrow> role_id \<Rightarrow> u64 \<Rightarrow> u64 \<Rightarrow> registry \<Rightarrow> (registry_error, unit, registry) outcome" where
  "registry_register account role stake current_epoch r =
     (if stake < min_stake (reg_params r)
      then (Inl (InsufficientStake (min_stake (reg_params r)) stake), r)
      else if bt_contains (reg_registrations r) (role, account)
      then (Inl (AlreadyRegistered account role), r)
      else (Inr (), put_registration (role, account)
             \<lparr> rg_account = account, rg_role = role, rg_stake = stake, rg_status = Active,
               rg_registered_epoch = current_epoch \<rparr> r))"

definition register_validator where
  "register_validator account = registry_register account VALIDATOR"
definition register_verifier where
  "register_verifier account = registry_register account VERIFIER"
definition register_master_verifier where
  "register_master_verifier account = registry_register account MASTER_VERIFIER"
definition register_relayer where
  "register_relayer account = registry_register account RELAYER"
definition register_storage_operator where
  "register_storage_operator account = registry_register account STORAGE_OPERATOR"
definition register_ai_verifier where
  "register_ai_verifier account = registry_register account AI_VERIFIER"
definition register_attester where
  "register_attester account = registry_register account ATTESTER"
definition register_ai_operator where
  "register_ai_operator account = registry_register account AI_OPERATOR"
definition register_content_validator where
  "register_content_validator account = registry_register account CONTENT_VALIDATOR"

definition upsert_stake :: "address \<Rightarrow> role_id \<Rightarrow> u64 \<Rightarrow> u64 \<Rightarrow> registry \<Rightarrow> registry" where
  "upsert_stake account role total_stake current_epoch r =
     (case bt_get (reg_registrations r) (role, account) of
        Some reg \<Rightarrow>
          if rg_status reg = Slashed then put_registration (role, account) (reg\<lparr> rg_stake := total_stake \<rparr>) r
          else if total_stake = 0 then r\<lparr> reg_registrations := bt_remove (role, account) (reg_registrations r) \<rparr>
          else put_registration (role, account) (reg\<lparr> rg_stake := total_stake \<rparr>) r
      | None \<Rightarrow>
          if total_stake \<ge> min_stake (reg_params r)
          then put_registration (role, account)
                 \<lparr> rg_account = account, rg_role = role, rg_stake = total_stake, rg_status = Active,
                   rg_registered_epoch = current_epoch \<rparr> r
          else r)"

definition add_stake :: "address \<Rightarrow> role_id \<Rightarrow> u64 \<Rightarrow> registry \<Rightarrow> (registry_error, u64, registry) outcome" where
  "add_stake account role amount r =
     (case bt_get (reg_registrations r) (role, account) of
        None \<Rightarrow> (Inl (NotRegistered account role), r)
      | Some reg \<Rightarrow>
          (let stake = sat_add (rg_stake reg) amount
           in (Inr stake, put_registration (role, account) (reg\<lparr> rg_stake := stake \<rparr>) r)))"

definition begin_unbonding_with_delay ::
  "address \<Rightarrow> role_id \<Rightarrow> u64 \<Rightarrow> u64 \<Rightarrow> registry \<Rightarrow> (registry_error, u64, registry) outcome" where
  "begin_unbonding_with_delay account role current_epoch delay r =
     (case bt_get (reg_registrations r) (role, account) of
        None \<Rightarrow> (Inl (NotRegistered account role), r)
      | Some reg \<Rightarrow>
          if rg_status reg \<noteq> Active then (Inl (NotActive account role), r)
          else let release = sat_add current_epoch delay
               in (Inr release, put_registration (role, account) (reg\<lparr> rg_status := Unbonding release \<rparr>) r))"

definition begin_unbonding ::
  "address \<Rightarrow> role_id \<Rightarrow> u64 \<Rightarrow> registry \<Rightarrow> (registry_error, u64, registry) outcome" where
  "begin_unbonding account role current_epoch r =
     begin_unbonding_with_delay account role current_epoch (unbonding_epochs (reg_params r)) r"

definition registry_withdraw ::
  "address \<Rightarrow> role_id \<Rightarrow> u64 \<Rightarrow> registry \<Rightarrow> (registry_error, u64, registry) outcome" where
  "registry_withdraw account role current_epoch r =
     (case bt_get (reg_registrations r) (role, account) of
        None \<Rightarrow> (Inl (NotRegistered account role), r)
      | Some reg \<Rightarrow>
          (case rg_status reg of
             Unbonding release \<Rightarrow>
               if current_epoch < release then (Inl (StillUnbonding release current_epoch), r)
               else (Inr (rg_stake reg), r\<lparr> reg_registrations := bt_remove (role, account) (reg_registrations r) \<rparr>)
           | _ \<Rightarrow> (Inl (NotActive account role), r)))"

text \<open>What both slashing paths do to a row: cut the penalty, mark the row slashed.\<close>

definition slash_row :: "u64 \<Rightarrow> registration \<Rightarrow> registration" where
  "slash_row ratio reg =
     reg\<lparr> rg_stake := sat_sub (rg_stake reg) (slash_penalty (rg_stake reg) ratio), rg_status := Slashed \<rparr>"

definition slash_role_only ::
  "address \<Rightarrow> role_id \<Rightarrow> slashing_condition \<Rightarrow> u64 \<Rightarrow> registry \<Rightarrow> (registry_error, slash_outcome, registry) outcome" where
  "slash_role_only account role condition ratio r =
     (case bt_get (reg_registrations r) (role, account) of
        None \<Rightarrow> (Inl (NotRegistered account role), r)
      | Some reg \<Rightarrow>
          if rg_status reg = Slashed then (Inl (AlreadySlashed account role), r)
          else (Inr \<lparr> so_condition = condition, so_penalty = slash_penalty (rg_stake reg) ratio,
                      so_remaining_stake = rg_stake (slash_row ratio reg) \<rparr>,
                put_registration (role, account) (slash_row ratio reg) r))"

definition slash_other_role :: "address \<Rightarrow> u64 \<Rightarrow> role_id \<Rightarrow> registry \<Rightarrow> registry" where
  "slash_other_role account ratio role r =
     (case bt_get (reg_registrations r) (role, account) of
        None \<Rightarrow> r
      | Some reg \<Rightarrow>
          if rg_status reg = Slashed then r
          else put_registration (role, account) (slash_row ratio reg) r)"

definition slash_cross_role ::
  "address \<Rightarrow> role_id \<Rightarrow> slashing_condition \<Rightarrow> u64 \<Rightarrow> registry \<Rightarrow> registry" where
  "slash_cross_role account primary_role _ ratio r =
     (let other_keys = [role. (role, addr) \<leftarrow> bt_keys (reg_registrations r), addr = account \<and> role \<noteq> primary_role]
      in fold (slash_other_role account ratio) other_keys r)"

definition registry_slash ::
  "address \<Rightarrow> role_id \<Rightarrow> slashing_condition \<Rightarrow> u64 \<Rightarrow> registry \<Rightarrow> (registry_error, slash_outcome, registry) outcome" where
  "registry_slash account role condition ratio r =
     (case slash_role_only account role condition ratio r of
        (Inl e, r) \<Rightarrow> (Inl e, r)
      | (Inr out, r) \<Rightarrow> (Inr out, slash_cross_role account role condition ratio r))"

definition record_slash :: "slashing_record \<Rightarrow> registry \<Rightarrow> registry" where
  "record_slash rec r =
     (let history = reg_slashing_history r @ [rec]
      in r\<lparr> reg_slashing_history :=
            (if length history > MAX_SLASHING_HISTORY
             then drop (length history - MAX_SLASHING_HISTORY) history else history) \<rparr>)"

definition slash_from_report ::
  "slashing_report \<Rightarrow> registry \<Rightarrow> (evidence_error, slash_outcome option, registry) outcome" where
  "slash_from_report report r =
     (case is_actionable report of
        Inl e \<Rightarrow> (Inl e, r)
      | Inr _ \<Rightarrow>
          (let condition = report_condition report;
               ratio = slash_ratio (reg_params r) condition
           in case registry_slash (sr_offender report) (sr_role report) condition ratio r of
                (Inr out, r) \<Rightarrow>
                  (Inr (Some out),
                   record_slash \<lparr> sl_report = report, sl_penalty = so_penalty out,
                                  sl_remaining_stake = so_remaining_stake out \<rparr> r)
              | (Inl (NotRegistered _ _), r) \<Rightarrow> (Inr None, r)
              | (Inl _, r) \<Rightarrow> (Inr None, r)))"

definition slashing_history_for :: "registry \<Rightarrow> address \<Rightarrow> slashing_record list" where
  "slashing_history_for r offender = filter (\<lambda>x. sr_offender (sl_report x) = offender) (reg_slashing_history r)"

definition registry_get :: "registry \<Rightarrow> address \<Rightarrow> role_id \<Rightarrow> registration option" where
  "registry_get r account role = bt_get (reg_registrations r) (role, account)"

text \<open>\<open>get(..).is_some_and(f)\<close>\<close>

definition some_and :: "('a \<Rightarrow> bool) \<Rightarrow> 'a option \<Rightarrow> bool" where
  "some_and f x = (case x of Some a \<Rightarrow> f a | None \<Rightarrow> False)"

definition registry_is_active :: "registry \<Rightarrow> address \<Rightarrow> role_id \<Rightarrow> bool" where
  "registry_is_active r account role = some_and registration_is_active (registry_get r account role)"

definition active_members :: "registry \<Rightarrow> role_id \<Rightarrow> registration list" where
  "active_members r role =
     filter (\<lambda>x. rg_role x = role \<and> registration_is_active x) (bt_values (reg_registrations r))"

definition is_active_relayer :: "registry \<Rightarrow> address \<Rightarrow> bool" where
  "is_active_relayer r account = some_and registration_is_slashable (registry_get r account RELAYER)"

definition ensure_active_relayer :: "registry \<Rightarrow> address \<Rightarrow> registry_error + unit" where
  "ensure_active_relayer r account =
     (if is_active_relayer r account then Inr () else Inl (RelayerNotActive account))"

definition is_active_attester :: "registry \<Rightarrow> address \<Rightarrow> bool" where
  "is_active_attester r account = some_and registration_is_slashable (registry_get r account ATTESTER)"

definition ensure_active_attester :: "registry \<Rightarrow> address \<Rightarrow> registry_error + unit" where
  "ensure_active_attester r account =
     (if is_active_attester r account then Inr () else Inl (NotActive account ATTESTER))"

definition is_active_master_verifier :: "registry \<Rightarrow> address \<Rightarrow> bool" where
  "is_active_master_verifier r account = registry_is_active r account MASTER_VERIFIER"

definition is_active_ai_operator :: "registry \<Rightarrow> address \<Rightarrow> bool" where
  "is_active_ai_operator r account = some_and registration_is_slashable (registry_get r account AI_OPERATOR)"

definition is_active_content_validator :: "registry \<Rightarrow> address \<Rightarrow> bool" where
  "is_active_content_validator r account =
     some_and registration_is_slashable (registry_get r account CONTENT_VALIDATOR)"

definition is_active_ai_verifier :: "registry \<Rightarrow> address \<Rightarrow> bool" where
  "is_active_ai_verifier r account =
     (case registry_get r account AI_VERIFIER of
        Some reg \<Rightarrow> status_bonded (rg_status reg) \<and> rg_stake reg > 0
      | None \<Rightarrow> False)"

definition is_active_prover :: "registry \<Rightarrow> address \<Rightarrow> bool" where
  "is_active_prover r account =
     (case registry_get r account PROVER of
        Some reg \<Rightarrow> status_bonded (rg_status reg) \<and> rg_stake reg > 0
      | None \<Rightarrow> False)"

definition total_stake :: "registry \<Rightarrow> role_id \<Rightarrow> u64" where
  "total_stake r role = fold (\<lambda>x total. sat_add total (rg_stake x)) (active_members r role) 0"

definition total_bonded_stake_excluding :: "registry \<Rightarrow> role_id \<Rightarrow> u128" where
  "total_bonded_stake_excluding r excluded_role =
     fold (\<lambda>x total. sat_add total (ucast (rg_stake x)))
       (filter (\<lambda>x. rg_role x \<noteq> excluded_role) (bt_values (reg_registrations r))) 0"

definition registry_len :: "registry \<Rightarrow> nat" where
  "registry_len r = bt_len (reg_registrations r)"

definition registry_is_empty :: "registry \<Rightarrow> bool" where
  "registry_is_empty r = (bt_len (reg_registrations r) = 0)"

definition has_non_default_state :: "registry \<Rightarrow> bool" where
  "has_non_default_state r =
     (bt_len (reg_registrations r) \<noteq> 0 \<or> reg_slashing_history r \<noteq> [] \<or> reg_params r \<noteq> params_default)"

text \<open>
  The root hashes the \<open>bincode\<close> forms one after the other. The serializers are parameters;
  \<open>None\<close> is a serialization failure.
\<close>

definition REGISTRY_SERIALIZE_FAILED :: bytes where
  "REGISTRY_SERIALIZE_FAILED = ascii ''budlum/serialize-failed/permissionless-registry''"

definition ser_or_failed :: "('a \<Rightarrow> bytes option) \<Rightarrow> 'a \<Rightarrow> bytes" where
  "ser_or_failed ser x = (case ser x of Some b \<Rightarrow> b | None \<Rightarrow> REGISTRY_SERIALIZE_FAILED)"

definition registry_root ::
  "hasher \<Rightarrow> (registry_params \<Rightarrow> bytes option) \<Rightarrow> (registration \<Rightarrow> bytes option)
   \<Rightarrow> (slashing_record \<Rightarrow> bytes option) \<Rightarrow> registry \<Rightarrow> hash32" where
  "registry_root H ser_params ser_reg ser_rec r =
     H (ascii ''BDLM_PERMISSIONLESS_REGISTRY_V1'' @ ser_or_failed ser_params (reg_params r)
        @ concat (map (ser_or_failed ser_reg) (bt_values (reg_registrations r)))
        @ concat (map (ser_or_failed ser_rec) (reg_slashing_history r)))"

definition registrations_as_seq :: "registry \<Rightarrow> registration list" where
  "registrations_as_seq r = bt_values (reg_registrations r)"

text \<open>\<open>registrations_as_seq::deserialize\<close>: the map is rebuilt from the rows of the sequence.\<close>

definition registrations_from_seq :: "registration list \<Rightarrow> (role_id \<times> address, registration) btree_map" where
  "registrations_from_seq rows = fold (\<lambda>x. bt_insert (rg_role x, rg_account x) x) rows bt_empty"

subsection \<open>Runs of the registry\<close>

datatype registry_op =
  OpRegister address role_id u64 u64
| OpUpsertStake address role_id u64 u64
| OpAddStake address role_id u64
| OpBeginUnbonding address role_id u64
| OpBeginUnbondingWithDelay address role_id u64 u64
| OpWithdraw address role_id u64
| OpSlash address role_id slashing_condition u64
| OpSlashRoleOnly address role_id slashing_condition u64
| OpSlashFromReport slashing_report
| OpSetParams registry_params

fun registry_apply :: "registry_op \<Rightarrow> registry \<Rightarrow> registry" where
  "registry_apply (OpRegister a ro st e) r = snd (registry_register a ro st e r)"
| "registry_apply (OpUpsertStake a ro st e) r = upsert_stake a ro st e r"
| "registry_apply (OpAddStake a ro n) r = snd (add_stake a ro n r)"
| "registry_apply (OpBeginUnbonding a ro e) r = snd (begin_unbonding a ro e r)"
| "registry_apply (OpBeginUnbondingWithDelay a ro e d) r = snd (begin_unbonding_with_delay a ro e d r)"
| "registry_apply (OpWithdraw a ro e) r = snd (registry_withdraw a ro e r)"
| "registry_apply (OpSlash a ro c q) r = snd (registry_slash a ro c q r)"
| "registry_apply (OpSlashRoleOnly a ro c q) r = snd (slash_role_only a ro c q r)"
| "registry_apply (OpSlashFromReport rep) r = snd (slash_from_report rep r)"
| "registry_apply (OpSetParams p) r = set_params p r"

definition registry_run :: "registry_op list \<Rightarrow> registry \<Rightarrow> registry" where
  "registry_run ops r = fold registry_apply ops r"

inductive registry_step :: "registry \<Rightarrow> registry \<Rightarrow> bool" where
  step: "registry_step r (registry_apply oper r)"

inductive_cases registry_stepE: "registry_step r t"

definition registry_init :: "registry \<Rightarrow> bool" where
  "registry_init r = (reg_registrations r = bt_empty \<and> reg_slashing_history r = [])"

subsection \<open>What slashing does to the rows\<close>

lemma put_registration_simps [simp]:
  "reg_registrations (put_registration k x r) = bt_insert k x (reg_registrations r)"
  "reg_params (put_registration k x r) = reg_params r"
  "reg_slashing_history (put_registration k x r) = reg_slashing_history r"
  by (simp_all add: put_registration_def)

lemma slash_row_simps [simp]:
  "rg_status (slash_row q x) = Slashed" "rg_account (slash_row q x) = rg_account x"
  "rg_role (slash_row q x) = rg_role x" "rg_registered_epoch (slash_row q x) = rg_registered_epoch x"
  by (simp_all add: slash_row_def)

lemma unat_slash_row:
  "unat (rg_stake (slash_row q x)) = unat (rg_stake x) - unat (slash_penalty (rg_stake x) q)"
  by (simp add: slash_row_def unat_sat_sub)

text \<open>The row a slash leaves behind: slashed once, and only once.\<close>

definition after_slash :: "u64 \<Rightarrow> registration \<Rightarrow> registration" where
  "after_slash q x = (if rg_status x = Slashed then x else slash_row q x)"

lemma after_slash_idem [simp]: "after_slash q (after_slash q x) = after_slash q x"
  by (simp add: after_slash_def)

lemma slash_other_role_get:
  "bt_get (reg_registrations (slash_other_role a q ro r)) k =
     (if k = (ro, a) then map_option (after_slash q) (bt_get (reg_registrations r) k)
      else bt_get (reg_registrations r) k)"
  by (auto simp: slash_other_role_def after_slash_def split: option.splits)

lemma slash_other_role_frame [simp]:
  "reg_params (slash_other_role a q ro r) = reg_params r"
  "reg_slashing_history (slash_other_role a q ro r) = reg_slashing_history r"
  by (auto simp: slash_other_role_def split: option.splits)

lemma fold_slash_get:
  "bt_get (reg_registrations (fold (slash_other_role a q) ros r)) k =
     (if snd k = a \<and> fst k \<in> set ros then map_option (after_slash q) (bt_get (reg_registrations r) k)
      else bt_get (reg_registrations r) k)"
proof (induction ros arbitrary: r)
  case (Cons ro ros)
  show ?case
    by (auto simp: Cons slash_other_role_get option.map_comp comp_def prod_eq_iff)
qed simp

lemma fold_slash_frame [simp]:
  "reg_params (fold (slash_other_role a q) ros r) = reg_params r"
  "reg_slashing_history (fold (slash_other_role a q) ros r) = reg_slashing_history r"
  by (induction ros arbitrary: r) simp_all

lemma slash_cross_role_frame [simp]:
  "reg_params (slash_cross_role a ro c q r) = reg_params r"
  "reg_slashing_history (slash_cross_role a ro c q r) = reg_slashing_history r"
  by (simp_all add: slash_cross_role_def)

lemma slash_cross_role_get:
  "bt_get (reg_registrations (slash_cross_role a ro c q r)) k =
     (if snd k = a \<and> fst k \<noteq> ro then map_option (after_slash q) (bt_get (reg_registrations r) k)
      else bt_get (reg_registrations r) k)"
proof -
  have others: "ro' \<in> set [role. (role, addr) \<leftarrow> bt_keys (reg_registrations r), addr = a \<and> role \<noteq> ro]
      \<longleftrightarrow> bt_get (reg_registrations r) (ro', a) \<noteq> None \<and> ro' \<noteq> ro" for ro'
    unfolding in_bt_keys_iff [symmetric]
    by (auto split: if_splits prod.splits intro!: bexI [of _ "(ro', a)"])
  show ?thesis
    by (cases k) (auto simp: slash_cross_role_def Let_def fold_slash_get others simp del: set_concat)
qed

lemma slash_role_only_Inr:
  "slash_role_only a ro c q r = (Inr out, r') \<longleftrightarrow>
     (\<exists>x. bt_get (reg_registrations r) (ro, a) = Some x \<and> rg_status x \<noteq> Slashed
        \<and> out = \<lparr> so_condition = c, so_penalty = slash_penalty (rg_stake x) q,
                  so_remaining_stake = rg_stake (slash_row q x) \<rparr>
        \<and> r' = put_registration (ro, a) (slash_row q x) r)"
  by (auto simp: slash_role_only_def split: option.splits)

lemma slash_role_only_Inl: "slash_role_only a ro c q r = (Inl e, r') \<Longrightarrow> r' = r"
  by (auto simp: slash_role_only_def split: option.splits if_splits)

lemma registry_slash_Inl: "registry_slash a ro c q r = (Inl e, r') \<Longrightarrow> r' = r"
  by (auto simp: registry_slash_def dest: slash_role_only_Inl split: prod.splits sum.splits)

lemma registry_slash_InrE:
  assumes "registry_slash a ro c q r = (Inr out, r')"
  obtains x where "bt_get (reg_registrations r) (ro, a) = Some x" "rg_status x \<noteq> Slashed"
    "out = \<lparr> so_condition = c, so_penalty = slash_penalty (rg_stake x) q,
             so_remaining_stake = rg_stake (slash_row q x) \<rparr>"
    "r' = slash_cross_role a ro c q (put_registration (ro, a) (slash_row q x) r)"
  using assms by (auto simp: registry_slash_def slash_role_only_Inr split: prod.splits sum.splits)

lemma registry_slash_get:
  assumes "registry_slash a ro c q r = (Inr out, r')"
  shows "bt_get (reg_registrations r') k =
     (if snd k = a then map_option (after_slash q) (bt_get (reg_registrations r) k)
      else bt_get (reg_registrations r) k)"
  using assms
  by (cases k) (auto elim!: registry_slash_InrE simp: slash_cross_role_get after_slash_def)

lemma registry_slash_frame:
  assumes "registry_slash a ro c q r = (res, r')"
  shows "reg_params r' = reg_params r" "reg_slashing_history r' = reg_slashing_history r"
  using assms by (cases res; auto dest: registry_slash_Inl elim!: registry_slash_InrE)+

end
