(* ===== verification/Registry_Inv.thy ===== *)
theory Registry_Inv
  imports Registry
begin

text \<open>
  The invariant of the permissionless registry over every sequence of its operations:
  a row is filed under its own role and account, a slashed row stays, and the slashing
  history holds at most one record of a role and account, each for an actionable report
  against a row that is slashed.
\<close>

subsection \<open>A slashed row stays slashed\<close>

definition row_slashed :: "registry \<Rightarrow> role_id \<times> address \<Rightarrow> bool" where
  "row_slashed r k = some_and (\<lambda>x. rg_status x = Slashed) (bt_get (reg_registrations r) k)"

lemma row_slashed_iff:
  "row_slashed r k \<longleftrightarrow> (\<exists>x. bt_get (reg_registrations r) k = Some x \<and> rg_status x = Slashed)"
  by (auto simp: row_slashed_def some_and_def split: option.splits)

lemma row_slashed_history [simp]:
  "row_slashed (r\<lparr> reg_slashing_history := h \<rparr>) k = row_slashed r k"
  by (simp add: row_slashed_def)

lemma record_slash_simps [simp]:
  "reg_registrations (record_slash e r) = reg_registrations r"
  "reg_params (record_slash e r) = reg_params r"
  "row_slashed (record_slash e r) k = row_slashed r k"
  by (simp_all add: record_slash_def Let_def row_slashed_def)

lemma slash_keeps_slashed: "row_slashed r k \<Longrightarrow> row_slashed (snd (registry_slash a ro c q r)) k"
proof (cases "registry_slash a ro c q r")
  case (Pair res r')
  assume k: "row_slashed r k"
  show ?thesis
  proof (cases res)
    case (Inl e)
    with Pair k show ?thesis by (auto dest: registry_slash_Inl)
  next
    case (Inr out)
    with Pair k show ?thesis by (auto simp: row_slashed_iff registry_slash_get after_slash_def)
  qed
qed

text \<open>\<open>slash_from_report\<close> either leaves the registry alone or slashes and files one record.\<close>

lemma slash_from_report_cases:
  obtains (same) "snd (slash_from_report rep r) = r"
  | (slashed) out r' where
      "is_actionable rep = Inr ()"
      "registry_slash (sr_offender rep) (sr_role rep) (report_condition rep)
         (slash_ratio (reg_params r) (report_condition rep)) r = (Inr out, r')"
      "slash_from_report rep r =
         (Inr (Some out), record_slash \<lparr> sl_report = rep, sl_penalty = so_penalty out,
                                         sl_remaining_stake = so_remaining_stake out \<rparr> r')"
proof (cases "is_actionable rep")
  case (Inl e)
  then show ?thesis using same by (simp add: slash_from_report_def)
next
  case (Inr u)
  obtain res r' where s: "registry_slash (sr_offender rep) (sr_role rep) (report_condition rep)
      (slash_ratio (reg_params r) (report_condition rep)) r = (res, r')" by (cases "registry_slash (sr_offender rep)
      (sr_role rep) (report_condition rep) (slash_ratio (reg_params r) (report_condition rep)) r")
  show ?thesis
  proof (cases res)
    case (Inl e)
    with s have "r' = r" by (auto dest: registry_slash_Inl)
    with Inl Inr s show ?thesis
      using same by (auto simp: slash_from_report_def Let_def split: registry_error.splits)
  next
    case (Inr out)
    with s \<open>is_actionable rep = Inr u\<close> show ?thesis
      using slashed by (simp add: slash_from_report_def Let_def)
  qed
qed

lemma apply_keeps_slashed: "row_slashed r k \<Longrightarrow> row_slashed (registry_apply oper r) k"
proof (cases oper)
  case (OpSlashFromReport rep)
  assume k: "row_slashed r k"
  show ?thesis
  proof (cases rule: slash_from_report_cases [of rep r])
    case same
    with OpSlashFromReport k show ?thesis by simp
  next
    case (slashed out r')
    then have "row_slashed r' k" using slash_keeps_slashed [OF k] by (metis snd_conv)
    with slashed OpSlashFromReport show ?thesis by simp
  qed
qed (auto simp: row_slashed_iff registry_register_def upsert_stake_def add_stake_def begin_unbonding_def
      begin_unbonding_with_delay_def registry_withdraw_def slash_role_only_def set_params_def bt_contains_def
      Let_def slash_keeps_slashed [unfolded row_slashed_iff] split: option.splits member_status.splits)

lemma run_keeps_slashed: "row_slashed r k \<Longrightarrow> row_slashed (registry_run ops r) k"
  by (induction ops arbitrary: r) (simp_all add: registry_run_def apply_keeps_slashed)

subsection \<open>The invariant\<close>

definition rows_filed :: "registry \<Rightarrow> bool" where
  "rows_filed r = (\<forall>(k, x) \<in> set (bt_entries (reg_registrations r)). k = (rg_role x, rg_account x))"

definition record_key :: "slashing_record \<Rightarrow> role_id \<times> address" where
  "record_key e = (sr_role (sl_report e), sr_offender (sl_report e))"

definition history_sound :: "registry \<Rightarrow> bool" where
  "history_sound r \<longleftrightarrow>
     length (reg_slashing_history r) \<le> MAX_SLASHING_HISTORY
     \<and> distinct (map record_key (reg_slashing_history r))
     \<and> (\<forall>e \<in> set (reg_slashing_history r). is_actionable (sl_report e) = Inr () \<and> row_slashed r (record_key e))"

definition registry_inv :: "registry \<Rightarrow> bool" where
  "registry_inv r \<longleftrightarrow> rows_filed r \<and> history_sound r"

lemma rows_filed_iff:
  "rows_filed r \<longleftrightarrow> (\<forall>k x. bt_get (reg_registrations r) k = Some x \<longrightarrow> k = (rg_role x, rg_account x))"
  by (auto simp: rows_filed_def bt.in_entries_iff [symmetric])

lemma slash_keeps_filed: "rows_filed r \<Longrightarrow> rows_filed (snd (registry_slash a ro c q r))"
proof (cases "registry_slash a ro c q r")
  case (Pair res r')
  assume "rows_filed r"
  with Pair show ?thesis
    by (cases res)
      (auto dest: registry_slash_Inl simp: rows_filed_iff registry_slash_get after_slash_def split: if_splits)
qed

lemma apply_keeps_filed: "rows_filed r \<Longrightarrow> rows_filed (registry_apply oper r)"
proof (cases oper)
  case (OpSlashFromReport rep)
  assume f: "rows_filed r"
  show ?thesis
  proof (cases rule: slash_from_report_cases [of rep r])
    case same
    with OpSlashFromReport f show ?thesis by simp
  next
    case (slashed out r')
    then have "rows_filed r'" using slash_keeps_filed [OF f] by (metis snd_conv)
    with slashed OpSlashFromReport show ?thesis by (simp add: rows_filed_def)
  qed
qed (auto simp: rows_filed_iff registry_register_def upsert_stake_def add_stake_def begin_unbonding_def
      begin_unbonding_with_delay_def registry_withdraw_def slash_role_only_def set_params_def
      Let_def slash_keeps_filed [unfolded rows_filed_iff] split: option.splits member_status.splits if_splits)

text \<open>Only an acted-on report writes the history.\<close>

lemma apply_history:
  "(\<nexists>rep. oper = OpSlashFromReport rep) \<Longrightarrow> reg_slashing_history (registry_apply oper r) = reg_slashing_history r"
  by (cases oper)
    (auto simp: registry_register_def upsert_stake_def add_stake_def begin_unbonding_def
      begin_unbonding_with_delay_def registry_withdraw_def slash_role_only_def set_params_def
      Let_def registry_slash_frame [OF prod.collapse [symmetric]] split: option.splits member_status.splits)

lemma history_sound_record:
  assumes "history_sound r" "is_actionable (sl_report e) = Inr ()" "row_slashed r (record_key e)"
    and "record_key e \<notin> record_key ` set (reg_slashing_history r)"
  shows "history_sound (record_slash e r)"
proof -
  define h where "h = reg_slashing_history r @ [e]"
  have all: "distinct (map record_key h)"
    "\<forall>x \<in> set h. is_actionable (sl_report x) = Inr () \<and> row_slashed r (record_key x)"
    using assms by (auto simp: h_def history_sound_def)
  have "distinct (map record_key (drop n h))" for n using all(1) by (simp add: drop_map [symmetric])
  then show ?thesis
    using all by (auto simp: history_sound_def record_slash_def Let_def h_def [symmetric] dest: in_set_dropD)
qed

lemma apply_keeps_history: "history_sound r \<Longrightarrow> history_sound (registry_apply oper r)"
proof -
  assume h: "history_sound r"
  show ?thesis
  proof (cases "\<exists>rep. oper = OpSlashFromReport rep")
    case False
    with h show ?thesis by (auto simp: history_sound_def apply_history apply_keeps_slashed)
  next
    case True
    then obtain rep where rep: "oper = OpSlashFromReport rep" by blast
    show ?thesis
    proof (cases rule: slash_from_report_cases [of rep r])
      case same
      with rep h show ?thesis by simp
    next
      case (slashed out r')
      let ?k = "(sr_role rep, sr_offender rep)"
      from slashed(2) have fresh: "\<not> row_slashed r ?k" and now: "row_slashed r' ?k"
        by (auto elim!: registry_slash_InrE simp: row_slashed_iff slash_cross_role_get)
      have kept: "row_slashed r k \<Longrightarrow> row_slashed r' k" for k
        using slash_keeps_slashed slashed(2) by (metis snd_conv)
      have same: "reg_slashing_history r' = reg_slashing_history r"
        using registry_slash_frame(2) [OF slashed(2)] .
      then have "history_sound r'" using h kept by (auto simp: history_sound_def)
      moreover have "?k \<notin> record_key ` set (reg_slashing_history r')"
        using h fresh by (auto simp: history_sound_def same)
      ultimately show ?thesis
        using slashed rep now by (auto intro!: history_sound_record simp: record_key_def)
    qed
  qed
qed

interpretation registry_safe: inductive_invariant registry_init registry_step registry_inv
proof unfold_locales
  fix r t
  show "registry_init r \<Longrightarrow> registry_inv r"
    by (auto simp: registry_init_def registry_inv_def rows_filed_def history_sound_def)
  show "registry_inv r \<Longrightarrow> registry_step r t \<Longrightarrow> registry_inv t"
    by (auto elim!: registry_stepE simp: registry_inv_def apply_keeps_filed apply_keeps_history)
qed

lemma run_steps: "registry_step\<^sup>*\<^sup>* r (registry_run ops r)"
proof (induction ops arbitrary: r)
  case (Cons oper ops)
  have "registry_step\<^sup>*\<^sup>* r (registry_run ops (registry_apply oper r))"
    using converse_rtranclp_into_rtranclp [of registry_step, OF registry_step.step Cons] .
  then show ?case by (simp add: registry_run_def)
qed (simp add: registry_run_def)

lemma init_with_params: "registry_init (registry_with_params p)"
  by (simp add: registry_init_def registry_with_params_def)

lemma run_inv: "registry_inv (registry_run ops (registry_with_params p))"
  by (rule registry_safe.inv_steps [OF run_steps registry_safe.inv_init [OF init_with_params]])

subsection \<open>The serialized rows\<close>

lemma fold_rows_get:
  assumes "distinct (map fst es)" "\<forall>(k, x) \<in> set es. k = (rg_role x, rg_account x)"
  shows "bt_get (fold (\<lambda>x. bt_insert (rg_role x, rg_account x) x) (map snd es) m) k =
     (case map_of es k of Some x \<Rightarrow> Some x | None \<Rightarrow> bt_get m k)"
  using assms
proof (induction es arbitrary: m)
  case (Cons e es)
  then have "map_of es (fst e) = None" by (simp add: map_of_eq_None_iff)
  with Cons show ?case by (cases e) (auto split: option.splits)
qed simp

lemma rows_round_trip:
  "rows_filed r \<Longrightarrow> registrations_from_seq (registrations_as_seq r) = reg_registrations r"
proof (rule bt_map_eqI)
  fix k
  assume "rows_filed r"
  then have "bt_get (fold (\<lambda>x. bt_insert (rg_role x, rg_account x) x) (map snd (bt_entries (reg_registrations r)))
      bt_empty) k = bt_get (reg_registrations r) k"
    by (subst fold_rows_get) (auto simp: rows_filed_def bt.entries_distinct bt.entries_get split: option.splits)
  then show "bt_get (registrations_from_seq (registrations_as_seq r)) k = bt_get (reg_registrations r) k"
    by (simp add: registrations_from_seq_def registrations_as_seq_def bt_values_def)
qed

end
