(* ===== verification/Registry_Theorems.thy ===== *)
theory Registry_Theorems
  imports Registry_Inv
begin

text \<open>The properties of the permissionless registry.\<close>

subsection \<open>Slashing\<close>

text \<open>
  C31: After any sequence of operations on a new registry every row is filed under its own
  role and account, and the slashing history is within its cap and holds at most one record
  of a role and account, each for an actionable report against a row that is still
  slashed.
\<close>

theorem slashing_history_is_sound:
  "let r = registry_run ops (registry_with_params p)
   in (\<forall>role account. case registry_get r account role of
         None \<Rightarrow> True | Some x \<Rightarrow> rg_role x = role \<and> rg_account x = account)
    \<and> length (reg_slashing_history r) \<le> MAX_SLASHING_HISTORY
    \<and> distinct (map record_key (reg_slashing_history r))
    \<and> list_all (\<lambda>e. is_actionable (sl_report e) = Inr () \<and> row_slashed r (record_key e))
        (reg_slashing_history r)"
  using run_inv [of ops p]
  by (auto simp: Let_def registry_inv_def rows_filed_iff history_sound_def registry_get_def list_all_iff
      split: option.splits)



text \<open>
  C33: A successful slash reaches every role the account holds and no other account: each of its
  rows that was not slashed yet loses the penalty and becomes slashed, and every other row
  is unchanged. The penalty is the stake times the ratio in millionths, rounded down and
  capped at the stake, and penalty and remainder add up to the stake.
\<close>

theorem slash_hits_every_role:
  assumes "registry_slash account role condition ratio r = (Inr out, r')"
  shows "(\<forall>account' role'. registry_get r' account' role' =
            (if account' = account then map_option (after_slash ratio) (registry_get r account' role')
             else registry_get r account' role'))
    \<and> (\<exists>x. registry_get r account role = Some x \<and> rg_status x \<noteq> Slashed
         \<and> unat (so_penalty out) = min (unat (rg_stake x)) (unat (rg_stake x) * unat ratio div 1000000)
         \<and> unat (so_penalty out) + unat (so_remaining_stake out) = unat (rg_stake x)
         \<and> registry_get r' account role = Some (x\<lparr> rg_stake := so_remaining_stake out, rg_status := Slashed \<rparr>))
    \<and> reg_params r' = reg_params r \<and> reg_slashing_history r' = reg_slashing_history r"
proof -
  obtain x where x: "bt_get (reg_registrations r) (role, account) = Some x" "rg_status x \<noteq> Slashed"
    and out: "out = \<lparr> so_condition = condition, so_penalty = slash_penalty (rg_stake x) ratio,
                      so_remaining_stake = rg_stake (slash_row ratio x) \<rparr>"
    by (rule registry_slash_InrE [OF assms])
  have "unat (so_penalty out) + unat (so_remaining_stake out) = unat (rg_stake x)"
    using slash_penalty_le [of "rg_stake x" ratio] by (simp add: out unat_slash_row word_le_nat_alt)
  moreover have "registry_get r' account role = Some (x\<lparr> rg_stake := so_remaining_stake out, rg_status := Slashed \<rparr>)"
    using x by (simp add: registry_get_def registry_slash_get [OF assms] after_slash_def out slash_row_def)
  ultimately show ?thesis
    using x registry_slash_frame [OF assms]
    by (simp add: registry_get_def registry_slash_get [OF assms] out unat_slash_penalty)
qed

theorem slash_hits_every_role_witness:
  "let r = snd (register_relayer [7] 2000 0 (snd (register_validator [7] 1000 0 registry_new)));
       r' = snd (registry_slash [7] VALIDATOR DoubleSign 500000 r)
   in registry_get r' [7] RELAYER = map_option (after_slash 500000) (registry_get r [7] RELAYER)
    \<and> registry_get r [7] RELAYER \<noteq> None"
proof -
  define r where "r = snd (register_relayer [7] 2000 0 (snd (register_validator [7] 1000 0 registry_new)))"
  note reg = r_def register_relayer_def register_validator_def registry_register_def registry_new_def
    registry_with_params_def params_default_def bt_contains_def role_defs
  obtain out r' where s: "registry_slash [7] VALIDATOR DoubleSign 500000 r = (Inr out, r')"
    by (simp add: registry_slash_def slash_role_only_def reg)
  have "registry_get r [7] RELAYER \<noteq> None" by (simp add: registry_get_def reg)
  then show ?thesis
    using slash_hits_every_role [OF s] s unfolding r_def [symmetric] Let_def by simp
qed

text \<open>
  A report cuts stake only when it is well formed and verified by consensus. Any other
  report is refused with the registry unchanged; an actionable one against a row that is
  absent or already slashed changes nothing and reports nothing; and every other one
  slashes at the configured ratio of its condition and appends one record.
\<close>

theorem slash_from_report_verdict:
  "slash_from_report report r =
     (if is_actionable report \<noteq> Inr () then (Inl (projl (is_actionable report)), r)
      else case registry_get r (sr_offender report) (sr_role report) of
        None \<Rightarrow> (Inr None, r)
      | Some x \<Rightarrow>
          if rg_status x = Slashed then (Inr None, r)
          else let (res, r') = registry_slash (sr_offender report) (sr_role report) (report_condition report)
                                 (slash_ratio (reg_params r) (report_condition report)) r;
                   out = projr res
               in (Inr (Some out), record_slash \<lparr> sl_report = report, sl_penalty = so_penalty out,
                                                 sl_remaining_stake = so_remaining_stake out \<rparr> r'))
   \<and> (is_ok (is_actionable report) = (sr_provenance report = ConsensusVerified \<and> validate_shape report = Inr ()))"
proof (cases "is_actionable report")
  case (Inl e)
  then show ?thesis
    using is_actionable_iff [of report] by (auto simp: slash_from_report_def)
next
  case (Inr u)
  then show ?thesis
    using is_actionable_iff [of report]
    by (auto simp: slash_from_report_def registry_get_def registry_slash_def slash_role_only_def Let_def
        split: option.splits)
qed

subsection \<open>Leaving\<close>

text \<open>
  An active member that begins to unbond gets its whole stake back from the release epoch
  on and not before. The release is the current epoch plus the configured window; until
  then a withdrawal is refused, the member is not active and a slash still succeeds; from
  then on a withdrawal pays the stake and removes the row and nothing else.
\<close>

theorem unbonding_releases_the_stake:
  assumes "registry_get r account role = Some x" "rg_status x = Active"
  shows "\<exists>release r'. begin_unbonding account role epoch r = (Inr release, r')
    \<and> unat release = min (unat epoch + unat (unbonding_epochs (reg_params r))) (2 ^ 64 - 1)
    \<and> registry_get r' account role = Some (x\<lparr> rg_status := Unbonding release \<rparr>)
    \<and> \<not> registry_is_active r' account role
    \<and> (\<forall>condition ratio. is_ok (fst (registry_slash account role condition ratio r')))
    \<and> (\<forall>now. if now < release
             then registry_withdraw account role now r' = (Inl (StillUnbonding release now), r')
             else \<exists>r''. registry_withdraw account role now r' = (Inr (rg_stake x), r'')
                  \<and> reg_registrations r'' = bt_remove (role, account) (reg_registrations r)
                  \<and> reg_params r'' = reg_params r \<and> reg_slashing_history r'' = reg_slashing_history r)"
proof -
  have gone: "bt_remove k (bt_insert k v m) = bt_remove k m" for k :: "role_id \<times> address" and v :: registration and m
    by (rule bt_map_eqI) simp
  show ?thesis
    using assms
    by (auto simp: begin_unbonding_def begin_unbonding_with_delay_def registry_get_def Let_def unat_sat_add
        registry_is_active_def some_and_def registration_is_active_def registry_withdraw_def gone
        registry_slash_def slash_role_only_def)
qed

theorem unbonding_releases_the_stake_witness:
  "let r = snd (register_relayer [7] 2000 3 registry_new)
   in \<exists>release r'. begin_unbonding [7] RELAYER 5 r = (Inr release, r') \<and> unat release = 12
        \<and> registry_withdraw [7] RELAYER 11 r' = (Inl (StillUnbonding release 11), r')
        \<and> fst (registry_withdraw [7] RELAYER 12 r') = Inr 2000"
proof -
  define r where "r = snd (register_relayer [7] 2000 3 registry_new)"
  let ?x = "\<lparr> rg_account = [7], rg_role = RELAYER, rg_stake = 2000, rg_status = Active, rg_registered_epoch = 3 \<rparr>"
  note reg = r_def register_relayer_def registry_register_def registry_new_def registry_with_params_def
    params_default_def bt_contains_def UNBONDING_EPOCHS_def
  have x: "registry_get r [7] RELAYER = Some ?x" by (simp add: registry_get_def reg)
  have window: "unbonding_epochs (reg_params r) = 7" by (simp add: reg)
  obtain release r' where b: "begin_unbonding [7] RELAYER 5 r = (Inr release, r')" and rel: "unat release = 12"
    and w: "\<forall>now. if now < release
             then registry_withdraw [7] RELAYER now r' = (Inl (StillUnbonding release now), r')
             else \<exists>r''. registry_withdraw [7] RELAYER now r' = (Inr (rg_stake ?x), r'')
                  \<and> reg_registrations r'' = bt_remove (RELAYER, [7]) (reg_registrations r)
                  \<and> reg_params r'' = reg_params r \<and> reg_slashing_history r'' = reg_slashing_history r"
    using unbonding_releases_the_stake [OF x, of 5] window by auto
  from rel have "(11 :: u64) < release" "\<not> (12 :: u64) < release" by (simp_all add: word_less_nat_alt)
  with w have "registry_withdraw [7] RELAYER 11 r' = (Inl (StillUnbonding release 11), r')"
    "fst (registry_withdraw [7] RELAYER 12 r') = Inr (rg_stake ?x)" by (metis, metis fst_conv)
  with b rel have "begin_unbonding [7] RELAYER 5 r = (Inr release, r') \<and> unat release = 12
    \<and> registry_withdraw [7] RELAYER 11 r' = (Inl (StillUnbonding release 11), r')
    \<and> fst (registry_withdraw [7] RELAYER 12 r') = Inr 2000" by simp
  then show ?thesis unfolding r_def [symmetric] Let_def by blast
qed

subsection \<open>Storage and fees\<close>

text \<open>
  The rows written as a plain sequence rebuild the map they came from: reading the
  serialized registrations of any registry the operations produce gives the same map.
\<close>

theorem registrations_round_trip:
  "let r = registry_run ops (registry_with_params p)
   in registrations_from_seq (registrations_as_seq r) = reg_registrations r"
  using run_inv [of ops p] by (simp add: Let_def registry_inv_def rows_round_trip)

text \<open>
  The fee of a transfer is the base fee plus the rate in millionths of the amount rounded
  up, capped at the largest \<open>u64\<close>, and sending an amount in two parts never costs less than
  sending it at once.
\<close>

theorem transfer_fee_exact:
  "unat (required_transfer_fee p a base) =
     min (2 ^ 64 - 1) (unat base + (unat a * unat (transfer_fee_ppm p) + 999999) div 1000000)
   \<and> unat (required_transfer_fee p (sat_add a b) base)
     \<le> unat (required_transfer_fee p a base) + unat (required_transfer_fee p b base)"
proof -
  have exact: "unat (required_transfer_fee p a base) =
     min (2 ^ 64 - 1) (unat base + (unat a * unat (transfer_fee_ppm p) + 999999) div 1000000)" for a
    by (simp add: required_transfer_fee_def unat_sat_add unat_proportional_fee)
  let ?c = "\<lambda>n. (n * unat (transfer_fee_ppm p) + 999999) div 1000000"
  have "?c (unat (sat_add a b)) \<le> ?c (unat a + unat b)"
    by (intro div_le_mono add_right_mono mult_right_mono) (simp_all add: unat_sat_add)
  also have "\<dots> \<le> ?c (unat a) + ?c (unat b)"
    using div_ceil_split [of "unat a * unat (transfer_fee_ppm p)" "unat b * unat (transfer_fee_ppm p)" 1000000]
    by (simp add: add_mult_distrib)
  finally show ?thesis unfolding exact by simp
qed

end
