(* ===== verification/Rlp.thy ===== *)
theory Rlp
  imports Field_Hash
begin

text \<open>
  \<^verbatim>\<open>src/cross_domain/evm/rlp.rs\<close>: the Recursive Length Prefix codec of Ethereum. The
  encoder and the decoder are modelled with every refusal, and the lemmas show that
  decoding inverts encoding and that a decoded item never encodes to more bytes than were
  read, with equality only for the canonical bytes.
\<close>

subsection \<open>Items and errors\<close>

datatype rlp_item = RString bytes | RList "rlp_item list"

datatype rlp_error = UnexpectedEof | InvalidLengthPrefix | NonCanonical | TrailingBytes | RlpNestingTooDeep

fun rlp_error_display :: "rlp_error \<Rightarrow> string" where
  "rlp_error_display UnexpectedEof = ''rlp: unexpected end of input''"
| "rlp_error_display InvalidLengthPrefix = ''rlp: invalid length prefix''"
| "rlp_error_display NonCanonical = ''rlp: non-canonical encoding''"
| "rlp_error_display TrailingBytes = ''rlp: trailing bytes after item''"
| "rlp_error_display RlpNestingTooDeep = ''rlp: nesting too deep''"

definition MAX_DEPTH :: nat where
  "MAX_DEPTH = 32"

subsection \<open>Encoding\<close>

text \<open>\<open>usize\<close> is 64 bits wide; \<open>to_be_bytes\<close> is the little-endian form reversed.\<close>

definition be_bytes :: "u64 \<Rightarrow> bytes" where
  "be_bytes n = rev (le_bytes 8 n)"

definition trim_leading_zeros :: "u64 \<Rightarrow> bytes" where
  "trim_leading_zeros n = (if n = 0 then [] else dropWhile (\<lambda>b. b = 0) (be_bytes n))"

definition encode_length :: "nat \<Rightarrow> u8 \<Rightarrow> bytes" where
  "encode_length len off =
     (if len < 56 then [off + of_nat len]
      else let len_be = trim_leading_zeros (of_nat len)
           in (off + 55 + of_nat (length len_be)) # len_be)"

definition encode_string :: "bytes \<Rightarrow> bytes" where
  "encode_string bs =
     (if length bs = 1 \<and> hd bs < 0x80 then [hd bs] else encode_length (length bs) 0x80 @ bs)"

fun rlp_encode :: "rlp_item \<Rightarrow> bytes" where
  "rlp_encode (RString bs) = encode_string bs"
| "rlp_encode (RList items) =
     (let payload = concat (map rlp_encode items) in encode_length (length payload) 0xc0 @ payload)"

subsection \<open>Decoding\<close>

definition checked_mul :: "u64 \<Rightarrow> u64 \<Rightarrow> u64 option" where
  "checked_mul a b = (if unat a * unat b < 2 ^ 64 then Some (a * b) else None)"

text \<open>The loop \<open>acc.checked_mul(256).and_then(|v| v.checked_add(b))\<close> over big-endian bytes.\<close>

fun be_value_from :: "u64 \<Rightarrow> bytes \<Rightarrow> u64 option" where
  "be_value_from acc [] = Some acc"
| "be_value_from acc (b # bs) =
     (case Option.bind (checked_mul acc 256) (\<lambda>v. checked_add v (ucast b)) of
        None \<Rightarrow> None
      | Some acc \<Rightarrow> be_value_from acc bs)"

definition take_exact :: "bytes \<Rightarrow> nat \<Rightarrow> rlp_error + bytes" where
  "take_exact input n = (if length input < n then Inl UnexpectedEof else Inr (take n input))"

definition decode_length_value :: "bytes \<Rightarrow> nat \<Rightarrow> rlp_error + u64" where
  "decode_length_value input len_of_len =
     (case take_exact input len_of_len of
        Inl e \<Rightarrow> Inl e
      | Inr len_bytes \<Rightarrow>
          if len_of_len > 1 \<and> len_bytes ! 0 = 0 then Inl NonCanonical
          else if len_of_len = 1 \<and> len_bytes ! 0 < 56 then Inl NonCanonical
          else case be_value_from 0 len_bytes of
            None \<Rightarrow> Inl InvalidLengthPrefix
          | Some len \<Rightarrow> Inr len)"

text \<open>
  The loop over the payload of a list, for the decoder of one item. The test that the rest
  became shorter is the reason the loop ends; the decoder always consumes a byte, so it
  never fails (\<open>decode_list_items_unfold\<close>).
\<close>

function decode_list_items :: "(bytes \<Rightarrow> rlp_error + rlp_item \<times> bytes) \<Rightarrow> bytes \<Rightarrow> rlp_error + rlp_item list" where
  "decode_list_items dec rest =
     (if rest = [] then Inr []
      else case dec rest of
        Inl e \<Rightarrow> Inl e
      | Inr (item, remaining) \<Rightarrow>
          if length remaining < length rest
          then (case decode_list_items dec remaining of
                  Inl e \<Rightarrow> Inl e
                | Inr items \<Rightarrow> Inr (item # items))
          else Inl UnexpectedEof)"
  by pat_completeness auto
termination by (relation "measure (\<lambda>(dec, rest). length rest)") auto

declare decode_list_items.simps [simp del]

function decode_at :: "bytes \<Rightarrow> nat \<Rightarrow> rlp_error + rlp_item \<times> bytes" where
  "decode_at input depth =
     (if depth > MAX_DEPTH then Inl RlpNestingTooDeep
      else if input = [] then Inl UnexpectedEof
      else
        let first = input ! 0 in
        if first < 0x80 then Inr (RString [first], drop 1 input)
        else if first \<le> 0xb7 then
          let len = unat (first - 0x80) in
          (case take_exact (drop 1 input) len of
             Inl e \<Rightarrow> Inl e
           | Inr payload \<Rightarrow> Inr (RString payload, drop (1 + len) input))
        else if first \<le> 0xbf then
          let len_of_len = unat (first - 0xb7) in
          (case decode_length_value (drop 1 input) len_of_len of
             Inl e \<Rightarrow> Inl e
           | Inr len \<Rightarrow>
               let payload_start = 1 + len_of_len in
               (case take_exact (drop payload_start input) (unat len) of
                  Inl e \<Rightarrow> Inl e
                | Inr payload \<Rightarrow> Inr (RString payload, drop (payload_start + unat len) input)))
        else if first \<le> 0xf7 then
          let len = unat (first - 0xc0) in
          (case take_exact (drop 1 input) len of
             Inl e \<Rightarrow> Inl e
           | Inr payload \<Rightarrow>
               (case decode_list_items (\<lambda>rest. decode_at rest (depth + 1)) payload of
                  Inl e \<Rightarrow> Inl e
                | Inr items \<Rightarrow> Inr (RList items, drop (1 + len) input)))
        else
          let len_of_len = unat (first - 0xf7) in
          (case decode_length_value (drop 1 input) len_of_len of
             Inl e \<Rightarrow> Inl e
           | Inr len \<Rightarrow>
               let payload_start = 1 + len_of_len in
               (case take_exact (drop payload_start input) (unat len) of
                  Inl e \<Rightarrow> Inl e
                | Inr payload \<Rightarrow>
                    (case decode_list_items (\<lambda>rest. decode_at rest (depth + 1)) payload of
                       Inl e \<Rightarrow> Inl e
                     | Inr items \<Rightarrow> Inr (RList items, drop (payload_start + unat len) input)))))"
  by pat_completeness auto
termination by (relation "measure (\<lambda>(input, depth). Suc MAX_DEPTH - depth)") auto

declare decode_at.simps [simp del]

definition rlp_decode :: "bytes \<Rightarrow> rlp_error + rlp_item" where
  "rlp_decode input =
     (case decode_at input 0 of
        Inl e \<Rightarrow> Inl e
      | Inr (item, rest) \<Rightarrow> if rest \<noteq> [] then Inl TrailingBytes else Inr item)"

subsection \<open>Integers and fields\<close>

definition trim_leading_zeros_u64 :: "u64 \<Rightarrow> bytes" where
  "trim_leading_zeros_u64 n = (if n = 0 then [] else dropWhile (\<lambda>b. b = 0) (be_bytes n))"

definition encode_uint :: "u64 \<Rightarrow> bytes" where
  "encode_uint n = rlp_encode (RString (trim_leading_zeros_u64 n))"

fun decode_uint :: "rlp_item \<Rightarrow> rlp_error + u64" where
  "decode_uint (RList _) = Inl NonCanonical"
| "decode_uint (RString bs) =
     (if length bs > 1 \<and> bs ! 0 = 0 then Inl NonCanonical
      else if bs = [] then Inr 0
      else if length bs > 8 then Inl InvalidLengthPrefix
      else case be_value_from 0 bs of
        None \<Rightarrow> Inl InvalidLengthPrefix
      | Some n \<Rightarrow> Inr n)"

fun rlp_as_bytes :: "rlp_item \<Rightarrow> rlp_error + bytes" where
  "rlp_as_bytes (RString bs) = Inr bs"
| "rlp_as_bytes (RList _) = Inl NonCanonical"

datatype rlp_bytes = RlpBytes bytes

definition rlp_bytes_from_item :: "rlp_item \<Rightarrow> rlp_bytes" where
  "rlp_bytes_from_item item = RlpBytes (rlp_encode item)"

fun rlp_bytes_decode :: "rlp_bytes \<Rightarrow> rlp_error + rlp_item" where
  "rlp_bytes_decode (RlpBytes bs) = rlp_decode bs"

subsection \<open>Big-endian lengths\<close>

definition be_nat :: "bytes \<Rightarrow> nat" where
  "be_nat bs = foldl (\<lambda>a b. 256 * a + unat b) 0 bs"

lemma foldl_be: "foldl (\<lambda>a b. 256 * a + unat b) n bs = 256 ^ length bs * n + be_nat bs" for bs :: bytes
proof (induction bs arbitrary: n)
  case (Cons b bs)
  show ?case using Cons [of "256 * n + unat b"] Cons [of "unat b"]
    by (simp add: be_nat_def algebra_simps)
qed (simp add: be_nat_def)

lemma be_nat_Nil [simp]: "be_nat [] = 0"
  by (simp add: be_nat_def)

lemma be_nat_Cons: "be_nat (b # bs) = 256 ^ length bs * unat b + be_nat bs"
  using foldl_be [of "unat b" bs] by (simp add: be_nat_def)

lemma be_nat_snoc: "be_nat (bs @ [b]) = 256 * be_nat bs + unat b"
  by (simp add: be_nat_def)

lemma unat_u8_less: "unat (b :: u8) < 256"
  using unsigned_less [of b] by simp

lemma be_nat_less: "be_nat bs < 256 ^ length bs"
proof (induction bs rule: rev_induct)
  case (snoc b bs)
  have "256 * be_nat bs + unat b < 256 * (be_nat bs + 1)" using unat_u8_less [of b] by simp
  also have "\<dots> \<le> 256 * 256 ^ length bs" using snoc by simp
  finally show ?case by (simp add: be_nat_snoc)
qed simp

lemma be_nat_drop_zeros: "be_nat (dropWhile (\<lambda>b. b = 0) bs) = be_nat bs"
  by (induction bs) (simp_all add: be_nat_Cons)

lemma be_nat_rev_le_bytes: "be_nat (rev (le_bytes n w)) = take_bit (8 * n) (unat w)" for w :: u64
proof (induction n arbitrary: w)
  case (Suc n)
  have "unat (ucast w :: u8) = take_bit 8 (unat w)" by (simp add: unsigned_ucast_eq)
  moreover have "take_bit (8 * n) (unat (drop_bit 8 w)) = drop_bit 8 (take_bit (8 * Suc n) (unat w))"
    by (simp add: unat_drop_bit_eq drop_bit_take_bit)
  moreover have "take_bit 8 (take_bit (8 * Suc n) (unat w)) = take_bit 8 (unat w)" by simp
  ultimately show ?case
    using bits_ident [of 8 "take_bit (8 * Suc n) (unat w)"]
    by (simp add: le_bytes_Suc be_nat_snoc Suc push_bit_eq_mult mult.commute)
qed (simp add: le_bytes_def)

lemma be_nat_be_bytes: "be_nat (be_bytes w) = unat w"
  using unat_lt64 [of w] by (simp add: be_bytes_def be_nat_rev_le_bytes take_bit_nat_eq_self)

lemma trim_eq: "trim_leading_zeros_u64 = trim_leading_zeros"
  by (simp add: fun_eq_iff trim_leading_zeros_def trim_leading_zeros_u64_def)

lemma be_nat_trim: "be_nat (trim_leading_zeros n) = unat n"
  by (simp add: trim_leading_zeros_def be_nat_drop_zeros be_nat_be_bytes)

lemma length_trim: "length (trim_leading_zeros n) \<le> 8"
  using length_dropWhile_le [of "\<lambda>b. b = 0" "be_bytes n"] by (simp add: trim_leading_zeros_def be_bytes_def)

lemma hd_trim: "trim_leading_zeros n \<noteq> [] \<Longrightarrow> hd (trim_leading_zeros n) \<noteq> 0"
  using hd_dropWhile [of "\<lambda>b. b = 0" "be_bytes n"] by (auto simp: trim_leading_zeros_def split: if_splits)

text \<open>A big-endian number without a leading zero has one spelling.\<close>

lemma be_nat_lower: "bs \<noteq> [] \<Longrightarrow> hd bs \<noteq> 0 \<Longrightarrow> 256 ^ (length bs - 1) \<le> be_nat bs"
proof (cases bs)
  case (Cons b cs)
  assume "bs \<noteq> []" "hd bs \<noteq> 0"
  with Cons have "unat b \<ge> 1" by (simp add: unat_eq_zero Suc_le_eq unat_gt_0)
  then have "256 ^ length cs * 1 \<le> 256 ^ length cs * unat b" by (rule mult_le_mono2)
  with Cons show ?thesis by (simp add: be_nat_Cons trans_le_add1)
qed simp

lemma be_nat_length:
  assumes "hd bs \<noteq> 0" "hd cs \<noteq> 0" "bs \<noteq> []" "cs \<noteq> []" "be_nat bs \<le> be_nat cs"
  shows "length bs \<le> length cs"
proof (rule ccontr)
  assume "\<not> length bs \<le> length cs"
  then have "(256 :: nat) ^ length cs \<le> 256 ^ (length bs - 1)" by (intro power_increasing) auto
  with be_nat_lower [OF assms(3,1)] be_nat_less [of cs] assms(5) show False by linarith
qed

lemma be_nat_same_length: "length bs = length cs \<Longrightarrow> be_nat bs = be_nat cs \<Longrightarrow> bs = cs"
proof (induction bs cs rule: rev_induct2)
  case (4 b bs c cs)
  have "be_nat bs = be_nat cs \<and> unat b = unat c"
  proof -
    have "(256 * be_nat bs + unat b) div 256 = (256 * be_nat cs + unat c) div 256"
      "(256 * be_nat bs + unat b) mod 256 = (256 * be_nat cs + unat c) mod 256"
      using 4 by (simp_all add: be_nat_snoc)
    then show ?thesis using unat_u8_less [of b] unat_u8_less [of c] by simp
  qed
  with 4 show ?case by (simp add: word_unat_eq_iff)
qed simp_all

lemma be_nat_unique:
  assumes "hd bs \<noteq> 0" "hd cs \<noteq> 0" "bs \<noteq> []" "cs \<noteq> []" "be_nat bs = be_nat cs"
  shows "bs = cs"
  using assms be_nat_length [of bs cs] be_nat_length [of cs bs] by (intro be_nat_same_length) auto

lemma be_value_from_eq:
  "be_value_from acc bs =
     (let n = 256 ^ length bs * unat acc + be_nat bs in if n < 2 ^ 64 then Some (of_nat n) else None)"
proof (induction bs arbitrary: acc)
  case Nil
  then show ?case using unat_lt64 [of acc] by simp
next
  case (Cons b bs)
  let ?n = "256 * unat acc + unat b"
  have total: "256 ^ length (b # bs) * unat acc + be_nat (b # bs) = 256 ^ length bs * ?n + be_nat bs"
    by (simp add: be_nat_Cons algebra_simps)
  have step: "Option.bind (checked_mul acc 256) (\<lambda>v. checked_add v (ucast b)) =
      (if ?n < 2 ^ 64 then Some (of_nat ?n) else None)"
    by (auto simp: checked_mul_def checked_add_def unat_word_ariths unat_ucast_up mult.commute)
  show ?case
  proof (cases "?n < 2 ^ 64")
    case True
    then have "unat (of_nat ?n :: u64) = ?n" unfolding unat_of_nat by simp
    with True show ?thesis unfolding total by (simp add: step Cons del: of_nat_add of_nat_mult)
  next
    case False
    have "?n \<le> 256 ^ length bs * ?n" by simp
    with False have "\<not> 256 ^ length bs * ?n + be_nat bs < 2 ^ 64" by linarith
    with False show ?thesis unfolding total by (simp add: step)
  qed
qed

lemma be_value_eq: "be_value_from 0 bs = (if be_nat bs < 2 ^ 64 then Some (of_nat (be_nat bs)) else None)"
  by (simp add: be_value_from_eq Let_def)

subsection \<open>Reading a header\<close>

lemma unat_off: "unat (c :: u8) + n < 256 \<Longrightarrow> unat (c + of_nat n) = unat c + n"
proof -
  assume n: "unat c + n < 256"
  then have "unat (of_nat n :: u8) = n" unfolding unat_of_nat by simp
  with n show ?thesis by (simp add: unat_word_ariths)
qed

lemma unat_of_nat_u8: "n < 256 \<Longrightarrow> unat (of_nat n :: u8) = n"
  unfolding unat_of_nat by simp

lemma unat_of_nat_u64: "n < 2 ^ 64 \<Longrightarrow> unat (of_nat n :: u64) = n"
  unfolding unat_of_nat by simp

lemma trim_not_Nil: "n \<noteq> 0 \<Longrightarrow> trim_leading_zeros n \<noteq> []"
  using be_nat_trim [of n] by (auto simp: unat_eq_zero)

lemma length_trim_pos: "n \<noteq> 0 \<Longrightarrow> 0 < length (trim_leading_zeros n)"
  using trim_not_Nil by simp

lemma decode_length_value_trim:
  assumes "56 \<le> unat n"
  shows "decode_length_value (trim_leading_zeros n @ rest) (length (trim_leading_zeros n)) = Inr n"
proof -
  let ?t = "trim_leading_zeros n"
  have ne: "?t \<noteq> []" using assms by (intro trim_not_Nil) auto
  then have hd: "?t ! 0 \<noteq> 0" using hd_trim [of n] by (simp add: hd_conv_nth)
  have one: "\<not> ?t ! 0 < 56" if "length ?t = 1"
  proof -
    from that obtain b where "?t = [b]" by (cases ?t) auto
    with be_nat_trim [of n] assms show ?thesis by (simp add: be_nat_Cons word_less_nat_alt)
  qed
  have "be_value_from 0 ?t = Some n" using unat_lt64 [of n] by (simp add: be_value_eq be_nat_trim)
  with hd one show ?thesis by (simp add: decode_length_value_def take_exact_def)
qed

lemma decode_length_value_Inr:
  assumes "decode_length_value input k = Inr n" "0 < k"
  obtains rest where "input = trim_leading_zeros n @ rest" "length (trim_leading_zeros n) = k" "56 \<le> unat n"
proof -
  let ?t = "take k input"
  from assms have k: "k \<le> length input" and lead: "k > 1 \<longrightarrow> ?t ! 0 \<noteq> 0" and one: "k = 1 \<longrightarrow> \<not> ?t ! 0 < 56"
    and val: "be_nat ?t < 2 ^ 64" "n = of_nat (be_nat ?t)"
    by (auto simp: decode_length_value_def take_exact_def be_value_eq split: if_splits)
  then have n: "unat n = be_nat ?t" by (simp add: unat_of_nat_u64)
  have ne: "?t \<noteq> []" and len: "length ?t = k" using k assms(2) by auto
  have hd: "hd ?t \<noteq> 0"
  proof (cases "k = 1")
    case True
    then show ?thesis using one ne by (auto simp: hd_conv_nth word_less_nat_alt)
  next
    case False
    then show ?thesis using lead ne assms(2) by (auto simp: hd_conv_nth)
  qed
  have big: "56 \<le> unat n"
  proof (cases "k = 1")
    case True
    with len obtain b where b: "?t = [b]" by (metis One_nat_def length_0_conv length_Suc_conv)
    then have "?t ! 0 = b" by (simp only: nth_Cons_0)
    with one True have "\<not> b < 56" by blast
    with n b show ?thesis by (simp add: be_nat_Cons word_less_nat_alt)
  next
    case False
    then have "(256 :: nat) ^ 1 \<le> 256 ^ (k - 1)" using assms(2) by (intro power_increasing) auto
    then show ?thesis using be_nat_lower [OF ne hd] n len by simp
  qed
  then have "n \<noteq> 0" by auto
  then have "?t = trim_leading_zeros n"
    using be_nat_unique [OF hd hd_trim [OF trim_not_Nil] ne trim_not_Nil] n by (simp add: be_nat_trim)
  then show ?thesis using that [of "drop k input"] len big by (metis append_take_drop_id)
qed

text \<open>The header of a payload, and what the decoder makes of it.\<close>

lemma encode_length_long:
  "56 \<le> n \<Longrightarrow> encode_length n off = (off + 55 + of_nat (length (trim_leading_zeros (of_nat n)))) # trim_leading_zeros (of_nat n)"
  by (simp add: encode_length_def Let_def)

lemma long_length: "56 \<le> n \<Longrightarrow> n < 2 ^ 64 \<Longrightarrow> 0 < length (trim_leading_zeros (of_nat n))"
  using unat_of_nat_u64 [of n] by (intro length_trim_pos) auto

lemma decode_at_byte:
  "depth \<le> MAX_DEPTH \<Longrightarrow> b < 0x80 \<Longrightarrow> decode_at (b # rest) depth = Inr (RString [b], rest)"
  by (subst decode_at.simps) simp

lemma decode_at_string:
  assumes "depth \<le> MAX_DEPTH" "length bs < 2 ^ 64"
  shows "decode_at (encode_length (length bs) 0x80 @ bs @ rest) depth = Inr (RString bs, rest)"
proof (cases "length bs < 56")
  case True
  then have f: "unat (0x80 + of_nat (length bs) :: u8) = 0x80 + length bs" by (subst unat_off) simp_all
  from True have l: "unat (of_nat (length bs) :: u8) = length bs" by (simp add: unat_of_nat_u8)
  show ?thesis
    using assms True by (subst decode_at.simps)
      (simp add: encode_length_def word_less_nat_alt word_le_nat_alt f l take_exact_def)
next
  case False
  let ?t = "trim_leading_zeros (of_nat (length bs))"
  have n: "unat (of_nat (length bs) :: u64) = length bs" using assms(2) by (rule unat_of_nat_u64)
  have k: "0 < length ?t" "length ?t \<le> 8" using False assms(2) long_length length_trim by auto
  then have f: "unat (0xb7 + of_nat (length ?t) :: u8) = 0xb7 + length ?t" by (subst unat_off) simp_all
  from k have l: "unat (of_nat (length ?t) :: u8) = length ?t" by (simp add: unat_of_nat_u8)
  have "decode_length_value (?t @ bs @ rest) (length ?t) = Inr (of_nat (length bs))"
    using False n by (intro decode_length_value_trim) simp
  then show ?thesis
    using assms False k by (subst decode_at.simps)
      (simp add: encode_length_long word_less_nat_alt word_le_nat_alt f l n take_exact_def)
qed

lemma decode_at_list:
  assumes "depth \<le> MAX_DEPTH" "length payload < 2 ^ 64"
    and "decode_list_items (\<lambda>rest. decode_at rest (depth + 1)) payload = Inr items"
  shows "decode_at (encode_length (length payload) 0xc0 @ payload @ rest) depth = Inr (RList items, rest)"
proof (cases "length payload < 56")
  case True
  then have f: "unat (0xc0 + of_nat (length payload) :: u8) = 0xc0 + length payload" by (subst unat_off) simp_all
  from True have l: "unat (of_nat (length payload) :: u8) = length payload" by (simp add: unat_of_nat_u8)
  show ?thesis
    using assms True by (subst decode_at.simps)
      (simp add: encode_length_def word_less_nat_alt word_le_nat_alt f l take_exact_def)
next
  case False
  let ?t = "trim_leading_zeros (of_nat (length payload))"
  have n: "unat (of_nat (length payload) :: u64) = length payload" using assms(2) by (rule unat_of_nat_u64)
  have k: "0 < length ?t" "length ?t \<le> 8" using False assms(2) long_length length_trim by auto
  then have f: "unat (0xf7 + of_nat (length ?t) :: u8) = 0xf7 + length ?t" by (subst unat_off) simp_all
  from k have l: "unat (of_nat (length ?t) :: u8) = length ?t" by (simp add: unat_of_nat_u8)
  have "decode_length_value (?t @ payload @ rest) (length ?t) = Inr (of_nat (length payload))"
    using False n by (intro decode_length_value_trim) simp
  then show ?thesis
    using assms False k by (subst decode_at.simps)
      (simp add: encode_length_long word_less_nat_alt word_le_nat_alt f l n take_exact_def)
qed

lemma short_header:
  assumes "unat (off :: u8) \<le> unat f" "unat f < unat off + 56"
  shows "encode_length (unat (f - off)) off = [f]"
proof -
  have "unat (f - off) < 56" using assms by (simp add: unat_sub word_le_nat_alt)
  then show ?thesis by (simp add: encode_length_def)
qed

lemma long_header:
  assumes "decode_length_value inp (unat (f - (off + 55))) = Inr n" "f \<noteq> off + 55"
  shows "f # inp = encode_length (unat n) off @ drop (unat (f - (off + 55))) inp"
proof -
  have "0 < unat (f - (off + 55))" using assms(2) by (simp add: unat_gt_0)
  from decode_length_value_Inr [OF assms(1) this] obtain r
    where r: "inp = trim_leading_zeros n @ r" "length (trim_leading_zeros n) = unat (f - (off + 55))" "56 \<le> unat n"
    by blast
  have "of_nat (length (trim_leading_zeros n)) = f - (off + 55)" unfolding r(2) by simp
  then have "encode_length (unat n) off = f # trim_leading_zeros n"
    using r(3) by (simp add: encode_length_long)
  with r show ?thesis by simp
qed

text \<open>Every accepted input is one of these three shapes.\<close>

lemma decode_at_cases:
  assumes "decode_at input depth = Inr (item, rest)"
  obtains (byte) b where "input = b # rest" "b < 0x80" "item = RString [b]"
  | (string) bs where "input = encode_length (length bs) 0x80 @ bs @ rest" "item = RString bs"
  | (list) payload items where "input = encode_length (length payload) 0xc0 @ payload @ rest" "item = RList items"
      "decode_list_items (\<lambda>r. decode_at r (depth + 1)) payload = Inr items"
proof -
  have "input \<noteq> []" "depth \<le> MAX_DEPTH" using assms by (auto simp: decode_at.simps [of input] split: if_splits)
  then obtain f inp where inp: "input = f # inp" by (cases input) auto
  note dec = assms [unfolded inp, unfolded decode_at.simps [of "f # inp" depth]]
  consider "f < 0x80" | "\<not> f < 0x80" "f \<le> 0xb7" | "\<not> f \<le> 0xb7" "f \<le> 0xbf" | "\<not> f \<le> 0xbf" "f \<le> 0xf7" | "\<not> f \<le> 0xf7"
    by blast
  then show ?thesis
  proof cases
    case 1
    then show ?thesis using dec byte inp by (auto split: if_splits)
  next
    case 2
    let ?n = "unat (f - 0x80)"
    have "?n \<le> length inp" "item = RString (take ?n inp)" "rest = drop ?n inp"
      using dec 2 by (auto simp: take_exact_def Let_def split: if_splits)
    moreover have "encode_length ?n 0x80 = [f]"
      using 2 by (intro short_header) (simp_all add: word_less_nat_alt word_le_nat_alt)
    ultimately show ?thesis using string [of "take ?n inp"] inp by simp
  next
    case 3
    let ?k = "unat (f - 0xb7)"
    from 3 have branch: "\<not> f < 0x80" by (auto simp: word_less_nat_alt word_le_nat_alt)
    obtain n where n: "decode_length_value inp ?k = Inr n"
      using dec 3 branch by (auto simp: Let_def split: if_splits sum.splits)
    have ok: "unat n \<le> length (drop ?k inp)" "item = RString (take (unat n) (drop ?k inp))"
      "rest = drop (unat n) (drop ?k inp)"
      using dec 3 branch n by (auto simp: take_exact_def Let_def add.commute split: if_splits)
    have "f # inp = encode_length (unat n) 0x80 @ drop ?k inp"
      using n 3 by (intro long_header [of inp f "0x80", simplified]) auto
    with ok show ?thesis using string [of "take (unat n) (drop ?k inp)"] inp by (simp del: drop_drop)
  next
    case 4
    let ?n = "unat (f - 0xc0)"
    from 4 have branch: "\<not> f < 0x80" "\<not> f \<le> 0xb7" by (auto simp: word_less_nat_alt word_le_nat_alt)
    obtain items where "?n \<le> length inp" "item = RList items" "rest = drop ?n inp"
      "decode_list_items (\<lambda>r. decode_at r (depth + 1)) (take ?n inp) = Inr items"
      using dec 4 branch by (auto simp: take_exact_def Let_def split: if_splits sum.splits)
    moreover have "encode_length ?n 0xc0 = [f]"
      using 4 by (intro short_header) (simp_all add: word_less_nat_alt word_le_nat_alt)
    ultimately show ?thesis using list [of "take ?n inp" items] inp by simp
  next
    case 5
    let ?k = "unat (f - 0xf7)"
    from 5 have branch: "\<not> f < 0x80" "\<not> f \<le> 0xb7" "\<not> f \<le> 0xbf" by (auto simp: word_less_nat_alt word_le_nat_alt)
    obtain n where n: "decode_length_value inp ?k = Inr n"
      using dec 5 branch by (auto simp: Let_def split: if_splits sum.splits)
    obtain items where ok: "unat n \<le> length (drop ?k inp)" "item = RList items"
      "rest = drop (unat n) (drop ?k inp)"
      "decode_list_items (\<lambda>r. decode_at r (depth + 1)) (take (unat n) (drop ?k inp)) = Inr items"
      using dec 5 branch n by (auto simp: take_exact_def Let_def add.commute split: if_splits sum.splits)
    have "f # inp = encode_length (unat n) 0xc0 @ drop ?k inp"
      using n 5 by (intro long_header [of inp f "0xc0", simplified]) auto
    with ok show ?thesis using list [of "take (unat n) (drop ?k inp)" items] inp by (simp del: drop_drop)
  qed
qed

subsection \<open>Decoding inverts encoding\<close>

lemma encode_length_not_Nil [simp]: "encode_length n off \<noteq> []"
  by (simp add: encode_length_def Let_def)

lemma decode_at_consumes: "decode_at input depth = Inr (item, rest) \<Longrightarrow> length rest < length input"
  by (erule decode_at_cases) (simp_all add: length_greater_0_conv [THEN iffD2])

text \<open>The loop as the source has it, without the test that makes it end.\<close>

lemma decode_list_items_unfold:
  "decode_list_items (\<lambda>r. decode_at r depth) rest =
     (if rest = [] then Inr []
      else case decode_at rest depth of
        Inl e \<Rightarrow> Inl e
      | Inr (item, remaining) \<Rightarrow>
          (case decode_list_items (\<lambda>r. decode_at r depth) remaining of
             Inl e \<Rightarrow> Inl e
           | Inr items \<Rightarrow> Inr (item # items)))"
  by (subst decode_list_items.simps) (auto split: sum.splits dest: decode_at_consumes)

fun item_depth :: "rlp_item \<Rightarrow> nat" where
  "item_depth (RString _) = 0"
| "item_depth (RList items) = foldr (\<lambda>i d. max (Suc (item_depth i)) d) items 0"

lemma item_depth_in: "i \<in> set items \<Longrightarrow> item_depth i < item_depth (RList items)"
  by (induction items) (auto simp: less_max_iff_disj)

lemma rlp_encode_not_Nil [simp]: "rlp_encode item \<noteq> []"
  by (cases item) (simp_all add: encode_string_def Let_def)

lemma decode_items_encode:
  assumes "\<And>i rest. i \<in> set items \<Longrightarrow> decode_at (rlp_encode i @ rest) depth = Inr (i, rest)"
  shows "decode_list_items (\<lambda>r. decode_at r depth) (concat (map rlp_encode items)) = Inr items"
  using assms
proof (induction items)
  case Nil
  then show ?case by (simp add: decode_list_items_unfold)
next
  case (Cons i items)
  then show ?case by (subst decode_list_items_unfold) simp
qed

lemma length_encode_part: "i \<in> set items \<Longrightarrow> length (rlp_encode i) \<le> length (concat (map rlp_encode items))"
  by (induction items) auto

lemma decode_at_encode:
  assumes "depth + item_depth item \<le> MAX_DEPTH" "length (rlp_encode item) < 2 ^ 64"
  shows "decode_at (rlp_encode item @ rest) depth = Inr (item, rest)"
  using assms
proof (induction item arbitrary: depth rest)
  case (RString bs)
  show ?case
  proof (cases "length bs = 1 \<and> hd bs < 0x80")
    case True
    then obtain b where "bs = [b]" by (cases bs) auto
    with True RString show ?thesis by (simp add: encode_string_def decode_at_byte)
  next
    case False
    with RString show ?thesis using decode_at_string [of depth bs rest] by (auto simp: encode_string_def)
  qed
next
  case (RList items)
  let ?p = "concat (map rlp_encode items)"
  have p: "length ?p < 2 ^ 64" using RList.prems(2) by (simp add: Let_def)
  have "decode_at (rlp_encode i @ r) (depth + 1) = Inr (i, r)" if "i \<in> set items" for i r
  proof (rule RList.IH [OF that])
    show "depth + 1 + item_depth i \<le> MAX_DEPTH" using item_depth_in [OF that] RList.prems(1) by linarith
    show "length (rlp_encode i) < 2 ^ 64" using length_encode_part [OF that] p by linarith
  qed
  then have "decode_list_items (\<lambda>r. decode_at r (depth + 1)) ?p = Inr items" by (rule decode_items_encode)
  then show ?case using decode_at_list [of depth ?p items rest] RList.prems(1) p by (simp add: Let_def)
qed

lemma rlp_decode_encode:
  "item_depth item \<le> MAX_DEPTH \<Longrightarrow> length (rlp_encode item) < 2 ^ 64 \<Longrightarrow> rlp_decode (rlp_encode item) = Inr item"
  using decode_at_encode [of 0 item "[]"] by (simp add: rlp_decode_def)

subsection \<open>Encoding what was decoded\<close>

text \<open>\<open>shrinks xs ys\<close>: no longer than, and equal when as long.\<close>

definition shrinks :: "bytes \<Rightarrow> bytes \<Rightarrow> bool" where
  "shrinks xs ys \<longleftrightarrow> length xs \<le> length ys \<and> (length xs = length ys \<longrightarrow> xs = ys)"

lemma shrinks_append: "shrinks xs ys \<Longrightarrow> shrinks xs' ys' \<Longrightarrow> shrinks (xs @ xs') (ys @ ys')"
  by (auto simp: shrinks_def)

lemma shrinks_refl [simp]: "shrinks xs xs"
  by (simp add: shrinks_def)

lemma encode_length_mono:
  assumes "m \<le> n" "n < 2 ^ 64"
  shows "length (encode_length m off) \<le> length (encode_length n off)"
proof (cases "m < 56")
  case True
  then show ?thesis by (simp add: encode_length_def Let_def)
next
  case False
  let ?t = "\<lambda>k. trim_leading_zeros (of_nat k)"
  have k: "?t m \<noteq> []" "?t n \<noteq> []" using False assms long_length [of m] long_length [of n] by auto
  have "be_nat (?t m) \<le> be_nat (?t n)" using assms by (simp add: be_nat_trim unat_of_nat_u64)
  then have "length (?t m) \<le> length (?t n)" using be_nat_length [OF hd_trim hd_trim] k by blast
  with False assms show ?thesis by (simp add: encode_length_long)
qed

lemma shrinks_framed:
  assumes "shrinks xs ys" "length ys < 2 ^ 64"
  shows "shrinks (encode_length (length xs) off @ xs) (encode_length (length ys) off @ ys)"
proof (cases "length xs = length ys")
  case True
  with assms show ?thesis by (simp add: shrinks_def)
next
  case False
  with assms have "length xs < length ys" by (simp add: shrinks_def)
  with encode_length_mono [of "length xs" "length ys" off] assms show ?thesis by (simp add: shrinks_def)
qed

lemma encode_string_shrinks: "shrinks (encode_string bs) (encode_length (length bs) 0x80 @ bs)"
  by (auto simp: encode_string_def shrinks_def Suc_le_eq length_greater_0_conv [THEN iffD2])

lemma decode_items_shrinks:
  assumes "decode_list_items (\<lambda>r. decode_at r depth) payload = Inr items"
    and "\<And>input item rest. decode_at input depth = Inr (item, rest) \<Longrightarrow> length input \<le> length payload \<Longrightarrow>
           \<exists>pre. input = pre @ rest \<and> shrinks (rlp_encode item) pre"
  shows "shrinks (concat (map rlp_encode items)) payload"
  using assms
proof (induction items arbitrary: payload)
  case Nil
  then show ?case by (subst (asm) decode_list_items_unfold) (auto split: if_splits sum.splits)
next
  case (Cons i items)
  then obtain rest where at: "decode_at payload depth = Inr (i, rest)"
    and loop: "decode_list_items (\<lambda>r. decode_at r depth) rest = Inr items"
    by (subst (asm) (2) decode_list_items_unfold) (auto split: if_splits sum.splits)
  from Cons.prems(2) [OF at] obtain pre where pre: "payload = pre @ rest" "shrinks (rlp_encode i) pre" by blast
  have "shrinks (concat (map rlp_encode items)) rest"
    using Cons.IH [OF loop] Cons.prems(2) pre(1) by simp
  with pre show ?case by (simp add: shrinks_append)
qed

lemma decode_at_shrinks:
  assumes "decode_at input depth = Inr (item, rest)" "length input < 2 ^ 64"
  shows "\<exists>pre. input = pre @ rest \<and> shrinks (rlp_encode item) pre"
  using assms
proof (induction "length input" arbitrary: input depth item rest rule: less_induct)
  case less
  from less.prems(1) show ?case
  proof (cases rule: decode_at_cases)
    case (byte b)
    then show ?thesis by (intro exI [of _ "[b]"]) (simp add: encode_string_def)
  next
    case (string bs)
    then show ?thesis using encode_string_shrinks [of bs]
      by (intro exI [of _ "encode_length (length bs) 0x80 @ bs"]) simp
  next
    case (list payload items)
    have shorter: "length payload < length input"
      using list(1) by (simp add: length_greater_0_conv [THEN iffD2])
    have "shrinks (concat (map rlp_encode items)) payload"
      using decode_items_shrinks [OF list(3)] less.hyps less.prems(2) shorter
      by (meson le_less_trans less_trans)
    from shrinks_framed [OF this, of "0xc0"] list shorter less.prems(2) show ?thesis
      by (intro exI [of _ "encode_length (length payload) 0xc0 @ payload"]) (simp add: Let_def)
  qed
qed

lemma rlp_decode_shrinks:
  "rlp_decode bs = Inr item \<Longrightarrow> length bs < 2 ^ 64 \<Longrightarrow> shrinks (rlp_encode item) bs"
  using decode_at_shrinks [of bs 0 item "[]"] by (auto simp: rlp_decode_def split: sum.splits if_splits)

end
