(* ===== verification/Mpt.thy ===== *)
theory Mpt
  imports Rlp
begin

text \<open>
  \<^verbatim>\<open>src/cross_domain/evm/mpt.rs\<close>: the verifier of Merkle-Patricia proofs. Keccak-256 comes
  from the \<open>sha3\<close> crate and is the parameter \<open>K\<close>. The lemmas show that the hex-prefix
  encoding is inverted by its decoder and that two proofs against one root cannot give a
  key two values, unless Keccak collides on nodes of the proofs.
\<close>

unbundle bit_operations_syntax

definition MAX_WALK_DEPTH :: nat where
  "MAX_WALK_DEPTH = 128"

datatype mpt_error =
  KeyNotFound | MissingNode | MptRlp rlp_error | InvalidNode | InvalidHpEncoding | InvalidNodeRef | PathMismatch
| MptNestingTooDeep

fun mpt_error_display :: "mpt_error \<Rightarrow> string" where
  "mpt_error_display KeyNotFound = ''mpt: key not found in trie''"
| "mpt_error_display MissingNode = ''mpt: missing node in proof''"
| "mpt_error_display (MptRlp e) = ''mpt: rlp decode error: '' @ rlp_error_display e"
| "mpt_error_display InvalidNode = ''mpt: invalid node structure''"
| "mpt_error_display InvalidHpEncoding = ''mpt: invalid hex-prefix encoding''"
| "mpt_error_display InvalidNodeRef = ''mpt: invalid node reference''"
| "mpt_error_display PathMismatch = ''mpt: path does not match''"
| "mpt_error_display MptNestingTooDeep =
     ''mpt: trie descent exceeded '' @ decimal MAX_WALK_DEPTH @ '' levels''"

subsection \<open>Paths\<close>

definition to_nibbles :: "bytes \<Rightarrow> bytes" where
  "to_nibbles hash = concat (map (\<lambda>b. [drop_bit 4 b, b AND 0x0f]) hash)"

text \<open>\<open>chunks(2)\<close> of an even number of nibbles, each pair packed into a byte.\<close>

fun pack_pairs :: "bytes \<Rightarrow> bytes" where
  "pack_pairs (a # b # ns) = (push_bit 4 a OR b) # pack_pairs ns"
| "pack_pairs _ = []"

definition hp_encode :: "bytes \<Rightarrow> bool \<Rightarrow> bytes" where
  "hp_encode nibbles is_leaf =
     (let flag = (if is_leaf then 2 else 0);
          odd = (length nibbles mod 2 = 1);
          prefix_nibble = flag + (if odd then 1 else 0)
      in if odd then (push_bit 4 prefix_nibble OR nibbles ! 0) # pack_pairs (drop 1 nibbles)
         else push_bit 4 prefix_nibble # pack_pairs nibbles)"

definition hp_decode :: "bytes \<Rightarrow> mpt_error + bool \<times> bytes" where
  "hp_decode bs =
     (if bs = [] then Inl InvalidHpEncoding
      else let first = bs ! 0; flag_byte = drop_bit 4 first in
        if flag_byte > 3 then Inl InvalidHpEncoding
        else let is_leaf = (flag_byte AND 2 \<noteq> 0); odd = (flag_byte AND 1 \<noteq> 0)
             in Inr (is_leaf, (if odd then [first AND 0x0f] else []) @ to_nibbles (drop 1 bs)))"

subsection \<open>The walk\<close>

type_synonym node_map = "hash32 \<Rightarrow> bytes option"

definition rlp_lift :: "rlp_error + 'a \<Rightarrow> mpt_error + 'a" where
  "rlp_lift r = (case r of Inl e \<Rightarrow> Inl (MptRlp e) | Inr a \<Rightarrow> Inr a)"

fun resolve_ref :: "rlp_item \<Rightarrow> node_map \<Rightarrow> mpt_error + rlp_item" where
  "resolve_ref (RString b) nodes =
     (if b = [] then Inl KeyNotFound
      else if length b = 32 then
        (case nodes b of None \<Rightarrow> Inl MissingNode | Some node_bytes \<Rightarrow> rlp_lift (rlp_decode node_bytes))
      else rlp_lift (rlp_decode b))"
| "resolve_ref (RList items) nodes = Inr (RList items)"

function mpt_walk :: "rlp_item \<Rightarrow> bytes \<Rightarrow> node_map \<Rightarrow> nat \<Rightarrow> mpt_error + bytes" where
  "mpt_walk node nibbles nodes depth =
     (if depth > MAX_WALK_DEPTH then Inl MptNestingTooDeep
      else case node of
        RString b \<Rightarrow> if b = [] then Inl KeyNotFound else Inl InvalidNode
      | RList items \<Rightarrow>
          if length items = 2 then
            (case rlp_lift (rlp_as_bytes (items ! 0)) of
               Inl e \<Rightarrow> Inl e
             | Inr path_bytes \<Rightarrow>
                 (case hp_decode path_bytes of
                    Inl e \<Rightarrow> Inl e
                  | Inr (is_leaf, node_path) \<Rightarrow>
                      if take (length node_path) nibbles \<noteq> node_path then Inl PathMismatch
                      else
                        let remaining = drop (length node_path) nibbles in
                        if is_leaf then
                          (if remaining \<noteq> [] then Inl PathMismatch else rlp_lift (rlp_as_bytes (items ! 1)))
                        else
                          (case resolve_ref (items ! 1) nodes of
                             Inl e \<Rightarrow> Inl e
                           | Inr child \<Rightarrow> mpt_walk child remaining nodes (depth + 1))))
          else if length items = 17 then
            (if nibbles = [] then
               (if items ! 16 = RString [] then Inl KeyNotFound else rlp_lift (rlp_as_bytes (items ! 16)))
             else
               (case resolve_ref (items ! unat (nibbles ! 0)) nodes of
                  Inl e \<Rightarrow> Inl e
                | Inr child \<Rightarrow> mpt_walk child (drop 1 nibbles) nodes (depth + 1)))
          else Inl InvalidNode)"
  by pat_completeness auto
termination by (relation "measure (\<lambda>(node, nibbles, nodes, depth). Suc MAX_WALK_DEPTH - depth)") auto

declare mpt_walk.simps [simp del]

definition build_node_map :: "hasher \<Rightarrow> bytes list \<Rightarrow> node_map" where
  "build_node_map K proof_nodes = fold (\<lambda>node_bytes m. m(K node_bytes \<mapsto> node_bytes)) proof_nodes Map.empty"

definition mpt_verify :: "hasher \<Rightarrow> bytes list \<Rightarrow> hash32 \<Rightarrow> bytes \<Rightarrow> mpt_error + bytes" where
  "mpt_verify K proof_nodes root key =
     (let nodes = build_node_map K proof_nodes in
      case nodes root of
        None \<Rightarrow> Inl MissingNode
      | Some root_bytes \<Rightarrow>
          (case rlp_lift (rlp_decode root_bytes) of
             Inl e \<Rightarrow> Inl e
           | Inr root_item \<Rightarrow> mpt_walk root_item (to_nibbles (K key)) nodes 0))"

subsection \<open>Hex prefixes\<close>

definition is_nibble :: "u8 \<Rightarrow> bool" where
  "is_nibble n = (n < 16)"

lemma nibble_bits: "is_nibble n \<longleftrightarrow> take_bit 4 n = n"
  by (simp add: is_nibble_def word_less_nat_alt word_unat_eq_iff unsigned_take_bit_eq take_bit_nat_eq_self_iff)

lemma and_0f: "b AND 0x0f = take_bit 4 b" for b :: u8
  by (simp add: take_bit_eq_mask mask_eq_exp_minus_1)

lemma to_nibbles_nibble: "list_all is_nibble (to_nibbles bs)"
proof (induction bs)
  case (Cons b bs)
  have "take_bit 4 (drop_bit 4 b) = drop_bit 4 b"
    by (rule bit_word_eqI) (auto simp: bit_simps dest: bit_imp_le_length)
  then show ?case using Cons by (simp add: to_nibbles_def and_0f nibble_bits)
qed (simp add: to_nibbles_def)

lemma packed_nibbles:
  assumes "is_nibble a" "is_nibble b"
  shows "drop_bit 4 (push_bit 4 a OR b) = a" "(push_bit 4 a OR b) AND 0x0f = b"
proof -
  have a: "bit a n \<Longrightarrow> n < 4" and b: "bit b n \<Longrightarrow> n < 4" for n
    using assms by (metis nibble_bits bit_take_bit_iff)+
  show "drop_bit 4 (push_bit 4 a OR b) = a"
    by (rule bit_word_eqI) (auto simp: bit_simps dest: a b)
  show "(push_bit 4 a OR b) AND 0x0f = b"
    unfolding and_0f by (rule bit_word_eqI) (auto simp: bit_simps dest: a b)
qed

lemma to_nibbles_Cons: "to_nibbles (b # bs) = drop_bit 4 b # (b AND 0x0f) # to_nibbles bs"
  by (simp add: to_nibbles_def)

lemma to_nibbles_pack: "list_all is_nibble ns \<Longrightarrow> even (length ns) \<Longrightarrow> to_nibbles (pack_pairs ns) = ns"
proof (induction ns rule: pack_pairs.induct)
  case (1 a b ns)
  then have "is_nibble a" "is_nibble b" "to_nibbles (pack_pairs ns) = ns" by simp_all
  then show ?case by (simp only: pack_pairs.simps to_nibbles_Cons packed_nibbles)
qed (simp_all add: to_nibbles_def)

lemma hp_decode_encode:
  assumes "list_all is_nibble ns"
  shows "hp_decode (hp_encode ns leaf) = Inr (leaf, ns)"
proof (cases "odd (length ns)")
  case True
  then obtain n ms where ns: "ns = n # ms" by (cases ns) auto
  define p where "p = (if leaf then 3 else 1 :: u8)"
  have enc: "hp_encode ns leaf = (push_bit 4 p OR n) # pack_pairs ms"
  proof -
    have one: "length ns mod 2 = 1" using True by presburger
    show ?thesis unfolding hp_encode_def Let_def p_def one using ns by simp
  qed
  have "is_nibble p" "is_nibble n" using assms ns by (simp_all add: is_nibble_def p_def)
  note packed = packed_nibbles [OF this]
  have flag: "\<not> p > 3" "(p AND 2 \<noteq> 0) = leaf" "p AND 1 \<noteq> 0" by (simp_all add: p_def)
  have "to_nibbles (pack_pairs ms) = ms" using assms ns True by (simp add: to_nibbles_pack)
  with flag show ?thesis
    unfolding enc hp_decode_def Let_def
    by (simp only: nth_Cons_0 packed drop_Suc_Cons drop_0 list.distinct One_nat_def ns
        if_True if_False append_Cons append_Nil not_False_eq_True)
next
  case False
  define p where "p = (if leaf then 2 else 0 :: u8)"
  have enc: "hp_encode ns leaf = push_bit 4 p # pack_pairs ns"
    using False by (simp add: hp_encode_def Let_def p_def odd_iff_mod_2_eq_one)
  have "drop_bit 4 (push_bit 4 p) = p" by (simp add: p_def push_bit_eq_mult drop_bit_eq_div)
  moreover have "\<not> p > 3" "(p AND 2 \<noteq> 0) = leaf" "\<not> p AND 1 \<noteq> 0" by (simp_all add: p_def)
  moreover have "to_nibbles (pack_pairs ns) = ns" using assms False by (simp add: to_nibbles_pack)
  ultimately show ?thesis
    by (simp only: enc hp_decode_def Let_def nth_Cons_0 drop_Suc_Cons drop_0 list.distinct One_nat_def
        if_True if_False append_Nil not_False_eq_True)
qed

subsection \<open>One root, one value\<close>

definition maps_agree :: "node_map \<Rightarrow> node_map \<Rightarrow> bool" where
  "maps_agree m m' \<longleftrightarrow> (\<forall>h b b'. m h = Some b \<longrightarrow> m' h = Some b' \<longrightarrow> b = b')"

lemma resolve_ref_agree:
  assumes "maps_agree m m'" "resolve_ref r m = Inr i" "resolve_ref r m' = Inr i'"
  shows "i = i'"
proof (cases r)
  case (RString b)
  have "m b = m' b" if "m b \<noteq> None" "m' b \<noteq> None"
    using that assms(1) by (auto simp: maps_agree_def)
  with RString assms(2,3) show ?thesis by (cases "m b"; cases "m' b") (auto split: if_splits)
qed (use assms in auto)

text \<open>The ways a walk succeeds, and where each leaves the rest of the path.\<close>

inductive walk_step :: "rlp_item \<Rightarrow> bytes \<Rightarrow> rlp_item \<Rightarrow> bytes \<Rightarrow> bool" where
  extension: "length items = 2 \<Longrightarrow> rlp_as_bytes (items ! 0) = Inr p \<Longrightarrow> hp_decode p = Inr (False, path) \<Longrightarrow>
    take (length path) ns = path \<Longrightarrow> walk_step (RList items) ns (items ! 1) (drop (length path) ns)"
| branch: "length items = 17 \<Longrightarrow> ns = n # ks \<Longrightarrow> walk_step (RList items) ns (items ! unat n) ks"

inductive walk_end :: "rlp_item \<Rightarrow> bytes \<Rightarrow> bytes \<Rightarrow> bool" where
  leaf: "length items = 2 \<Longrightarrow> rlp_as_bytes (items ! 0) = Inr p \<Longrightarrow> hp_decode p = Inr (True, ns) \<Longrightarrow>
    rlp_as_bytes (items ! 1) = Inr v \<Longrightarrow> walk_end (RList items) ns v"
| slot: "length items = 17 \<Longrightarrow> rlp_as_bytes (items ! 16) = Inr v \<Longrightarrow> walk_end (RList items) [] v"

inductive_cases walk_stepE: "walk_step node ns r ks"
inductive_cases walk_endE: "walk_end node ns v"

lemma rlp_lift_simps [simp]: "rlp_lift (Inl e) = Inl (MptRlp e)" "rlp_lift (Inr a) = Inr a"
  by (simp_all add: rlp_lift_def)

lemma rlp_lift_Inr: "rlp_lift r = Inr a \<longleftrightarrow> r = Inr a"
  by (simp add: rlp_lift_def split: sum.splits)

lemma walk_step_det: "walk_step node ns r ks \<Longrightarrow> walk_step node ns r' ks' \<Longrightarrow> r = r' \<and> ks = ks'"
  by (elim walk_stepE) simp_all

lemma walk_end_det: "walk_end node ns v \<Longrightarrow> walk_end node ns v' \<Longrightarrow> v = v'"
  by (elim walk_endE) simp_all

lemma walk_step_not_end: "walk_step node ns r ks \<Longrightarrow> \<not> walk_end node ns v"
  by (auto elim!: walk_stepE walk_endE)

lemma mpt_walk_Inr:
  assumes "mpt_walk node ns m depth = Inr v"
  obtains (stop) "walk_end node ns v"
  | (go) r ks child where "walk_step node ns r ks" "resolve_ref r m = Inr child" "depth \<le> MAX_WALK_DEPTH"
      "mpt_walk child ks m (Suc depth) = Inr v"
proof -
  note w = assms [unfolded mpt_walk.simps [of node ns m depth]]
  from w obtain items where d: "depth \<le> MAX_WALK_DEPTH" and node: "node = RList items"
    by (auto split: if_splits rlp_item.splits)
  consider "length items = 2" | "length items = 17" using w d node by (auto split: if_splits)
  then show ?thesis
  proof cases
    case 1
    with w d node obtain p leaf path where p: "rlp_as_bytes (items ! 0) = Inr p" "hp_decode p = Inr (leaf, path)"
      by (auto simp: rlp_lift_Inr split: sum.splits)
    with w d node 1 have pre: "take (length path) ns = path"
      by (auto split: if_splits)
    show ?thesis
    proof (cases leaf)
      case True
      with w d node 1 p pre have "ns = path" "rlp_as_bytes (items ! 1) = Inr v"
        by (auto simp: rlp_lift_Inr Let_def split: if_splits)
      then show ?thesis using stop node walk_end.leaf 1 p True by auto
    next
      case False
      with w d node 1 p pre obtain child where "resolve_ref (items ! 1) m = Inr child"
        "mpt_walk child (drop (length path) ns) m (Suc depth) = Inr v"
        by (auto simp: Let_def split: sum.splits)
      moreover have "walk_step node ns (items ! 1) (drop (length path) ns)"
        unfolding node using walk_step.extension [OF 1 p(1) _ pre] p(2) False by simp
      ultimately show ?thesis using go d by blast
    qed
  next
    case 2
    show ?thesis
    proof (cases ns)
      case Nil
      with w d node 2 have "rlp_as_bytes (items ! 16) = Inr v" by (auto simp: rlp_lift_Inr split: if_splits)
      then show ?thesis using stop node walk_end.slot 2 Nil by auto
    next
      case (Cons n ks)
      with w d node 2 obtain child where "resolve_ref (items ! unat n) m = Inr child" "mpt_walk child ks m (Suc depth) = Inr v"
        by (auto split: sum.splits)
      moreover have "walk_step node ns (items ! unat n) ks" unfolding node using walk_step.branch [OF 2 Cons] .
      ultimately show ?thesis using go d by blast
    qed
  qed
qed

lemma mpt_walk_agree:
  assumes "maps_agree m m'" "mpt_walk node ns m depth = Inr v" "mpt_walk node ns m' depth = Inr v'"
  shows "v = v'"
  using assms(2,3)
proof (induction "Suc MAX_WALK_DEPTH - depth" arbitrary: node ns depth rule: less_induct)
  case less
  from less.prems(1) show ?case
  proof (cases rule: mpt_walk_Inr)
    case stop
    from less.prems(2) show ?thesis
      by (cases rule: mpt_walk_Inr) (use stop walk_end_det walk_step_not_end in blast)+
  next
    case (go r ks child)
    from less.prems(2) show ?thesis
    proof (cases rule: mpt_walk_Inr)
      case stop
      with go(1) walk_step_not_end show ?thesis by blast
    next
      case (go r' ks' child')
      with \<open>walk_step node ns r ks\<close> have same: "r' = r" "ks' = ks" using walk_step_det by blast+
      then have "child' = child"
        using resolve_ref_agree [OF assms(1) \<open>resolve_ref r m = Inr child\<close>] go(2) by simp
      then show ?thesis
        using less.hyps [of "Suc depth" child ks] go(3,4) same \<open>mpt_walk child ks m (Suc depth) = Inr v\<close> by simp
    qed
  qed
qed

lemma build_node_map_Some: "build_node_map K nodes h = Some b \<Longrightarrow> b \<in> set nodes \<and> K b = h"
  by (induction nodes rule: rev_induct) (auto simp: build_node_map_def split: if_splits)

lemma build_node_map_agree:
  assumes "inj_on K (set nodes \<union> set nodes')"
  shows "maps_agree (build_node_map K nodes) (build_node_map K nodes')"
  unfolding maps_agree_def
proof (intro allI impI)
  fix h b b'
  assume "build_node_map K nodes h = Some b" "build_node_map K nodes' h = Some b'"
  then have "b \<in> set nodes" "b' \<in> set nodes'" "K b = K b'" by (auto dest!: build_node_map_Some)
  then show "b = b'" using inj_onD [OF assms] by blast
qed

lemma mpt_verify_Inr:
  assumes "mpt_verify K nodes root key = Inr v"
  obtains b i where "build_node_map K nodes root = Some b" "rlp_decode b = Inr i"
    "mpt_walk i (to_nibbles (K key)) (build_node_map K nodes) 0 = Inr v"
proof (cases "build_node_map K nodes root")
  case (Some b)
  then show ?thesis using assms that by (cases "rlp_decode b") (simp_all add: mpt_verify_def Let_def)
qed (use assms in \<open>simp add: mpt_verify_def Let_def\<close>)

lemma mpt_verify_agree:
  assumes "mpt_verify K nodes root key = Inr v" "mpt_verify K nodes' root key = Inr v'"
    and "inj_on K (set nodes \<union> set nodes')"
  shows "v = v'"
proof -
  note agree = build_node_map_agree [OF assms(3)]
  from assms(1) obtain b i where b: "build_node_map K nodes root = Some b" "rlp_decode b = Inr i"
    "mpt_walk i (to_nibbles (K key)) (build_node_map K nodes) 0 = Inr v" by (rule mpt_verify_Inr)
  from assms(2) obtain b' i' where b': "build_node_map K nodes' root = Some b'" "rlp_decode b' = Inr i'"
    "mpt_walk i' (to_nibbles (K key)) (build_node_map K nodes') 0 = Inr v'" by (rule mpt_verify_Inr)
  have "b = b'" using agree b(1) b'(1) by (auto simp: maps_agree_def)
  with b(2) b'(2) have "i = i'" by simp
  with mpt_walk_agree [OF agree b(3)] b'(3) show ?thesis by simp
qed

end
