(* ===== verification/Evm_Finality.thy ===== *)
theory Evm_Finality
  imports Mpt
begin

text \<open>
  How the bridge decides that an Ethereum block is final: by a chain of confirmation
  headers (\<^verbatim>\<open>src/cross_domain/evm/header.rs\<close>) and by the signature of a sync committee
  (\<^verbatim>\<open>src/cross_domain/evm/sync_committee.rs\<close>). SHA-256 and Keccak-256 are the parameters
  \<open>H\<close> and \<open>K\<close>; the curve arithmetic of the \<open>bls12_381\<close> crate is the parameter \<open>B\<close>,
  whose last field is the pairing check over the message hashed to the curve.
\<close>

unbundle bit_operations_syntax

subsection \<open>Headers\<close>

record eth_header =
  eh_parent_hash :: hash32
  eh_number :: u64
  eh_state_root :: hash32
  eh_receipts_root :: hash32
  eh_hash :: hash32

datatype header_error =
  HeaderRlp rlp_error | InvalidHeader | ChainBroken | InsufficientConfirmations | ZeroConfirmations

fun header_error_display :: "header_error \<Rightarrow> string" where
  "header_error_display (HeaderRlp e) = ''header rlp error: '' @ rlp_error_display e"
| "header_error_display InvalidHeader = ''header: invalid structure''"
| "header_error_display ChainBroken = ''header: chain broken''"
| "header_error_display InsufficientConfirmations = ''header: insufficient confirmations''"
| "header_error_display ZeroConfirmations = ''header: zero confirmations demanded''"

definition DEFAULT_CONFIRMATIONS :: u32 where
  "DEFAULT_CONFIRMATIONS = 64"

definition arr32 :: "bytes \<Rightarrow> header_error + hash32" where
  "arr32 b = (if length b \<noteq> 32 then Inl InvalidHeader else Inr b)"

text \<open>\<open>arr32(rlp::as_bytes(item)?)?\<close>\<close>

definition hash_field :: "rlp_item \<Rightarrow> header_error + hash32" where
  "hash_field item = (case rlp_as_bytes item of Inl e \<Rightarrow> Inl (HeaderRlp e) | Inr b \<Rightarrow> arr32 b)"

definition decode_header :: "hasher \<Rightarrow> bytes \<Rightarrow> header_error + eth_header" where
  "decode_header K raw =
     (case rlp_decode raw of
        Inl e \<Rightarrow> Inl (HeaderRlp e)
      | Inr (RString _) \<Rightarrow> Inl InvalidHeader
      | Inr (RList flds) \<Rightarrow>
          if length flds < 9 then Inl InvalidHeader
          else case hash_field (flds ! 0) of
            Inl e \<Rightarrow> Inl e
          | Inr parent_hash \<Rightarrow>
              (case hash_field (flds ! 3) of
                 Inl e \<Rightarrow> Inl e
               | Inr state_root \<Rightarrow>
                   (case hash_field (flds ! 5) of
                      Inl e \<Rightarrow> Inl e
                    | Inr receipts_root \<Rightarrow>
                        (case decode_uint (flds ! 8) of
                           Inl e \<Rightarrow> Inl (HeaderRlp e)
                         | Inr number \<Rightarrow>
                             Inr \<lparr> eh_parent_hash = parent_hash, eh_number = number, eh_state_root = state_root,
                                   eh_receipts_root = receipts_root, eh_hash = K raw \<rparr>))))"

text \<open>The loop over the confirmations, from the hash and number of the header below.\<close>

fun check_links :: "hash32 \<Rightarrow> u64 \<Rightarrow> eth_header list \<Rightarrow> header_error + unit" where
  "check_links prev_hash prev_number [] = Inr ()"
| "check_links prev_hash prev_number (hdr # hdrs) =
     (if eh_parent_hash hdr \<noteq> prev_hash then Inl ChainBroken
      else if Some (eh_number hdr) \<noteq> checked_add prev_number 1 then Inl ChainBroken
      else check_links (eh_hash hdr) (eh_number hdr) hdrs)"

definition verify_chain :: "eth_header \<Rightarrow> eth_header list \<Rightarrow> u32 \<Rightarrow> header_error + unit" where
  "verify_chain target confirmations required =
     (if required = 0 then Inl ZeroConfirmations
      else if (of_nat (length confirmations) :: u32) < required then Inl InsufficientConfirmations
      else check_links (eh_hash target) (eh_number target) confirmations)"

subsection \<open>The sync committee\<close>

datatype sync_committee_error =
  InvalidPubkey | InvalidSignature
| InsufficientParticipation (participating: nat) (sync_threshold: nat)
| SignatureVerificationFailed | StateMismatch | HeaderMismatch | ExecutionBlockNotInBeaconBody
| PeriodMismatch (slot_period: u64) (state_period: u64)

definition SYNC_COMMITTEE_SIZE :: nat where
  "SYNC_COMMITTEE_SIZE = 512"

definition PARTICIPATION_THRESHOLD :: nat where
  "PARTICIPATION_THRESHOLD = SYNC_COMMITTEE_SIZE * 2 div 3 + 1"

record sync_committee_state =
  current_period :: u64
  current_sync_committee :: "bytes list"
  next_sync_committee :: "bytes list"

record sync_aggregate =
  sync_committee_bits :: bytes
  sync_committee_signature :: bytes

definition count_ones :: "u8 \<Rightarrow> nat" where
  "count_ones b = length (filter (bit b) [0..<8])"

definition participation_count :: "sync_aggregate \<Rightarrow> nat" where
  "participation_count agg = sum_list (map count_ones (sync_committee_bits agg))"

definition sync_signed :: "sync_aggregate \<Rightarrow> nat \<Rightarrow> bool" where
  "sync_signed agg index =
     (if index \<ge> SYNC_COMMITTEE_SIZE then False
      else drop_bit (index mod 8) (sync_committee_bits agg ! (index div 8)) AND 1 = 1)"

record ('p, 'q) bls =
  g1_from_compressed :: "bytes \<Rightarrow> 'p option"
  g1_is_torsion_free :: "'p \<Rightarrow> bool"
  g1_is_identity :: "'p \<Rightarrow> bool"
  g1_identity :: 'p
  g1_add :: "'p \<Rightarrow> 'p \<Rightarrow> 'p"
  g2_from_compressed :: "bytes \<Rightarrow> 'q option"
  g2_is_torsion_free :: "'q \<Rightarrow> bool"
  g2_is_identity :: "'q \<Rightarrow> bool"
  pairing_holds :: "'p \<Rightarrow> bytes \<Rightarrow> 'q \<Rightarrow> bool"

fun sum_signers ::
  "('p, 'q) bls \<Rightarrow> sync_aggregate \<Rightarrow> nat \<Rightarrow> bytes list \<Rightarrow> 'p \<Rightarrow> sync_committee_error + 'p" where
  "sum_signers B agg i [] acc = Inr acc"
| "sum_signers B agg i (pk # pks) acc =
     (if \<not> sync_signed agg i then sum_signers B agg (Suc i) pks acc
      else case g1_from_compressed B pk of
        None \<Rightarrow> Inl InvalidPubkey
      | Some point \<Rightarrow>
          if \<not> g1_is_torsion_free B point \<or> g1_is_identity B point then Inl InvalidPubkey
          else sum_signers B agg (Suc i) pks (g1_add B acc point))"

definition verify_sync_aggregate ::
  "('p, 'q) bls \<Rightarrow> sync_committee_state \<Rightarrow> sync_aggregate \<Rightarrow> bytes \<Rightarrow> sync_committee_error + unit" where
  "verify_sync_aggregate B state agg signing_message =
     (let participating = participation_count agg in
      if participating < PARTICIPATION_THRESHOLD
      then Inl (InsufficientParticipation participating PARTICIPATION_THRESHOLD)
      else case sum_signers B agg 0 (current_sync_committee state) (g1_identity B) of
        Inl e \<Rightarrow> Inl e
      | Inr agg_pk \<Rightarrow>
          if g1_is_identity B agg_pk then Inl InvalidPubkey
          else case g2_from_compressed B (sync_committee_signature agg) of
            None \<Rightarrow> Inl InvalidSignature
          | Some sig \<Rightarrow>
              if \<not> g2_is_torsion_free B sig \<or> g2_is_identity B sig then Inl InvalidSignature
              else if \<not> pairing_holds B agg_pk signing_message sig then Inl SignatureVerificationFailed
              else Inr ())"

subsection \<open>From the signed beacon header to the execution block\<close>

definition SLOTS_PER_SYNC_COMMITTEE_PERIOD :: u64 where
  "SLOTS_PER_SYNC_COMMITTEE_PERIOD = 256 * 32"

definition DOMAIN_SYNC_COMMITTEE :: bytes where
  "DOMAIN_SYNC_COMMITTEE = [7, 0, 0, 0]"

definition EXECUTION_BLOCK_HASH_GINDEX :: nat where
  "EXECUTION_BLOCK_HASH_GINDEX = 812"

record beacon_chain_params =
  fork_version :: bytes
  genesis_validators_root :: hash32

record beacon_binding =
  bb_slot :: u64
  bb_proposer_index :: u64
  bb_parent_root :: hash32
  bb_state_root :: hash32
  bb_body_root :: hash32
  bb_branch :: "hash32 list"

definition sha256_pair :: "hasher \<Rightarrow> hash32 \<Rightarrow> hash32 \<Rightarrow> hash32" where
  "sha256_pair H left right = H (left @ right)"

definition u64_chunk :: "u64 \<Rightarrow> hash32" where
  "u64_chunk value = le_bytes 8 value @ replicate 24 0"

fun pair_layer :: "hasher \<Rightarrow> hash32 list \<Rightarrow> hash32 list" where
  "pair_layer H (a # b # cs) = sha256_pair H a b # pair_layer H cs"
| "pair_layer H _ = []"

lemma length_pair_layer: "length (pair_layer H layer) = length layer div 2"
  by (induction H layer rule: pair_layer.induct) simp_all

function fold_layers :: "hasher \<Rightarrow> hash32 list \<Rightarrow> hash32 list" where
  "fold_layers H layer = (if length layer > 1 then fold_layers H (pair_layer H layer) else layer)"
  by pat_completeness auto
termination by (relation "measure (\<lambda>(H, layer). length layer)") (auto simp: length_pair_layer)

declare fold_layers.simps [simp del]

function next_width :: "nat \<Rightarrow> nat \<Rightarrow> nat" where
  "next_width n width = (if width < n \<and> 0 < width then next_width n (2 * width) else width)"
  by pat_completeness auto
termination by (relation "measure (\<lambda>(n, width). n - width)") auto

declare next_width.simps [simp del]

definition merkleize_chunks :: "hasher \<Rightarrow> hash32 list \<Rightarrow> hash32" where
  "merkleize_chunks H chunks =
     (let width = next_width (length chunks) 1;
          layer = chunks @ replicate (width - length chunks) (replicate 32 0)
      in case fold_layers H layer of [] \<Rightarrow> replicate 32 0 | root # _ \<Rightarrow> root)"

definition binding_period :: "beacon_binding \<Rightarrow> u64" where
  "binding_period b = bb_slot b div SLOTS_PER_SYNC_COMMITTEE_PERIOD"

definition beacon_header_root :: "hasher \<Rightarrow> beacon_binding \<Rightarrow> hash32" where
  "beacon_header_root H b =
     merkleize_chunks H [u64_chunk (bb_slot b), u64_chunk (bb_proposer_index b), bb_parent_root b,
                         bb_state_root b, bb_body_root b]"

definition signing_root :: "hasher \<Rightarrow> beacon_binding \<Rightarrow> beacon_chain_params \<Rightarrow> hash32" where
  "signing_root H b params =
     (let fork_version_chunk = fork_version params @ replicate 28 0;
          fork_data_root = sha256_pair H fork_version_chunk (genesis_validators_root params);
          domain = DOMAIN_SYNC_COMMITTEE @ take 28 fork_data_root
      in sha256_pair H (beacon_header_root H b) domain)"

fun climb_branch :: "hasher \<Rightarrow> nat \<Rightarrow> nat \<Rightarrow> hash32 \<Rightarrow> hash32 list \<Rightarrow> hash32" where
  "climb_branch H index level node [] = node"
| "climb_branch H index level node (sibling # siblings) =
     climb_branch H index (Suc level)
       (if odd (index div 2 ^ level) then sha256_pair H sibling node else sha256_pair H node sibling) siblings"

text \<open>\<open>812.ilog2()\<close> is 9, so the leaf index below the body root is \<open>812 - 512\<close>.\<close>

definition commits_to_execution_block :: "hasher \<Rightarrow> beacon_binding \<Rightarrow> hash32 \<Rightarrow> bool" where
  "commits_to_execution_block H b execution_block_hash =
     (let depth = 9; index = EXECUTION_BLOCK_HASH_GINDEX - 2 ^ depth
      in if length (bb_branch b) \<noteq> depth then False
         else climb_branch H index 0 execution_block_hash (bb_branch b) = bb_body_root b)"

definition verify_execution_block_finality ::
  "hasher \<Rightarrow> ('p, 'q) bls \<Rightarrow> sync_committee_state \<Rightarrow> sync_aggregate \<Rightarrow> beacon_binding \<Rightarrow> beacon_chain_params \<Rightarrow>
   hash32 \<Rightarrow> sync_committee_error + unit" where
  "verify_execution_block_finality H B state agg b params execution_block_hash =
     (if \<not> commits_to_execution_block H b execution_block_hash then Inl ExecutionBlockNotInBeaconBody
      else if binding_period b \<noteq> current_period state
      then Inl (PeriodMismatch (binding_period b) (current_period state))
      else verify_sync_aggregate B state agg (signing_root H b params))"

definition rotate_period :: "sync_committee_state \<Rightarrow> sync_committee_state" where
  "rotate_period state =
     state\<lparr> current_sync_committee := next_sync_committee state, current_period := sat_add (current_period state) 1 \<rparr>"

subsection \<open>What a confirmed chain is\<close>

lemma check_links_ok:
  "check_links ph pn hs = Inr () \<longleftrightarrow>
     (\<forall>i < length hs. eh_parent_hash (hs ! i) = (ph # map eh_hash hs) ! i \<and> unat (eh_number (hs ! i)) = unat pn + Suc i)"
proof (induction hs arbitrary: ph pn)
  case (Cons h hs)
  have "Some (eh_number h) = checked_add pn 1 \<longleftrightarrow> unat (eh_number h) = Suc (unat pn)"
    using unat_lt64 [of "eh_number h"] by (auto simp: checked_add_def unat_word_ariths word_unat_eq_iff)
  then have "check_links ph pn (h # hs) = Inr () \<longleftrightarrow>
      eh_parent_hash h = ph \<and> unat (eh_number h) = Suc (unat pn) \<and> check_links (eh_hash h) (eh_number h) hs = Inr ()"
    by auto
  also have "\<dots> \<longleftrightarrow> (\<forall>i < length (h # hs). eh_parent_hash ((h # hs) ! i) = (ph # map eh_hash (h # hs)) ! i
      \<and> unat (eh_number ((h # hs) ! i)) = unat pn + Suc i)"
    unfolding Cons.IH by (auto simp: All_less_Suc2)
  finally show ?case .
qed simp

lemma verify_chain_ok:
  "verify_chain target confs required = Inr () \<longleftrightarrow>
     required \<noteq> 0 \<and> required \<le> of_nat (length confs) \<and> check_links (eh_hash target) (eh_number target) confs = Inr ()"
  by (auto simp: verify_chain_def)

lemma of_nat_len_le: "required \<le> (of_nat n :: u32) \<Longrightarrow> unat required \<le> n"
  unfolding word_le_nat_alt unat_of_nat by (erule le_trans) (rule mod_less_eq_dividend)

subsection \<open>Counting the signers\<close>

lemma drop_bit_and_one: "drop_bit n b AND 1 = 1 \<longleftrightarrow> bit b n" for b :: u8
  by (simp add: and_one_eq bit_iff_odd_drop_bit odd_iff_mod_2_eq_one)

lemma participation_filter:
  "sum_list (map count_ones bs) = length (filter (\<lambda>i. bit (bs ! (i div 8)) (i mod 8)) [0..<8 * length bs])"
proof (induction bs rule: rev_induct)
  case (snoc b bs)
  let ?n = "8 * length bs" and ?P = "\<lambda>i. bit ((bs @ [b]) ! (i div 8)) (i mod 8)"
  have "filter ?P [0..<?n] = filter (\<lambda>i. bit (bs ! (i div 8)) (i mod 8)) [0..<?n]"
    by (rule filter_cong) (auto simp: nth_append less_mult_imp_div_less mult.commute)
  moreover have "length (filter ?P (map (\<lambda>i. i + ?n) [0..<8])) = count_ones b"
  proof -
    have "filter (?P \<circ> (\<lambda>i. i + ?n)) [0..<8] = filter (bit b) [0..<8]"
    proof (rule filter_cong [OF refl])
      fix i assume "i \<in> set [0..<8 :: nat]"
      then have "(i + ?n) div 8 = length bs" "(i + ?n) mod 8 = i" by (simp_all del: upt_rec_numeral)
      then show "(?P \<circ> (\<lambda>i. i + ?n)) i = bit b i" by simp
    qed
    then show ?thesis by (simp add: filter_map count_ones_def del: upt_rec_numeral)
  qed
  moreover have "[0..<8 * length (bs @ [b])] = [0..<?n] @ map (\<lambda>i. i + ?n) [0..<8]"
    using upt_add_eq_append [of 0 ?n 8] by (simp add: map_add_upt add.commute del: upt_rec_numeral)
  ultimately show ?case using snoc by (simp del: upt_rec_numeral)
qed simp

lemma participation_card:
  assumes "length (sync_committee_bits agg) = 64"
  shows "participation_count agg = card {i. sync_signed agg i}"
proof -
  let ?P = "\<lambda>i. bit (sync_committee_bits agg ! (i div 8)) (i mod 8)"
  have "participation_count agg = card (set (filter ?P [0..<512]))"
    using assms distinct_card [of "filter ?P [0..<512]"] by (simp add: participation_count_def participation_filter del: set_filter upt_rec_numeral)
  also have "set (filter ?P [0..<512]) = {i. sync_signed agg i}"
    by (auto simp: sync_signed_def drop_bit_and_one SYNC_COMMITTEE_SIZE_def simp del: upt_rec_numeral)
  finally show ?thesis .
qed

lemma sum_signers_valid:
  assumes "sum_signers B agg i pks acc = Inr apk" "j < length pks" "sync_signed agg (i + j)"
  shows "\<exists>point. g1_from_compressed B (pks ! j) = Some point \<and> g1_is_torsion_free B point \<and> \<not> g1_is_identity B point"
  using assms
proof (induction pks arbitrary: i j acc)
  case (Cons pk pks)
  show ?case
  proof (cases j)
    case 0
    with Cons.prems show ?thesis by (auto split: option.splits if_splits)
  next
    case (Suc k)
    with Cons.prems obtain acc' where "sum_signers B agg (Suc i) pks acc' = Inr apk"
      by (auto split: if_splits option.splits)
    from Cons.IH [OF this, of k] Suc Cons.prems(2,3) show ?thesis by simp
  qed
qed simp

subsection \<open>A branch proves one leaf\<close>

text \<open>The bytes the climb hashes at one level, and all of them.\<close>

definition climb_pre :: "nat \<Rightarrow> nat \<Rightarrow> hash32 \<Rightarrow> hash32 \<Rightarrow> bytes" where
  "climb_pre index level node sibling = (if odd (index div 2 ^ level) then sibling @ node else node @ sibling)"

fun climb_hashed :: "hasher \<Rightarrow> nat \<Rightarrow> nat \<Rightarrow> hash32 \<Rightarrow> hash32 list \<Rightarrow> bytes set" where
  "climb_hashed H index level node [] = {}"
| "climb_hashed H index level node (sibling # siblings) =
     insert (climb_pre index level node sibling)
       (climb_hashed H index (Suc level) (H (climb_pre index level node sibling)) siblings)"

lemma climb_branch_Cons:
  "climb_branch H index level node (s # ss) = climb_branch H index (Suc level) (H (climb_pre index level node s)) ss"
  by (simp add: climb_pre_def sha256_pair_def)

lemma climb_pre_inj:
  "climb_pre index level n s = climb_pre index level n' s' \<Longrightarrow> length n = length n' \<Longrightarrow> length s = length s' \<Longrightarrow>
   n = n' \<and> s = s'"
  by (simp add: climb_pre_def split: if_splits)

lemma climb_branch_inj:
  assumes "climb_branch H index level node ss = climb_branch H index level node' ss'"
    and "length ss = length ss'" "length node = 32" "length node' = 32" "\<forall>s \<in> set ss \<union> set ss'. length s = 32"
    and H: "\<forall>x. length (H x) = 32"
    and "inj_on H (climb_hashed H index level node ss \<union> climb_hashed H index level node' ss')"
  shows "node = node' \<and> ss = ss'"
  using assms(1-5,7)
proof (induction ss arbitrary: ss' level node node')
  case (Cons s ss)
  from Cons.prems(2) obtain s' ts where ss': "ss' = s' # ts" by (cases ss') auto
  define p p' where "p = climb_pre index level node s" and "p' = climb_pre index level node' s'"
  have up: "climb_branch H index (Suc level) (H p) ss = climb_branch H index (Suc level) (H p') ts"
    using Cons.prems(1) unfolding ss' climb_branch_Cons p_def p'_def .
  have inj: "inj_on H (climb_hashed H index (Suc level) (H p) ss \<union> climb_hashed H index (Suc level) (H p') ts)"
    by (rule inj_on_subset [OF Cons.prems(6)]) (auto simp: ss' p_def p'_def)
  have "H p = H p' \<and> ss = ts"
    using Cons.prems(2,5) H ss' by (intro Cons.IH [OF up _ _ _ _ inj]) simp_all
  moreover from this have "p = p'"
    using inj_onD [OF Cons.prems(6), of p p'] by (simp add: ss' p_def p'_def)
  moreover have "length node = length node'" "length s = length s'" using Cons.prems(3,4,5) ss' by simp_all
  ultimately show ?case using climb_pre_inj [of index level node s node' s'] by (simp add: ss' p_def p'_def)
next
  case Nil
  from Nil(1,2) show ?case by simp
qed

end
