(* ===== verification/Chain_Adapter.thy ===== *)
theory Chain_Adapter
  imports Cross_Domain_Message
begin

text \<open>
  External chains and their adapters: \<^verbatim>\<open>ExternalChain\<close> and \<^verbatim>\<open>RelayerExternalResult\<close> of
  \<^verbatim>\<open>src/core/transaction.rs\<close>, the adapter trait and the registry of
  \<^verbatim>\<open>src/cross_domain/chain_adapter.rs\<close>. A boxed adapter is the record of the methods the
  registry and the signing path call; its asynchronous methods, which talk to an external
  chain, are not part of the record. The \<open>bincode\<close> decoder of a Merkle proof is a parameter that
  takes the byte limit and returns its message when it refuses. A \<open>String\<close> is the list of its
  bytes as characters.
\<close>

subsection \<open>Chains and results\<close>

datatype external_chain =
  Ethereum | Solana | Bitcoin | Avalanche | Polygon | Arbitrum | Optimism | CustomChain u32

fun chain_domain_id :: "external_chain \<Rightarrow> u32" where
  "chain_domain_id Ethereum = 1"
| "chain_domain_id Solana = 2"
| "chain_domain_id Bitcoin = 3"
| "chain_domain_id Avalanche = 4"
| "chain_domain_id Polygon = 5"
| "chain_domain_id Arbitrum = 6"
| "chain_domain_id Optimism = 7"
| "chain_domain_id (CustomChain i) = i"

text \<open>The derived \<open>Debug\<close> form, which two adapter errors print.\<close>

fun chain_debug :: "external_chain \<Rightarrow> string" where
  "chain_debug Ethereum = ''Ethereum''"
| "chain_debug Solana = ''Solana''"
| "chain_debug Bitcoin = ''Bitcoin''"
| "chain_debug Avalanche = ''Avalanche''"
| "chain_debug Polygon = ''Polygon''"
| "chain_debug Arbitrum = ''Arbitrum''"
| "chain_debug Optimism = ''Optimism''"
| "chain_debug (CustomChain i) = ''Custom('' @ decimal (unat i) @ '')''"

record external_transaction =
  ext_chain :: external_chain
  ext_target_address :: string
  ext_payload :: bytes
  ext_nonce :: u64

record relayer_external_result =
  rr_chain :: external_chain
  rr_tx_hash :: string
  rr_success :: bool
  rr_message :: "cross_domain_message option"
  rr_receipt_proof :: bytes
  rr_external_state_root :: hash32

text \<open>\<open>chain_bytes\<close> is the serialised chain, or the marker that replaces it when that fails.\<close>

definition result_leaf :: "hasher \<Rightarrow> (external_chain \<Rightarrow> bytes) \<Rightarrow> relayer_external_result \<Rightarrow> hash32" where
  "result_leaf H chain_bytes r =
     H (ascii ''BDLM_RELAYER_RESULT_V2'' @ chain_bytes (rr_chain r) @ ascii (rr_tx_hash r)
        @ [if rr_success r then 1 else 0]
        @ (case rr_message r of None \<Rightarrow> [] | Some msg \<Rightarrow> msg_id msg))"

subsection \<open>The trait\<close>

datatype adapter_error =
  UnsupportedChain external_chain | ConnectionFailed string | TransactionNotFound string
| ProofGenerationFailed string | ProofVerificationFailed string | SubmissionFailed string
| ConfirmationTimeout | OtherAdapterError string | DuplicateChainAdapter external_chain

fun adapter_error_display :: "adapter_error \<Rightarrow> string" where
  "adapter_error_display (UnsupportedChain chain) = ''unsupported chain: '' @ chain_debug chain"
| "adapter_error_display (ConnectionFailed msg) = ''connection failed: '' @ msg"
| "adapter_error_display (TransactionNotFound hash) = ''transaction not found: '' @ hash"
| "adapter_error_display (ProofGenerationFailed msg) = ''proof generation failed: '' @ msg"
| "adapter_error_display (ProofVerificationFailed msg) = ''proof verification failed: '' @ msg"
| "adapter_error_display (SubmissionFailed msg) = ''submission failed: '' @ msg"
| "adapter_error_display ConfirmationTimeout = ''confirmation timeout''"
| "adapter_error_display (OtherAdapterError msg) = ''adapter error: '' @ msg"
| "adapter_error_display (DuplicateChainAdapter chain) = ''duplicate adapter for chain: '' @ chain_debug chain"

definition MAX_RECEIPT_PROOF_BYTES :: u64 where
  "MAX_RECEIPT_PROOF_BYTES = 4 * 1024"

record chain_adapter =
  chain_type :: external_chain
  fit_for_relay :: "adapter_error + unit"
  receipt_proof_check :: "merkle_proof_data \<Rightarrow> hash32 \<Rightarrow> string \<Rightarrow> adapter_error + unit"
  observation_check :: "relayer_external_result \<Rightarrow> adapter_error + unit"

text \<open>The default bodies of the trait, over an adapter's own receipt check.\<close>

definition default_verify_observation ::
  "(u64 \<Rightarrow> bytes \<Rightarrow> string + merkle_proof_data) \<Rightarrow>
   (merkle_proof_data \<Rightarrow> hash32 \<Rightarrow> string \<Rightarrow> adapter_error + unit) \<Rightarrow>
   relayer_external_result \<Rightarrow> adapter_error + unit" where
  "default_verify_observation de verify_receipt_proof result =
     (case de MAX_RECEIPT_PROOF_BYTES (rr_receipt_proof result) of
        Inl e \<Rightarrow> Inl (ProofVerificationFailed
          (''adapter returned a receipt proof that does not decode within ''
           @ decimal (unat MAX_RECEIPT_PROOF_BYTES) @ '' bytes: '' @ e))
      | Inr prf \<Rightarrow> verify_receipt_proof prf (rr_external_state_root result) (rr_tx_hash result))"

definition default_check_fit_for_relay :: "adapter_error + unit" where
  "default_check_fit_for_relay = Inr ()"

subsection \<open>The registry\<close>

type_synonym adapter_registry = "chain_adapter list"

definition adapter_registry_new :: adapter_registry where
  "adapter_registry_new = []"

definition register_adapter ::
  "chain_adapter \<Rightarrow> adapter_registry \<Rightarrow> (adapter_error, unit, adapter_registry) outcome" where
  "register_adapter adapter adapters =
     (if list_ex (\<lambda>existing. chain_type existing = chain_type adapter) adapters
      then (Inl (DuplicateChainAdapter (chain_type adapter)), adapters)
      else case fit_for_relay adapter of
        Inl e \<Rightarrow> (Inl e, adapters)
      | Inr _ \<Rightarrow> (Inr (), adapters @ [adapter]))"

definition get_adapter :: "adapter_registry \<Rightarrow> external_chain \<Rightarrow> chain_adapter option" where
  "get_adapter adapters chain = List.find (\<lambda>a. chain_type a = chain) adapters"

definition supports_chain :: "adapter_registry \<Rightarrow> external_chain \<Rightarrow> bool" where
  "supports_chain adapters chain = (get_adapter adapters chain \<noteq> None)"

definition supported_chains :: "adapter_registry \<Rightarrow> external_chain list" where
  "supported_chains adapters = map chain_type adapters"

text \<open>One adapter for a chain, and each of them fit to relay.\<close>

definition adapters_ok :: "adapter_registry \<Rightarrow> bool" where
  "adapters_ok adapters \<longleftrightarrow>
     distinct (supported_chains adapters) \<and> list_all (\<lambda>a. fit_for_relay a = Inr ()) adapters"

lemma register_adapter_ok: "adapters_ok as \<Longrightarrow> adapters_ok (snd (register_adapter a as))"
  by (auto simp: adapters_ok_def supported_chains_def register_adapter_def list_ex_iff list_all_iff
        split: sum.splits)

lemma get_adapter_unique:
  "adapters_ok as \<Longrightarrow> a \<in> set as \<Longrightarrow> get_adapter as (chain_type a) = Some a"
  unfolding adapters_ok_def supported_chains_def get_adapter_def by (induction as) auto

lemma supports_chain_iff: "supports_chain as c \<longleftrightarrow> c \<in> set (supported_chains as)"
  unfolding supports_chain_def supported_chains_def get_adapter_def by (induction as) auto

definition adapters_init :: "adapter_registry \<Rightarrow> bool" where
  "adapters_init as \<longleftrightarrow> as = adapter_registry_new"

definition adapters_step :: "adapter_registry \<Rightarrow> adapter_registry \<Rightarrow> bool" where
  "adapters_step as bs \<longleftrightarrow> (\<exists>a. bs = snd (register_adapter a as))"

interpretation adapters_safe: inductive_invariant adapters_init adapters_step adapters_ok
  by unfold_locales
     (auto simp: adapters_init_def adapters_step_def adapter_registry_new_def register_adapter_ok
        adapters_ok_def [of "[]"] supported_chains_def)

end
