(* ===== verification/Evm_Deposit.thy ===== *)
theory Evm_Deposit
  imports Evm_Finality Chain_Adapter Bridge
begin

text \<open>
  Deposits from Ethereum and claims towards it: receipts (\<^verbatim>\<open>src/cross_domain/evm/receipt.rs\<close>),
  the end-to-end verifier (\<^verbatim>\<open>verify.rs\<close>), the adapter that binds an observation to it
  (\<^verbatim>\<open>adapter.rs\<close>, its deterministic part) and the claim built from a burn
  (\<^verbatim>\<open>bud_to_eth.rs\<close>). A \<open>String\<close> is the list of its bytes as characters. The
  \<open>bincode\<close> decoder of a deposit package is the parameter \<open>de\<close>, which takes the byte limit and
  returns the decoder's message when it refuses.
\<close>

subsection \<open>Receipts\<close>

record eth_log =
  log_address :: bytes
  log_topics :: "hash32 list"
  log_data :: bytes

record eth_receipt =
  rc_status :: bool
  rc_logs :: "eth_log list"

datatype receipt_error = ReceiptRlp rlp_error | InvalidEnvelope | InvalidLog

fun receipt_error_display :: "receipt_error \<Rightarrow> string" where
  "receipt_error_display (ReceiptRlp e) = ''receipt rlp error: '' @ rlp_error_display e"
| "receipt_error_display InvalidEnvelope = ''receipt: invalid envelope''"
| "receipt_error_display InvalidLog = ''receipt: invalid log''"

definition decode_status :: "bytes \<Rightarrow> receipt_error + bool" where
  "decode_status b =
     (if length b = 0 then Inr False
      else if length b = 1 then Inr (b ! 0 \<noteq> 0)
      else if length b = 32 then Inr True
      else Inl InvalidEnvelope)"

fun decode_topics :: "rlp_item list \<Rightarrow> receipt_error + hash32 list" where
  "decode_topics [] = Inr []"
| "decode_topics (t # ts) =
     (case rlp_as_bytes t of
        Inl e \<Rightarrow> Inl (ReceiptRlp e)
      | Inr tb \<Rightarrow>
          if length tb \<noteq> 32 then Inl InvalidLog
          else case decode_topics ts of Inl e \<Rightarrow> Inl e | Inr topics \<Rightarrow> Inr (tb # topics))"

fun decode_log :: "rlp_item \<Rightarrow> receipt_error + eth_log" where
  "decode_log (RString _) = Inl InvalidLog"
| "decode_log (RList flds) =
     (if length flds \<noteq> 3 then Inl InvalidLog
      else case rlp_as_bytes (flds ! 0) of
        Inl e \<Rightarrow> Inl (ReceiptRlp e)
      | Inr address \<Rightarrow>
          (case flds ! 1 of
             RString _ \<Rightarrow> Inl InvalidLog
           | RList ts \<Rightarrow>
               (case decode_topics ts of
                  Inl e \<Rightarrow> Inl e
                | Inr topics \<Rightarrow>
                    (case rlp_as_bytes (flds ! 2) of
                       Inl e \<Rightarrow> Inl (ReceiptRlp e)
                     | Inr data \<Rightarrow> Inr \<lparr> log_address = address, log_topics = topics, log_data = data \<rparr>))))"

fun decode_log_list :: "rlp_item list \<Rightarrow> receipt_error + eth_log list" where
  "decode_log_list [] = Inr []"
| "decode_log_list (l # ls) =
     (case decode_log l of
        Inl e \<Rightarrow> Inl e
      | Inr log \<Rightarrow> (case decode_log_list ls of Inl e \<Rightarrow> Inl e | Inr logs \<Rightarrow> Inr (log # logs)))"

fun decode_logs :: "rlp_item \<Rightarrow> receipt_error + eth_log list" where
  "decode_logs (RString _) = Inl InvalidLog"
| "decode_logs (RList logs) = decode_log_list logs"

definition decode_receipt :: "bytes \<Rightarrow> receipt_error + eth_receipt" where
  "decode_receipt envelope =
     (if envelope = [] then Inl InvalidEnvelope
      else let payload = (if envelope ! 0 \<ge> 0xc0 then envelope else drop 1 envelope) in
        case rlp_decode payload of
          Inl e \<Rightarrow> Inl (ReceiptRlp e)
        | Inr (RString _) \<Rightarrow> Inl InvalidEnvelope
        | Inr (RList flds) \<Rightarrow>
            if length flds < 4 then Inl InvalidEnvelope
            else case rlp_as_bytes (flds ! 0) of
              Inl e \<Rightarrow> Inl (ReceiptRlp e)
            | Inr b \<Rightarrow>
                (case decode_status b of
                   Inl e \<Rightarrow> Inl e
                 | Inr status \<Rightarrow>
                     (case decode_logs (flds ! 3) of
                        Inl e \<Rightarrow> Inl e
                      | Inr logs \<Rightarrow> Inr \<lparr> rc_status = status, rc_logs = logs \<rparr>)))"

definition log_matches :: "bytes \<Rightarrow> hash32 \<Rightarrow> eth_log \<Rightarrow> bool" where
  "log_matches emitter topic0 log =
     (log_address log = emitter \<and> (case log_topics log of [] \<Rightarrow> False | t # _ \<Rightarrow> t = topic0))"

definition find_log :: "eth_receipt \<Rightarrow> bytes \<Rightarrow> hash32 \<Rightarrow> eth_log option" where
  "find_log r emitter topic0 = List.find (log_matches emitter topic0) (rc_logs r)"

subsection \<open>The deposit proof\<close>

datatype verify_error =
  VerifyHeader string | VerifyMpt mpt_error | VerifyReceipt receipt_error | TxFailed | EmptyTransactionHash
| LogNotFound | PayloadMismatch | VerifySyncCommittee sync_committee_error

fun sync_committee_error_display :: "sync_committee_error \<Rightarrow> string" where
  "sync_committee_error_display InvalidPubkey = ''sync: invalid pubkey''"
| "sync_committee_error_display InvalidSignature = ''sync: invalid signature''"
| "sync_committee_error_display (InsufficientParticipation n t) =
     ''sync: participation '' @ decimal n @ '' < threshold '' @ decimal t @ '' (2/3)''"
| "sync_committee_error_display SignatureVerificationFailed = ''sync: BLS signature verification failed''"
| "sync_committee_error_display StateMismatch = ''sync: light-client state mismatch''"
| "sync_committee_error_display HeaderMismatch = ''sync: header mismatch''"
| "sync_committee_error_display ExecutionBlockNotInBeaconBody =
     ''sync: the signed beacon header does not commit to the execution block''"
| "sync_committee_error_display (PeriodMismatch a b) =
     ''sync: beacon slot is in period '' @ decimal (unat a) @ '', committee state is for period '' @ decimal (unat b)"

fun verify_error_display :: "verify_error \<Rightarrow> string" where
  "verify_error_display (VerifyHeader m) = ''evm verify: header chain: '' @ m"
| "verify_error_display (VerifyMpt e) = ''evm verify: mpt: '' @ mpt_error_display e"
| "verify_error_display (VerifyReceipt e) = ''evm verify: receipt: '' @ receipt_error_display e"
| "verify_error_display TxFailed = ''evm verify: transaction status=false''"
| "verify_error_display EmptyTransactionHash = ''evm verify: transaction hash is empty''"
| "verify_error_display LogNotFound = ''evm verify: deposit log not found''"
| "verify_error_display PayloadMismatch = ''evm verify: deposit payload mismatch''"
| "verify_error_display (VerifySyncCommittee e) = ''evm verify: sync-committee: '' @ sync_committee_error_display e"

record verified_deposit =
  vd_tx_hash :: string
  vd_block_hash :: hash32
  vd_receipt_key :: bytes
  vd_deposit_log_data :: bytes
  vd_block_number :: u64
  vd_receipts_root :: hash32

record sync_attestation =
  sa_state :: sync_committee_state
  sa_aggregate :: sync_aggregate
  sa_beacon :: beacon_binding
  sa_chain :: beacon_chain_params

record evm_deposit_proof =
  dp_target_header :: bytes
  dp_confirmation_headers :: "bytes list"
  dp_required_confirmations :: u32
  dp_proof_nodes :: "bytes list"
  dp_receipt_key :: bytes
  dp_tx_hash :: string
  dp_emitter_address :: bytes
  dp_deposit_topic0 :: hash32
  dp_sync_attestation :: "sync_attestation option"

definition decode_header_or_err :: "hasher \<Rightarrow> bytes \<Rightarrow> verify_error + eth_header" where
  "decode_header_or_err K raw =
     (case decode_header K raw of Inl e \<Rightarrow> Inl (VerifyHeader (header_error_display e)) | Inr h \<Rightarrow> Inr h)"

text \<open>\<open>iter().map(..).collect::<Result<Vec<_>, _>>()\<close>: the first error, or all the headers.\<close>

fun decode_headers :: "hasher \<Rightarrow> bytes list \<Rightarrow> verify_error + eth_header list" where
  "decode_headers K [] = Inr []"
| "decode_headers K (raw # raws) =
     (case decode_header_or_err K raw of
        Inl e \<Rightarrow> Inl e
      | Inr h \<Rightarrow> (case decode_headers K raws of Inl e \<Rightarrow> Inl e | Inr hs \<Rightarrow> Inr (h # hs)))"

definition check_attestation ::
  "hasher \<Rightarrow> ('p, 'q) bls \<Rightarrow> sync_attestation option \<Rightarrow> hash32 \<Rightarrow> verify_error + unit" where
  "check_attestation H B att block_hash =
     (case att of
        None \<Rightarrow> Inr ()
      | Some a \<Rightarrow>
          (case verify_execution_block_finality H B (sa_state a) (sa_aggregate a) (sa_beacon a) (sa_chain a) block_hash of
             Inl e \<Rightarrow> Inl (VerifySyncCommittee e)
           | Inr _ \<Rightarrow> Inr ()))"

definition verify_evm_receipt ::
  "hasher \<Rightarrow> hasher \<Rightarrow> ('p, 'q) bls \<Rightarrow> evm_deposit_proof \<Rightarrow> verify_error + verified_deposit" where
  "verify_evm_receipt H K B prf =
     (if dp_tx_hash prf = [] then Inl EmptyTransactionHash
      else case decode_header_or_err K (dp_target_header prf) of
        Inl e \<Rightarrow> Inl e
      | Inr target \<Rightarrow>
      (case decode_headers K (dp_confirmation_headers prf) of
        Inl e \<Rightarrow> Inl e
      | Inr confs \<Rightarrow>
      (case verify_chain target confs (dp_required_confirmations prf) of
        Inl e \<Rightarrow> Inl (VerifyHeader (header_error_display e))
      | Inr _ \<Rightarrow>
      (case mpt_verify K (dp_proof_nodes prf) (eh_receipts_root target) (dp_receipt_key prf) of
        Inl e \<Rightarrow> Inl (VerifyMpt e)
      | Inr receipt_bytes \<Rightarrow>
      (case decode_receipt receipt_bytes of
        Inl e \<Rightarrow> Inl (VerifyReceipt e)
      | Inr receipt \<Rightarrow>
          if \<not> rc_status receipt then Inl TxFailed
          else case find_log receipt (dp_emitter_address prf) (dp_deposit_topic0 prf) of
            None \<Rightarrow> Inl LogNotFound
          | Some log \<Rightarrow>
              (case check_attestation H B (dp_sync_attestation prf) (eh_hash target) of
                 Inl e \<Rightarrow> Inl e
               | Inr _ \<Rightarrow>
                   Inr \<lparr> vd_tx_hash = dp_tx_hash prf, vd_block_hash = eh_hash target,
                         vd_receipt_key = dp_receipt_key prf, vd_deposit_log_data = log_data log,
                         vd_block_number = eh_number target, vd_receipts_root = eh_receipts_root target \<rparr>))))))"

subsection \<open>The adapter\<close>

record evm_chain_adapter =
  ad_bridge_address :: bytes
  ad_deposit_topic0 :: hash32
  ad_required_confirmations :: u32

definition adapter_new :: "bytes \<Rightarrow> hash32 \<Rightarrow> evm_chain_adapter" where
  "adapter_new bridge_address deposit_topic0 =
     \<lparr> ad_bridge_address = bridge_address, ad_deposit_topic0 = deposit_topic0,
       ad_required_confirmations = DEFAULT_CONFIRMATIONS \<rparr>"

definition DEFAULT_DEPOSIT_TOPIC0 :: hash32 where
  "DEFAULT_DEPOSIT_TOPIC0 = replicate 32 0"

definition adapter_test_default :: evm_chain_adapter where
  "adapter_test_default = adapter_new (replicate 20 0) DEFAULT_DEPOSIT_TOPIC0"

definition check_fit_for_relay :: "evm_chain_adapter \<Rightarrow> string + unit" where
  "check_fit_for_relay ad =
     (if length (ad_bridge_address ad) \<noteq> 20
      then Inl (''EVM adapter bridge address must be exactly 20 bytes, got '' @ decimal (length (ad_bridge_address ad)))
      else if list_all (\<lambda>b. b = 0) (ad_bridge_address ad)
      then Inl (''EVM adapter has a zero bridge address: every receipt leaf binds to this address, so the node '' @
                ''would advertise Ethereum support while pointing at no contract'')
      else if ad_deposit_topic0 ad = replicate 32 0
      then Inl ''EVM adapter has a zero deposit topic: placeholder event configuration cannot relay value''
      else if ad_required_confirmations ad = 0
      then Inl (''EVM adapter requires zero confirmations: a deposit from a block that can still be reorged away '' @
                ''would be minted against a transaction that did not happen'')
      else Inr ())"

definition verify_deposit ::
  "hasher \<Rightarrow> hasher \<Rightarrow> ('p, 'q) bls \<Rightarrow> evm_chain_adapter \<Rightarrow> evm_deposit_proof \<Rightarrow> verify_error + verified_deposit" where
  "verify_deposit H K B ad prf =
     (if dp_required_confirmations prf < ad_required_confirmations ad
      then Inl (VerifyHeader (''proof demands '' @ decimal (unat (dp_required_confirmations prf))
             @ '' confirmations, adapter floor is '' @ decimal (unat (ad_required_confirmations ad))))
      else verify_evm_receipt H K B prf)"

definition derive_receipt_leaf :: "hasher \<Rightarrow> string \<Rightarrow> bytes \<Rightarrow> hash32" where
  "derive_receipt_leaf H tx_hash bridge_address =
     hash_fields_bytes H [ascii ''BDLM_EVM_RECEIPT_LEAF_V1'', ascii tx_hash, bridge_address]"

definition verify_receipt_proof ::
  "hasher \<Rightarrow> evm_chain_adapter \<Rightarrow> merkle_proof_data \<Rightarrow> hash32 \<Rightarrow> string \<Rightarrow> adapter_error + unit" where
  "verify_receipt_proof H ad prf external_state_root expected_tx_hash =
     (if proof_siblings prf = []
      then Inl (ProofVerificationFailed
        (''EVM receipt proof has no sibling path: a single-leaf tree proves only that the prover can '' @
         ''repeat itself, because leaf and root are then the same value''))
      else if \<not> proof_verify H prf external_state_root
      then Inl (ProofVerificationFailed ''EVM receipt Merkle proof does not verify against declared receipts root'')
      else if expected_tx_hash = []
      then Inl (ProofVerificationFailed ''EVM receipt proof requires non-empty tx_hash for receipt binding'')
      else if proof_leaf prf \<noteq> derive_receipt_leaf H expected_tx_hash (ad_bridge_address ad)
      then Inl (ProofVerificationFailed
        ''EVM receipt leaf does not match tx_hash + bridge binding (forgery reject)'')
      else Inr ())"

record deposit_proof_package =
  pk_target_header :: bytes
  pk_confirmation_headers :: "bytes list"
  pk_proof_nodes :: "bytes list"
  pk_receipt_key :: bytes
  pk_tx_hash :: string

definition MAX_DEPOSIT_PACKAGE_BYTES :: u64 where
  "MAX_DEPOSIT_PACKAGE_BYTES = 1024 * 1024"

definition package_proof :: "evm_chain_adapter \<Rightarrow> deposit_proof_package \<Rightarrow> evm_deposit_proof" where
  "package_proof ad pk =
     \<lparr> dp_target_header = pk_target_header pk, dp_confirmation_headers = pk_confirmation_headers pk,
       dp_required_confirmations = ad_required_confirmations ad, dp_proof_nodes = pk_proof_nodes pk,
       dp_receipt_key = pk_receipt_key pk, dp_tx_hash = pk_tx_hash pk,
       dp_emitter_address = ad_bridge_address ad, dp_deposit_topic0 = ad_deposit_topic0 ad,
       dp_sync_attestation = None \<rparr>"

definition verify_observation ::
  "hasher \<Rightarrow> hasher \<Rightarrow> ('p, 'q) bls \<Rightarrow> (u64 \<Rightarrow> bytes \<Rightarrow> string + deposit_proof_package) \<Rightarrow> evm_chain_adapter \<Rightarrow>
   relayer_external_result \<Rightarrow> adapter_error + unit" where
  "verify_observation H K B de ad result =
     (case de MAX_DEPOSIT_PACKAGE_BYTES (rr_receipt_proof result) of
        Inl e \<Rightarrow> Inl (ProofVerificationFailed
          (''EVM observation does not carry a deposit package (header chain, MPT nodes, receipt key): '' @ e @
           ''. A bare Merkle path is not accepted on this chain''))
      | Inr package \<Rightarrow>
          if pk_tx_hash package \<noteq> rr_tx_hash result
          then Inl (ProofVerificationFailed
            (''deposit package is for '' @ pk_tx_hash package @ '' but the observation names '' @ rr_tx_hash result))
          else case verify_deposit H K B ad (package_proof ad package) of
            Inl e \<Rightarrow> Inl (ProofVerificationFailed (verify_error_display e))
          | Inr verified \<Rightarrow>
              if vd_receipts_root verified \<noteq> rr_external_state_root result
              then Inl (ProofVerificationFailed
                (''the receipts root the header chain proves is not the external state root '' @
                 ''the observation declares''))
              else if \<not> rr_success result
              then Inl (ProofVerificationFailed
                ''the receipt proves a successful deposit but the observation reports failure'')
              else Inr ())"

text \<open>The off-chain methods of this adapter refuse: it does not read Ethereum.\<close>

definition generate_receipt_proof ::
  "evm_chain_adapter \<Rightarrow> string \<Rightarrow> adapter_error + (merkle_proof_data \<times> hash32 \<times> string)" where
  "generate_receipt_proof ad tx_hash =
     Inl (ProofVerificationFailed
       (''EVM adapter cannot assemble a receipt proof: it does not read Ethereum. '' @
        ''Wire an RPC-backed proof assembler before relaying value''))"

definition submit_transaction :: "evm_chain_adapter \<Rightarrow> external_transaction \<Rightarrow> adapter_error + string" where
  "submit_transaction ad ext_tx =
     Inl (SubmissionFailed
       (''EVM adapter cannot broadcast: it does not speak to Ethereum. '' @
        ''Wire an RPC-backed submitter before relaying value''))"

definition wait_for_confirmation ::
  "(merkle_proof_data \<Rightarrow> bytes option) \<Rightarrow> evm_chain_adapter \<Rightarrow> string \<Rightarrow> u32 \<Rightarrow>
   adapter_error + relayer_external_result" where
  "wait_for_confirmation ser ad tx_hash confirmations =
     (case generate_receipt_proof ad tx_hash of
        Inl e \<Rightarrow> Inl e
      | Inr (prf, root, hash) \<Rightarrow>
          Inr \<lparr> rr_chain = Ethereum, rr_tx_hash = hash, rr_success = True, rr_message = None,
                rr_receipt_proof = (case ser prf of None \<Rightarrow> [] | Some b \<Rightarrow> b),
                rr_external_state_root = root \<rparr>)"

text \<open>The adapter as the registry holds it.\<close>

definition evm_adapter ::
  "hasher \<Rightarrow> hasher \<Rightarrow> ('p, 'q) bls \<Rightarrow> (u64 \<Rightarrow> bytes \<Rightarrow> string + deposit_proof_package) \<Rightarrow> evm_chain_adapter \<Rightarrow>
   chain_adapter" where
  "evm_adapter H K B de ad =
     \<lparr> chain_type = Ethereum,
       fit_for_relay = (case check_fit_for_relay ad of Inl e \<Rightarrow> Inl (ProofVerificationFailed e) | Inr u \<Rightarrow> Inr u),
       receipt_proof_check = verify_receipt_proof H ad,
       observation_check = verify_observation H K B de ad \<rparr>"

subsection \<open>Claims towards Ethereum\<close>

record bud_to_eth_claim =
  bc_message_id :: message_id
  bc_asset_id :: bytes
  bc_amount :: u64
  bc_recipient_eth :: bytes
  bc_finalized_height :: u64
  bc_finalized_header_hash :: hash32
  bc_finality_proof :: bytes
  bc_burn_event_proof :: bytes

datatype bud_to_eth_error =
  BurnEventNotFound | NotBurned | InvalidRecipient | FinalityProofMissing | AmountExceedsCap

fun bud_to_eth_error_display :: "bud_to_eth_error \<Rightarrow> string" where
  "bud_to_eth_error_display BurnEventNotFound = ''bud-to-eth: burn event not found''"
| "bud_to_eth_error_display NotBurned = ''bud-to-eth: transfer not in Burned status''"
| "bud_to_eth_error_display InvalidRecipient = ''bud-to-eth: invalid Ethereum recipient (20 bytes)''"
| "bud_to_eth_error_display FinalityProofMissing = ''bud-to-eth: finality proof missing''"
| "bud_to_eth_error_display AmountExceedsCap = ''bud-to-eth: amount exceeds bridge cap''"

definition DEFAULT_BRIDGE_CAP :: u128 where
  "DEFAULT_BRIDGE_CAP = 1000000000000"

fun status_is_burned :: "bridge_status \<Rightarrow> bool" where
  "status_is_burned (Burned _) = True"
| "status_is_burned _ = False"

definition build_bud_to_eth_claim ::
  "bridge_state \<Rightarrow> message_id \<Rightarrow> u64 \<Rightarrow> hash32 \<Rightarrow> bytes \<Rightarrow> bytes \<Rightarrow> bytes \<Rightarrow> u128 \<Rightarrow> bud_to_eth_error + bud_to_eth_claim" where
  "build_bud_to_eth_claim bridge mid finalized_height finalized_header_hash finality_proof burn_event_proof
     recipient_eth bridge_cap =
     (case get_transfer bridge mid of
        None \<Rightarrow> Inl BurnEventNotFound
      | Some transfer \<Rightarrow>
          if \<not> status_is_burned (xfer_status transfer) then Inl NotBurned
          else if finality_proof = [] then Inl FinalityProofMissing
          else let amount = bud_get (xfer_amount transfer) in
            if (ucast amount :: u128) > bridge_cap then Inl AmountExceedsCap
            else let bs = xfer_asset_id transfer; len = min (length bs) 32
                 in Inr \<lparr> bc_message_id = mid, bc_asset_id = take len bs @ replicate (32 - len) 0, bc_amount = amount,
                          bc_recipient_eth = recipient_eth, bc_finalized_height = finalized_height,
                          bc_finalized_header_hash = finalized_header_hash, bc_finality_proof = finality_proof,
                          bc_burn_event_proof = burn_event_proof \<rparr>)"

subsection \<open>What an accepted deposit proves\<close>

lemma decode_header_hash: "decode_header K raw = Inr h \<Longrightarrow> eh_hash h = K raw"
  by (auto simp: decode_header_def split: sum.splits rlp_item.splits if_splits)

lemma decode_header_or_err_Inr: "decode_header_or_err K raw = Inr h \<longleftrightarrow> decode_header K raw = Inr h"
  by (simp add: decode_header_or_err_def split: sum.splits)

lemma decode_headers_Inr:
  "decode_headers K raws = Inr hs \<Longrightarrow> length hs = length raws \<and> (\<forall>i < length raws. decode_header K (raws ! i) = Inr (hs ! i))"
proof (induction raws arbitrary: hs)
  case (Cons raw raws)
  then obtain h hs' where "decode_header K raw = Inr h" "decode_headers K raws = Inr hs'" "hs = h # hs'"
    by (auto simp: decode_header_or_err_Inr split: sum.splits)
  with Cons.IH [of hs'] show ?case by (simp add: All_less_Suc2)
qed simp

lemma verify_evm_receipt_Inr:
  assumes "verify_evm_receipt H K B prf = Inr d"
  obtains target confs receipt_bytes receipt log where
    "dp_tx_hash prf \<noteq> []" "decode_header K (dp_target_header prf) = Inr target"
    "decode_headers K (dp_confirmation_headers prf) = Inr confs"
    "verify_chain target confs (dp_required_confirmations prf) = Inr ()"
    "mpt_verify K (dp_proof_nodes prf) (eh_receipts_root target) (dp_receipt_key prf) = Inr receipt_bytes"
    "decode_receipt receipt_bytes = Inr receipt" "rc_status receipt"
    "find_log receipt (dp_emitter_address prf) (dp_deposit_topic0 prf) = Some log"
    "check_attestation H B (dp_sync_attestation prf) (eh_hash target) = Inr ()"
    "d = \<lparr> vd_tx_hash = dp_tx_hash prf, vd_block_hash = eh_hash target,
           vd_receipt_key = dp_receipt_key prf, vd_deposit_log_data = log_data log,
           vd_block_number = eh_number target, vd_receipts_root = eh_receipts_root target \<rparr>"
  using assms unfolding verify_evm_receipt_def question_mark decode_header_or_err_Inr
  by (elim exE conjE) (rule that, (assumption | simp)+)

lemma find_log_Some: "find_log r emitter topic0 = Some log \<Longrightarrow> log \<in> set (rc_logs r) \<and> log_matches emitter topic0 log"
  by (auto simp: find_log_def find_Some_iff)

lemma deposit_identity:
  assumes "verify_evm_receipt H K B p = Inr d" "verify_evm_receipt H K B' q = Inr e"
    and "vd_block_hash d = vd_block_hash e" "vd_receipt_key d = vd_receipt_key e"
    and "dp_emitter_address p = dp_emitter_address q" "dp_deposit_topic0 p = dp_deposit_topic0 q"
    and "inj_on K (set (dp_proof_nodes p) \<union> set (dp_proof_nodes q))" "inj_on K {dp_target_header p, dp_target_header q}"
  shows "vd_deposit_log_data d = vd_deposit_log_data e \<and> vd_block_number d = vd_block_number e
    \<and> vd_receipts_root d = vd_receipts_root e"
proof -
  from assms(1) obtain t rb r l where d: "decode_header K (dp_target_header p) = Inr t"
    "mpt_verify K (dp_proof_nodes p) (eh_receipts_root t) (dp_receipt_key p) = Inr rb" "decode_receipt rb = Inr r"
    "find_log r (dp_emitter_address p) (dp_deposit_topic0 p) = Some l"
    "d = \<lparr> vd_tx_hash = dp_tx_hash p, vd_block_hash = eh_hash t,
           vd_receipt_key = dp_receipt_key p, vd_deposit_log_data = log_data l,
           vd_block_number = eh_number t, vd_receipts_root = eh_receipts_root t \<rparr>"
    by (rule verify_evm_receipt_Inr) (rule that, assumption+)
  from assms(2) obtain t' rb' r' l' where e: "decode_header K (dp_target_header q) = Inr t'"
    "mpt_verify K (dp_proof_nodes q) (eh_receipts_root t') (dp_receipt_key q) = Inr rb'" "decode_receipt rb' = Inr r'"
    "find_log r' (dp_emitter_address q) (dp_deposit_topic0 q) = Some l'"
    "e = \<lparr> vd_tx_hash = dp_tx_hash q, vd_block_hash = eh_hash t',
           vd_receipt_key = dp_receipt_key q, vd_deposit_log_data = log_data l',
           vd_block_number = eh_number t', vd_receipts_root = eh_receipts_root t' \<rparr>"
    by (rule verify_evm_receipt_Inr) (rule that, assumption+)
  have "K (dp_target_header p) = K (dp_target_header q)"
    using assms(3) unfolding d(5) e(5) by (simp add: decode_header_hash [OF d(1)] decode_header_hash [OF e(1)])
  then have "dp_target_header p = dp_target_header q" by (rule inj_onD [OF assms(8)]) simp_all
  with d(1) e(1) have t: "t' = t" by simp
  have key: "dp_receipt_key q = dp_receipt_key p" using assms(4) unfolding d(5) e(5) by simp
  have e2: "mpt_verify K (dp_proof_nodes q) (eh_receipts_root t) (dp_receipt_key p) = Inr rb'"
    using e(2) unfolding t key .
  have "rb' = rb" by (rule mpt_verify_agree [OF d(2) e2 assms(7), symmetric])
  then have "r' = r" using d(3) e(3) by simp
  then have "l' = l" using d(4) e(4) unfolding assms(5,6) by simp
  then show ?thesis unfolding d(5) e(5) t by simp
qed

end
