(* ===== verification/Evm_Sample.thy ===== *)
theory Evm_Sample
  imports Evm_Deposit
begin

text \<open>
  A concrete deposit that the verifier accepts, for a hash that keeps the length of its input:
  one receipt in a trie of one leaf, and one confirmation. The statements of
  \<^verbatim>\<open>Evm_Theorems\<close> are applied to it.
\<close>

definition length_hash :: hasher where
  "length_hash bs = replicate 32 (of_nat (length bs))"

definition sample_receipt :: bytes where
  "sample_receipt = rlp_encode (RList [RString [1], RString [], RString [],
     RList [RList [RString (replicate 20 7), RList [RString (replicate 32 9)], RString [1, 2, 3]]]])"

definition sample_leaf :: bytes where
  "sample_leaf = rlp_encode (RList [RString (hp_encode (to_nibbles (length_hash [0x80])) True), RString sample_receipt])"

definition sample_header :: "hash32 \<Rightarrow> u8 \<Rightarrow> bytes" where
  "sample_header parent number = rlp_encode (RList [RString parent, RString [], RString [], RString (replicate 32 0),
     RString [], RString (length_hash sample_leaf), RString [], RString [], RString [number]])"

definition sample_package :: "string \<Rightarrow> deposit_proof_package" where
  "sample_package tx =
     (let target = sample_header (replicate 32 5) 16 in
      \<lparr> pk_target_header = target, pk_confirmation_headers = [sample_header (length_hash target) 17],
        pk_proof_nodes = [sample_leaf], pk_receipt_key = [0x80], pk_tx_hash = tx \<rparr>)"

definition sample_adapter :: evm_chain_adapter where
  "sample_adapter = \<lparr> ad_bridge_address = replicate 20 7, ad_deposit_topic0 = replicate 32 9,
     ad_required_confirmations = 1 \<rparr>"

definition sample_bls :: "(nat, nat) bls" where
  "sample_bls = \<lparr> g1_from_compressed = (\<lambda>bs. Some (length bs)), g1_is_torsion_free = (\<lambda>_. True),
     g1_is_identity = (\<lambda>n. n = 0), g1_identity = 0, g1_add = (+), g2_from_compressed = (\<lambda>bs. Some (length bs)),
     g2_is_torsion_free = (\<lambda>_. True), g2_is_identity = (\<lambda>n. n = 0), pairing_holds = (\<lambda>p m q. p = 256 * q) \<rparr>"

lemma encode_length_bound: "length (encode_length n off) \<le> 9"
  using length_dropWhile_le [of "\<lambda>b. b = 0" "be_bytes (of_nat n)"]
  by (simp add: encode_length_def trim_leading_zeros_def be_bytes_def Let_def le_bytes_def)

lemma rlp_string_bound: "length (rlp_encode (RString bs)) \<le> 9 + length bs"
  using encode_length_bound [of "length bs" "0x80"] by (simp add: encode_string_def)

lemma rlp_list_bound:
  "(\<Sum>i\<leftarrow>items. length (rlp_encode i)) \<le> n \<Longrightarrow> length (rlp_encode (RList items)) \<le> 9 + n"
  using encode_length_bound [of "\<Sum>i\<leftarrow>items. length (rlp_encode i)" "0xc0"]
  by (simp add: Let_def length_concat comp_def)

text \<open>An upper bound on the encoding that is computed without encoding.\<close>

fun rlp_bound :: "rlp_item \<Rightarrow> nat" where
  "rlp_bound (RString bs) = 9 + length bs"
| "rlp_bound (RList items) = 9 + sum_list (map rlp_bound items)"

lemma rlp_bound: "length (rlp_encode item) \<le> rlp_bound item"
proof (induction item)
  case (RList items)
  then have "(\<Sum>i\<leftarrow>items. length (rlp_encode i)) \<le> sum_list (map rlp_bound items)" by (intro sum_list_mono)
  then show ?case using rlp_list_bound by simp
qed (simp only: rlp_bound.simps rlp_string_bound)

lemma rlp_decode_bounded: "item_depth i \<le> MAX_DEPTH \<Longrightarrow> rlp_bound i < 2 ^ 64 \<Longrightarrow> rlp_decode (rlp_encode i) = Inr i"
  using rlp_bound [of i] by (intro rlp_decode_encode) linarith+

lemma list_offset: "k \<le> 63 \<Longrightarrow> 0xc0 \<le> (0xc0 + of_nat k :: u8)"
  by (simp add: word_le_nat_alt unat_word_ariths unat_of_nat)

lemma rlp_list_first: "0xc0 \<le> rlp_encode (RList items) ! 0"
proof -
  have "0xc0 \<le> encode_length n 0xc0 ! 0 \<and> encode_length n 0xc0 \<noteq> []" for n
    using list_offset [of n] list_offset [of "55 + length (trim_leading_zeros (of_nat n))"]
      length_dropWhile_le [of "\<lambda>b. b = 0" "be_bytes (of_nat n)"]
    by (auto simp: encode_length_def trim_leading_zeros_def be_bytes_def Let_def le_bytes_def add.assoc)
  then show ?thesis by (simp add: Let_def nth_append)
qed

lemma sample_receipt_decodes:
  "decode_receipt sample_receipt = Inr \<lparr> rc_status = True, rc_logs =
     [\<lparr> log_address = replicate 20 7, log_topics = [replicate 32 9], log_data = [1, 2, 3] \<rparr>] \<rparr>"
proof -
  let ?i = "RList [RString [1], RString [], RString [],
     RList [RList [RString (replicate 20 7), RList [RString (replicate 32 9)], RString [1, 2, 3]]]] :: rlp_item"
  have "rlp_decode sample_receipt = Inr ?i"
    unfolding sample_receipt_def by (rule rlp_decode_bounded) (simp_all add: MAX_DEPTH_def)
  moreover have "sample_receipt \<noteq> []" by (simp add: sample_receipt_def del: rlp_encode.simps)
  moreover have "sample_receipt ! 0 \<ge> 0xc0"
    unfolding sample_receipt_def by (rule rlp_list_first)
  ultimately show ?thesis by (simp add: decode_receipt_def decode_status_def)
qed

lemma length_length_hash: "length (length_hash bs) = 32"
  by (simp add: length_hash_def)

lemma length_pack_pairs: "length (pack_pairs ns) = length ns div 2"
  by (induction ns rule: pack_pairs.induct) simp_all

lemma length_to_nibbles: "length (to_nibbles bs) = 2 * length bs"
  by (induction bs) (simp_all add: to_nibbles_def)

lemma sample_receipt_length: "length sample_receipt \<le> 300"
  using rlp_bound [of "RList [RString [1], RString [], RString [],
     RList [RList [RString (replicate 20 7), RList [RString (replicate 32 9)], RString [1, 2, 3]]]]"]
  by (simp add: sample_receipt_def del: rlp_encode.simps)

lemma sample_leaf_found:
  "mpt_verify length_hash [sample_leaf] (length_hash sample_leaf) [0x80] = Inr sample_receipt"
proof -
  let ?path = "to_nibbles (length_hash [0x80])"
  have "rlp_decode sample_leaf = Inr (RList [RString (hp_encode ?path True), RString sample_receipt])"
    unfolding sample_leaf_def using sample_receipt_length
    by (intro rlp_decode_bounded)
       (simp_all add: MAX_DEPTH_def hp_encode_def length_pack_pairs length_to_nibbles length_length_hash)
  then show ?thesis
    by (simp add: mpt_verify_def build_node_map_def mpt_walk.simps hp_decode_encode [OF to_nibbles_nibble])
qed

lemma sample_header_decodes:
  assumes "length parent = 32"
  shows "decode_header length_hash (sample_header parent number) =
    Inr \<lparr> eh_parent_hash = parent, eh_number = ucast number, eh_state_root = replicate 32 0,
          eh_receipts_root = length_hash sample_leaf, eh_hash = length_hash (sample_header parent number) \<rparr>"
proof -
  have "rlp_decode (sample_header parent number) = Inr (RList [RString parent, RString [], RString [],
     RString (replicate 32 0), RString [], RString (length_hash sample_leaf), RString [], RString [], RString [number]])"
    unfolding sample_header_def using assms
    by (intro rlp_decode_bounded) (simp_all add: MAX_DEPTH_def length_length_hash)
  then show ?thesis
    using assms unat_lt64 [of "ucast number"]
    by (simp add: decode_header_def hash_field_def arr32_def length_length_hash checked_mul_def checked_add_def)
qed

lemma sample_accepted:
  assumes "tx \<noteq> []"
  shows "verify_evm_receipt length_hash length_hash sample_bls (package_proof sample_adapter (sample_package tx)) =
    Inr \<lparr> vd_tx_hash = tx, vd_block_hash = length_hash (sample_header (replicate 32 5) 16), vd_receipt_key = [0x80],
          vd_deposit_log_data = [1, 2, 3], vd_block_number = 16, vd_receipts_root = length_hash sample_leaf \<rparr>"
  using assms
  by (simp add: verify_evm_receipt_def package_proof_def sample_package_def sample_adapter_def Let_def
      decode_header_or_err_def sample_header_decodes length_length_hash verify_chain_def checked_add_def
      sample_leaf_found sample_receipt_decodes find_log_def log_matches_def check_attestation_def)

subsection \<open>An attestation of every member\<close>

definition sample_state :: sync_committee_state where
  "sample_state = \<lparr> current_period = 0, current_sync_committee = replicate 512 (replicate 48 1),
     next_sync_committee = replicate 512 (replicate 48 1) \<rparr>"

definition sample_aggregate :: sync_aggregate where
  "sample_aggregate = \<lparr> sync_committee_bits = replicate 64 0xff, sync_committee_signature = replicate 96 1 \<rparr>"

definition sample_beacon :: beacon_binding where
  "sample_beacon = \<lparr> bb_slot = 5, bb_proposer_index = 1, bb_parent_root = replicate 32 0, bb_state_root = replicate 32 0,
     bb_body_root = replicate 32 64, bb_branch = replicate 9 (replicate 32 64) \<rparr>"

lemma bit_ff: "n < 8 \<Longrightarrow> bit (0xff :: u8) n"
  using bit_mask_iff [of 8 n, where 'a = u8] by (simp add: mask_eq_exp_minus_1)

lemma sample_all_sign: "i < 512 \<Longrightarrow> sync_signed sample_aggregate i"
  using bit_ff [of "i mod 8"]
  by (simp add: sync_signed_def sample_aggregate_def SYNC_COMMITTEE_SIZE_def drop_bit_and_one less_mult_imp_div_less)

lemma sample_sum: "i + n \<le> 512 \<Longrightarrow> sum_signers sample_bls sample_aggregate i (replicate n (replicate 48 1)) acc = Inr (acc + 48 * n)"
  by (induction n arbitrary: i acc) (simp_all add: sample_all_sign, simp_all add: sample_bls_def)

lemma sample_participation: "participation_count sample_aggregate = 512"
proof -
  have "{i. sync_signed sample_aggregate i} = {..< 512}"
    using sample_all_sign by (auto simp: sync_signed_def SYNC_COMMITTEE_SIZE_def split: if_splits)
  then show ?thesis by (simp add: participation_card sample_aggregate_def)
qed

lemma sample_climb:
  "climb_branch length_hash index level (replicate 32 64) (replicate n (replicate 32 64)) = replicate 32 64"
  by (induction n arbitrary: level) (simp_all add: sha256_pair_def length_hash_def)

lemma sample_climb_hashed:
  "climb_hashed length_hash index level (replicate 32 64) (replicate n (replicate 32 64)) \<subseteq> {replicate 64 64}"
proof (induction n arbitrary: level)
  case (Suc n)
  have "climb_pre index level (replicate 32 64) (replicate 32 64) = replicate 64 64"
    using replicate_add [of 32 32 "64 :: u8"] by (simp add: climb_pre_def)
  moreover have "length_hash (replicate 64 64) = replicate 32 64" by (simp add: length_hash_def)
  ultimately show ?case using Suc by simp
qed simp

lemma sample_attested:
  "verify_execution_block_finality length_hash sample_bls sample_state sample_aggregate sample_beacon params
     (replicate 32 64) = Inr ()"
proof -
  have "sum_signers sample_bls sample_aggregate 0 (replicate 512 (replicate 48 1)) (g1_identity sample_bls) = Inr 24576"
    using sample_sum [of 0 512 0] by (simp add: sample_bls_def)
  then have "verify_sync_aggregate sample_bls sample_state sample_aggregate m = Inr ()" for m
    by (simp add: verify_sync_aggregate_def sample_participation PARTICIPATION_THRESHOLD_def SYNC_COMMITTEE_SIZE_def
        sample_state_def) (simp add: sample_bls_def sample_aggregate_def)
  then show ?thesis
    by (simp add: verify_execution_block_finality_def commits_to_execution_block_def binding_period_def Let_def
        sample_climb SLOTS_PER_SYNC_COMMITTEE_PERIOD_def sample_beacon_def)
       (simp add: sample_state_def)
qed

end
