(* ===== verification/Evm_Theorems.thy ===== *)
theory Evm_Theorems
  imports Evm_Sample Bridge_Custody
begin

text \<open>The properties of the Ethereum side of the bridge, and of the registry of adapters.\<close>

subsection \<open>Deposits\<close>

text \<open>
  C12: An observation the adapter lets the relayer sign is a confirmed deposit: the result reports success
  for the transaction the package names, and the package holds a header whose receipts root is the
  declared state root, at least the operator's number of headers above it, each the hash-linked
  successor of the one below, and under that root a receipt with status true and a log of the
  configured bridge contract and topic.
\<close>

theorem observation_is_confirmed_deposit:
  assumes "verify_observation H K B de ad result = Inr ()"
  shows "\<exists>package target confs receipt_bytes receipt.
     de MAX_DEPOSIT_PACKAGE_BYTES (rr_receipt_proof result) = Inr package
   \<and> pk_tx_hash package = rr_tx_hash result \<and> rr_tx_hash result \<noteq> [] \<and> rr_success result
   \<and> decode_header K (pk_target_header package) = Inr target
   \<and> eh_receipts_root target = rr_external_state_root result
   \<and> 0 < unat (ad_required_confirmations ad) \<and> unat (ad_required_confirmations ad) \<le> length confs
   \<and> length confs = length (pk_confirmation_headers package)
   \<and> (\<forall>i < length confs. decode_header K (pk_confirmation_headers package ! i) = Inr (confs ! i)
        \<and> eh_parent_hash (confs ! i) = K ((pk_target_header package # pk_confirmation_headers package) ! i)
        \<and> unat (eh_number (confs ! i)) = unat (eh_number target) + Suc i)
   \<and> mpt_verify K (pk_proof_nodes package) (eh_receipts_root target) (pk_receipt_key package) = Inr receipt_bytes
   \<and> decode_receipt receipt_bytes = Inr receipt \<and> rc_status receipt
   \<and> (\<exists>log \<in> set (rc_logs receipt). log_address log = ad_bridge_address ad
        \<and> log_topics log \<noteq> [] \<and> hd (log_topics log) = ad_deposit_topic0 ad)"
proof -
  from assms obtain package d where package: "de MAX_DEPOSIT_PACKAGE_BYTES (rr_receipt_proof result) = Inr package"
    "pk_tx_hash package = rr_tx_hash result" "verify_evm_receipt H K B (package_proof ad package) = Inr d"
    "vd_receipts_root d = rr_external_state_root result" "rr_success result"
    unfolding verify_observation_def question_mark verify_deposit_def by auto
  from package(3) obtain target confs receipt_bytes receipt log where v:
    "pk_tx_hash package \<noteq> []" "decode_header K (pk_target_header package) = Inr target"
    "decode_headers K (pk_confirmation_headers package) = Inr confs"
    "verify_chain target confs (ad_required_confirmations ad) = Inr ()"
    "mpt_verify K (pk_proof_nodes package) (eh_receipts_root target) (pk_receipt_key package) = Inr receipt_bytes"
    "decode_receipt receipt_bytes = Inr receipt" "rc_status receipt"
    "find_log receipt (ad_bridge_address ad) (ad_deposit_topic0 ad) = Some log"
    "vd_receipts_root d = eh_receipts_root target"
    by (rule verify_evm_receipt_Inr) (rule that, simp_all add: package_proof_def)
  have confs: "length confs = length (pk_confirmation_headers package)"
    "\<forall>i < length confs. decode_header K (pk_confirmation_headers package ! i) = Inr (confs ! i)"
    using decode_headers_Inr [OF v(3)] by simp_all
  have linked: "\<forall>i < length confs. eh_parent_hash (confs ! i) = (eh_hash target # map eh_hash confs) ! i
      \<and> unat (eh_number (confs ! i)) = unat (eh_number target) + Suc i"
    and depth: "ad_required_confirmations ad \<noteq> 0" "unat (ad_required_confirmations ad) \<le> length confs"
    using v(4) of_nat_len_le by (auto simp: verify_chain_ok check_links_ok)
  have "map eh_hash confs = map K (pk_confirmation_headers package)"
    by (rule nth_equalityI) (use confs decode_header_hash in auto)
  then have "(eh_hash target # map eh_hash confs) ! i = K ((pk_target_header package # pk_confirmation_headers package) ! i)"
    if "i < length confs" for i
    using that confs(1) decode_header_hash [OF v(2)] by (cases i) simp_all
  then have links: "\<forall>i < length confs. decode_header K (pk_confirmation_headers package ! i) = Inr (confs ! i)
        \<and> eh_parent_hash (confs ! i) = K ((pk_target_header package # pk_confirmation_headers package) ! i)
        \<and> unat (eh_number (confs ! i)) = unat (eh_number target) + Suc i"
    using confs(2) linked by simp
  have "\<exists>log \<in> set (rc_logs receipt). log_address log = ad_bridge_address ad
        \<and> log_topics log \<noteq> [] \<and> hd (log_topics log) = ad_deposit_topic0 ad"
    using find_log_Some [OF v(8)] by (auto simp: log_matches_def split: list.splits)
  moreover have "0 < unat (ad_required_confirmations ad)" using depth(1) by (simp add: unat_gt_0)
  ultimately show ?thesis using package(1,2,4,5) v(1,2,5-7,9) confs(1) links depth(2) by metis
qed

theorem observation_is_confirmed_deposit_witness:
  "let result = \<lparr> rr_chain = Ethereum, rr_tx_hash = ''0xaa'', rr_success = True, rr_message = None,
         rr_receipt_proof = [], rr_external_state_root = length_hash sample_leaf \<rparr>
   in verify_observation length_hash length_hash sample_bls (\<lambda>_ _. Inr (sample_package ''0xaa'')) sample_adapter result = Inr ()
    \<and> (\<exists>target. decode_header length_hash (pk_target_header (sample_package ''0xaa'')) = Inr target
         \<and> eh_receipts_root target = length_hash sample_leaf)"
proof -
  let ?r = "\<lparr> rr_chain = Ethereum, rr_tx_hash = ''0xaa'', rr_success = True, rr_message = None,
         rr_receipt_proof = [], rr_external_state_root = length_hash sample_leaf \<rparr>"
  have "verify_observation length_hash length_hash sample_bls (\<lambda>_ _. Inr (sample_package ''0xaa'')) sample_adapter ?r = Inr ()"
    using sample_accepted [of "''0xaa''"]
    by (simp add: verify_observation_def verify_deposit_def) (simp add: package_proof_def sample_package_def Let_def)
  with observation_is_confirmed_deposit [OF this] show ?thesis by auto
qed

text \<open>
  C25: The replay key of a deposit names one deposit. Two accepted proofs with the same block hash and
  receipt key, for the same contract and topic, carry the same deposit data, block number and
  receipts root, whatever transaction hash, trie nodes and confirmations they come with, unless
  Keccak-256 collides on the nodes or the target headers.
\<close>

theorem deposit_identity_is_unique:
  assumes "verify_evm_receipt H K B p = Inr d" "verify_evm_receipt H K B' q = Inr e"
    and "(vd_block_hash d, vd_receipt_key d) = (vd_block_hash e, vd_receipt_key e)"
    and "dp_emitter_address p = dp_emitter_address q" "dp_deposit_topic0 p = dp_deposit_topic0 q"
    and "inj_on K (set (dp_proof_nodes p) \<union> set (dp_proof_nodes q))" "inj_on K {dp_target_header p, dp_target_header q}"
  shows "vd_deposit_log_data d = vd_deposit_log_data e \<and> vd_block_number d = vd_block_number e
    \<and> vd_receipts_root d = vd_receipts_root e"
  using deposit_identity [OF assms(1,2) _ _ assms(4-7)] assms(3) by simp

theorem deposit_identity_is_unique_witness:
  "\<exists>d e. verify_evm_receipt length_hash length_hash sample_bls (package_proof sample_adapter (sample_package ''0xaa'')) = Inr d
     \<and> verify_evm_receipt length_hash length_hash sample_bls (package_proof sample_adapter (sample_package ''0xbb'')) = Inr e
     \<and> vd_tx_hash d \<noteq> vd_tx_hash e \<and> vd_deposit_log_data d = vd_deposit_log_data e"
proof -
  let ?p = "\<lambda>tx. package_proof sample_adapter (sample_package tx)"
  note a = sample_accepted [of "''0xaa''", simplified] and b = sample_accepted [of "''0xbb''", simplified]
  have "vd_deposit_log_data (projr (verify_evm_receipt length_hash length_hash sample_bls (?p ''0xaa'')))
      = vd_deposit_log_data (projr (verify_evm_receipt length_hash length_hash sample_bls (?p ''0xbb'')))"
    unfolding a b sum.sel
    by (rule conjunct1 [OF deposit_identity_is_unique [OF a b]]) (simp_all add: package_proof_def sample_package_def Let_def)
  then show ?thesis using a b by simp
qed

text \<open>
  A proof that demands fewer confirmations than the operator's floor is refused before anything of it
  is read, and the adapter never verifies with a window of zero: a window that fits is required at
  registration.
\<close>

theorem confirmation_floor:
  "(dp_required_confirmations prf < ad_required_confirmations ad \<longrightarrow>
      verify_deposit H K B ad prf = Inl (VerifyHeader (''proof demands '' @ decimal (unat (dp_required_confirmations prf))
        @ '' confirmations, adapter floor is '' @ decimal (unat (ad_required_confirmations ad)))))
   \<and> (ad_required_confirmations ad = 0 \<longrightarrow> (\<exists>e. check_fit_for_relay ad = Inl e))
   \<and> (verify_deposit H K B ad prf = Inr d \<longrightarrow>
        0 < dp_required_confirmations prf \<and> ad_required_confirmations ad \<le> dp_required_confirmations prf
        \<and> unat (dp_required_confirmations prf) \<le> length (dp_confirmation_headers prf))"
proof (intro conjI impI)
  assume "verify_deposit H K B ad prf = Inr d"
  then have floor: "ad_required_confirmations ad \<le> dp_required_confirmations prf"
    and "verify_evm_receipt H K B prf = Inr d" by (auto simp: verify_deposit_def split: if_splits)
  from this(2) obtain target confs where "decode_headers K (dp_confirmation_headers prf) = Inr confs"
    "verify_chain target confs (dp_required_confirmations prf) = Inr ()" by (rule verify_evm_receipt_Inr)
  then show "0 < dp_required_confirmations prf" "ad_required_confirmations ad \<le> dp_required_confirmations prf"
    "unat (dp_required_confirmations prf) \<le> length (dp_confirmation_headers prf)"
    using floor decode_headers_Inr of_nat_len_le by (fastforce simp: verify_chain_ok word_gt_0)+
qed (auto simp: verify_deposit_def check_fit_for_relay_def)

theorem confirmation_floor_witness:
  "(\<exists>d. verify_deposit length_hash length_hash sample_bls sample_adapter
        (package_proof sample_adapter (sample_package ''0xaa'')) = Inr d)
   \<and> (\<exists>e. verify_deposit length_hash length_hash sample_bls (adapter_new [7] [9])
        (package_proof sample_adapter (sample_package ''0xaa'')) = Inl e)"
  using confirmation_floor [of "package_proof sample_adapter (sample_package ''0xaa'')" "adapter_new [7] [9]"
      length_hash length_hash sample_bls] sample_accepted [of "''0xaa''"]
  by (simp add: verify_deposit_def adapter_new_def DEFAULT_CONFIRMATIONS_def)
     (simp add: package_proof_def sample_adapter_def)

subsection \<open>Encodings and tries\<close>

text \<open>
  C28: RLP encodes every item within the nesting limit so that decoding gives the item back, and what
  decoding accepts re-encodes to no more bytes, and to the same bytes when the length agrees: the
  canonical encoding is the shortest the decoder accepts.
\<close>

theorem rlp_round_trip:
  assumes "item_depth item \<le> MAX_DEPTH" "length (rlp_encode item) < 2 ^ 64"
  shows "rlp_decode (rlp_encode item) = Inr item
    \<and> (\<forall>bs. length bs < 2 ^ 64 \<and> rlp_decode bs = Inr item \<longrightarrow>
         length (rlp_encode item) \<le> length bs \<and> (length bs = length (rlp_encode item) \<longrightarrow> bs = rlp_encode item))"
  using rlp_decode_encode [OF assms] rlp_decode_shrinks [of _ item] unfolding shrinks_def by metis

theorem rlp_round_trip_witness:
  "rlp_decode (rlp_encode (RList [RString [0x7f], RList [], RString [0x80, 1]]))
     = Inr (RList [RString [0x7f], RList [], RString [0x80, 1]])"
  using rlp_round_trip [of "RList [RString [0x7f], RList [], RString [0x80, 1]]"]
  by (simp add: MAX_DEPTH_def encode_string_def encode_length_def)

text \<open>The decoder accepts a single byte below 0x80 under a length prefix: two encodings of one string.\<close>

lemma rlp_accepts_wrapped_byte:
  "b < 0x80 \<Longrightarrow> rlp_decode [0x81, b] = Inr (RString [b]) \<and> rlp_encode (RString [b]) = [b]"
  by (simp add: rlp_decode_def decode_at.simps take_exact_def MAX_DEPTH_def encode_string_def)

subsection \<open>Attestations\<close>

text \<open>
  C26: An accepted attestation was signed, for the committee's own period, by at least 342 distinct members
  whose keys are valid points, under a pairing over the signing root of the beacon header; and the
  header's body root fixes the execution block, unless SHA-256 collides along the two branches.
\<close>

theorem attestation_binds_execution_block:
  assumes "verify_execution_block_finality H B state agg b params h = Inr ()"
    and "verify_execution_block_finality H B' state' agg' b' params' h' = Inr ()"
    and "bb_body_root b = bb_body_root b'" "length (sync_committee_bits agg) = 64"
    and "length h = 32" "length h' = 32" "\<forall>s \<in> set (bb_branch b) \<union> set (bb_branch b'). length s = 32"
    and "\<forall>x. length (H x) = 32"
    and "inj_on H (climb_hashed H 300 0 h (bb_branch b) \<union> climb_hashed H 300 0 h' (bb_branch b'))"
  shows "h = h' \<and> 342 \<le> card {i. sync_signed agg i} \<and> binding_period b = current_period state
    \<and> (\<forall>i < length (current_sync_committee state). sync_signed agg i \<longrightarrow>
         (\<exists>point. g1_from_compressed B (current_sync_committee state ! i) = Some point
            \<and> g1_is_torsion_free B point \<and> \<not> g1_is_identity B point))
    \<and> (\<exists>agg_pk sig. sum_signers B agg 0 (current_sync_committee state) (g1_identity B) = Inr agg_pk
         \<and> g2_from_compressed B (sync_committee_signature agg) = Some sig
         \<and> pairing_holds B agg_pk (signing_root H b params) sig)"
proof -
  from assms(1) have c: "commits_to_execution_block H b h" "binding_period b = current_period state"
    "verify_sync_aggregate B state agg (signing_root H b params) = Inr ()"
    by (auto simp: verify_execution_block_finality_def split: if_splits)
  from assms(2) have c': "commits_to_execution_block H b' h'"
    by (auto simp: verify_execution_block_finality_def split: if_splits)
  have "climb_branch H 300 0 h (bb_branch b) = climb_branch H 300 0 h' (bb_branch b')" "length (bb_branch b) = length (bb_branch b')"
    using c(1) c' assms(3) by (simp_all add: commits_to_execution_block_def EXECUTION_BLOCK_HASH_GINDEX_def Let_def split: if_splits)
  then have h: "h = h'" using climb_branch_inj assms(5-9) by blast
  from c(3) obtain agg_pk sig where v: "PARTICIPATION_THRESHOLD \<le> participation_count agg"
    "sum_signers B agg 0 (current_sync_committee state) (g1_identity B) = Inr agg_pk"
    "g2_from_compressed B (sync_committee_signature agg) = Some sig"
    "pairing_holds B agg_pk (signing_root H b params) sig"
    unfolding verify_sync_aggregate_def Let_def question_mark by auto
  have "342 \<le> card {i. sync_signed agg i}"
    using v(1) by (simp add: participation_card [OF assms(4)] PARTICIPATION_THRESHOLD_def SYNC_COMMITTEE_SIZE_def)
  moreover have "\<exists>point. g1_from_compressed B (current_sync_committee state ! i) = Some point
      \<and> g1_is_torsion_free B point \<and> \<not> g1_is_identity B point"
    if "i < length (current_sync_committee state)" "sync_signed agg i" for i
    using sum_signers_valid [OF v(2) that(1)] that(2) by simp
  ultimately show ?thesis using h c(2) v(2-4) by blast
qed

theorem attestation_binds_execution_block_witness:
  "verify_execution_block_finality length_hash sample_bls sample_state sample_aggregate sample_beacon
      \<lparr> fork_version = [4, 0, 0, 0], genesis_validators_root = replicate 32 0 \<rparr> (replicate 32 64) = Inr ()
   \<and> 342 \<le> card {i. sync_signed sample_aggregate i}"
proof -
  let ?ch = "climb_hashed length_hash 300 0 (replicate 32 64) (bb_branch sample_beacon)"
  have "inj_on length_hash (?ch \<union> ?ch)"
    by (rule inj_on_subset [of _ "{replicate 64 64}"]) (use sample_climb_hashed in \<open>auto simp: sample_beacon_def\<close>)
  from attestation_binds_execution_block [OF sample_attested sample_attested refl _ _ _ _ _ this]
  have "342 \<le> card {i. sync_signed sample_aggregate i}"
    by (simp add: sample_aggregate_def sample_beacon_def length_length_hash)
  then show ?thesis using sample_attested by blast
qed

subsection \<open>Claims, results and the registry of adapters\<close>

text \<open>
  A burn on the bridge is what makes a claim towards Ethereum possible: before it no claim can be
  built for the transfer, and after it one is built exactly when a finality proof is given and the
  amount is within the cap, for the amount and asset of the burnt transfer.
\<close>

theorem claim_needs_a_burn:
  assumes "burn_with_event H mid domain height index expiry b = (Inr ev, b')"
  shows "\<exists>transfer. bt_get (transfers b) mid = Some transfer
   \<and> build_bud_to_eth_claim b mid fh hash fin prf recipient cap = Inl NotBurned
   \<and> (case build_bud_to_eth_claim b' mid fh hash fin prf recipient cap of
        Inl e \<Rightarrow> e = (if fin = [] then FinalityProofMissing else AmountExceedsCap)
               \<and> (fin \<noteq> [] \<longrightarrow> cap < ucast (bud_get (xfer_amount transfer)))
      | Inr c \<Rightarrow> fin \<noteq> [] \<and> ucast (bud_get (xfer_amount transfer)) \<le> cap
               \<and> bc_message_id c = mid \<and> bc_amount c = bud_get (xfer_amount transfer)
               \<and> take 32 (xfer_asset_id transfer) = take (length (xfer_asset_id transfer)) (bc_asset_id c)
               \<and> length (bc_asset_id c) = 32)"
proof -
  from assms obtain transfer where t: "bt_get (transfers b) mid = Some transfer" "xfer_status transfer = Minted domain"
    "bt_get (transfers b') mid = Some (transfer\<lparr> xfer_status := Burned domain \<rparr>)"
    by (auto simp: burn_with_event_def Let_def split: option.splits if_splits prod.splits)
  then show ?thesis
    by (auto simp: build_bud_to_eth_claim_def get_transfer_def Let_def min_def not_less)
qed

theorem claim_needs_a_burn_witness:
  "let t = \<lparr> xfer_message_id = [3], xfer_asset_id = [1], xfer_source_domain = 1,
             xfer_target_domain = 2,
             xfer_owner = [5], xfer_recipient = [6], xfer_amount = bud_new 70, xfer_status = Minted 2,
             xfer_source_event_hash = [], xfer_expiry_height = 0 \<rparr>;
       b = bridge_new\<lparr> transfers := bt_insert [3] t bt_empty \<rparr>;
       b' = snd (burn_with_event length_hash [3] 2 60 0 0 b)
   in build_bud_to_eth_claim b [3] 61 [8] [9] [] (replicate 20 7) DEFAULT_BRIDGE_CAP = Inl NotBurned
    \<and> (\<exists>c. build_bud_to_eth_claim b' [3] 61 [8] [9] [] (replicate 20 7) DEFAULT_BRIDGE_CAP = Inr c \<and> bc_amount c = 70)"
proof -
  let ?t = "\<lparr> xfer_message_id = [3], xfer_asset_id = [1], xfer_source_domain = 1,
             xfer_target_domain = 2,
             xfer_owner = [5], xfer_recipient = [6], xfer_amount = bud_new 70, xfer_status = Minted 2,
             xfer_source_event_hash = [], xfer_expiry_height = 0 \<rparr>"
  let ?b = "bridge_new\<lparr> transfers := bt_insert [3] ?t bt_empty \<rparr>"
  obtain ev b' where burn: "burn_with_event length_hash [3] 2 60 0 0 ?b = (Inr ev, b')"
    by (cases rule: burn_with_event_cases [of length_hash "[3]" 2 60 0 0 ?b]) auto
  have "ucast (70 :: u64) \<le> DEFAULT_BRIDGE_CAP" by (simp add: DEFAULT_BRIDGE_CAP_def)
  then show ?thesis
    using claim_needs_a_burn [OF burn, of 61 "[8]" "[9]" "[]" "replicate 20 7" DEFAULT_BRIDGE_CAP]
    unfolding Let_def burn snd_conv by (auto simp: bud_new_def bud_get_def split: sum.splits)
qed

text \<open>
  The registry never holds two adapters for a chain nor one that is unfit: after any registrations a
  lookup gives the adapter that was registered for the chain, and an Ethereum adapter found there
  has a 20-byte non-zero contract address, a non-zero topic and a window of at least one.
\<close>

theorem registered_adapters_are_fit:
  assumes "reach adapters_init adapters_step as"
  shows "distinct (supported_chains as)
   \<and> (\<forall>chain. supports_chain as chain \<longleftrightarrow> chain \<in> set (supported_chains as))
   \<and> (\<forall>a \<in> set as. get_adapter as (chain_type a) = Some a
        \<and> register_adapter a as = (Inl (DuplicateChainAdapter (chain_type a)), as))
   \<and> (\<forall>ad. get_adapter as Ethereum = Some (evm_adapter H K B de ad) \<longrightarrow>
        length (ad_bridge_address ad) = 20 \<and> (\<exists>x \<in> set (ad_bridge_address ad). x \<noteq> 0)
        \<and> ad_deposit_topic0 ad \<noteq> replicate 32 0 \<and> ad_required_confirmations ad \<noteq> 0)"
proof -
  have ok: "adapters_ok as" by (rule adapters_safe.inv_reach [OF assms])
  then have "register_adapter a as = (Inl (DuplicateChainAdapter (chain_type a)), as)" if "a \<in> set as" for a
    using that by (auto simp: register_adapter_def list_ex_iff)
  moreover have "fit_for_relay a = Inr ()" if "get_adapter as chain = Some a" for a chain
    using that ok by (auto simp: get_adapter_def adapters_ok_def list_all_iff find_Some_iff)
  ultimately show ?thesis
    using ok get_adapter_unique [OF ok] supports_chain_iff [of as]
    by (fastforce simp: adapters_ok_def evm_adapter_def check_fit_for_relay_def list_all_iff
        split: sum.splits if_splits)
qed

theorem registered_adapters_are_fit_witness:
  "let a = evm_adapter length_hash length_hash sample_bls (\<lambda>_ _. Inl []) sample_adapter;
       as = snd (register_adapter a adapter_registry_new)
   in get_adapter as Ethereum = Some a
    \<and> register_adapter a as = (Inl (DuplicateChainAdapter Ethereum), as)"
proof -
  let ?a = "evm_adapter length_hash length_hash sample_bls (\<lambda>_ _. Inl []) sample_adapter"
  let ?as = "snd (register_adapter ?a adapter_registry_new)"
  have r: "reach adapters_init adapters_step ?as"
    by (rule reach_step [OF reach_init]) (auto simp: adapters_init_def adapters_step_def)
  have "?as = [?a]"
    by (simp add: register_adapter_def adapter_registry_new_def evm_adapter_def check_fit_for_relay_def sample_adapter_def
        list_all_iff)
  moreover have "chain_type ?a = Ethereum" by (simp add: evm_adapter_def)
  ultimately show ?thesis using registered_adapters_are_fit [OF r, where H = length_hash and K = length_hash and B = sample_bls and de = "\<lambda>_ _. Inl []"]
    by simp
qed

text \<open>
  The leaf a relayer's result commits to is not injective: its fields are hashed without their
  lengths, so a result with a message has the leaf of one without, under a longer transaction hash.
\<close>

lemma result_leaf_is_ambiguous:
  assumes "rr_message r = Some msg"
    and "(if rr_success r then 1 else 0) # msg_id msg = ascii ext @ [if s then 1 else 0]"
  shows "result_leaf H chain_bytes r =
    result_leaf H chain_bytes (r\<lparr> rr_tx_hash := rr_tx_hash r @ ext, rr_success := s, rr_message := None \<rparr>)"
  using assms by (simp add: result_leaf_def ascii_def)

end
