(* ===== verification/Tokenomics.thy ===== *)
theory Tokenomics
  imports Registry_Params
begin

text \<open>
  The supply of BUD: allocations, vesting, burns and yields (\<^verbatim>\<open>src/tokenomics/mod.rs\<close>) and the
  schedule of the validation reward pool (\<^verbatim>\<open>src/tokenomics/reward_pool.rs\<close>).
\<close>

subsection \<open>Supply and allocations\<close>

definition BUD_DECIMALS :: u32 where
  "BUD_DECIMALS = 6"

definition BUD_UNIT :: u64 where
  "BUD_UNIT = 1000000"

definition BUD_TOTAL_SUPPLY :: u64 where
  "BUD_TOTAL_SUPPLY = 100000000 * BUD_UNIT"

definition bud_units :: "u64 \<Rightarrow> u64" where
  "bud_units whole = whole * BUD_UNIT"

datatype allocation = Community | Liquidity | Ecosystem | Team | BurnReserve

fun allocation_label :: "allocation \<Rightarrow> string" where
  "allocation_label Community = ''community''"
| "allocation_label Liquidity = ''liquidity''"
| "allocation_label Ecosystem = ''ecosystem''"
| "allocation_label Team = ''team''"
| "allocation_label BurnReserve = ''burn_reserve''"

record vesting_schedule =
  vest_total :: u64
  vest_start_epoch :: u64
  vest_cliff_epochs :: u64
  vest_duration_epochs :: u64

definition unlocked_at :: "vesting_schedule \<Rightarrow> u64 \<Rightarrow> u64" where
  "unlocked_at v epoch =
     (if epoch < sat_add (vest_start_epoch v) (vest_cliff_epochs v) then 0
      else if vest_duration_epochs v = 0 then vest_total v
      else let elapsed = sat_sub epoch (vest_start_epoch v) in
        if elapsed \<ge> vest_duration_epochs v then vest_total v
        else ucast ((ucast (vest_total v) * ucast elapsed :: u128) div ucast (vest_duration_epochs v)))"

definition locked_at :: "vesting_schedule \<Rightarrow> u64 \<Rightarrow> u64" where
  "locked_at v epoch = sat_sub (vest_total v) (unlocked_at v epoch)"

record tokenomics_params =
  tk_community :: u64
  tk_liquidity :: u64
  tk_ecosystem :: u64
  tk_team :: u64
  tk_burn_reserve :: u64
  tk_epochs_per_year :: u64
  tk_annual_burn_ratio_fixed :: u64
  tk_team_cliff_epochs :: u64
  tk_team_vesting_epochs :: u64
  tk_tx_fee_burn_ratio_fixed :: u64
  tk_block_reward :: u64
  tk_slot_duration_secs :: u64
  tk_epoch_length_slots :: u64
  tk_validator_annual_yield_ratio_fixed :: u64

definition tokenomics_default :: tokenomics_params where
  "tokenomics_default =
     \<lparr> tk_community = bud_units 10000000, tk_liquidity = bud_units 10000000, tk_ecosystem = bud_units 20000000,
       tk_team = bud_units 20000000, tk_burn_reserve = bud_units 40000000, tk_epochs_per_year = 1000,
       tk_annual_burn_ratio_fixed = FIXED_POINT_SCALE div 10, tk_team_cliff_epochs = 1000,
       tk_team_vesting_epochs = 4000, tk_tx_fee_burn_ratio_fixed = FIXED_POINT_SCALE div 100, tk_block_reward = 50,
       tk_slot_duration_secs = 10, tk_epoch_length_slots = 32,
       tk_validator_annual_yield_ratio_fixed = FIXED_POINT_SCALE * 5 div 100 \<rparr>"

definition seconds_per_epoch :: "tokenomics_params \<Rightarrow> u64" where
  "seconds_per_epoch p = sat_mul (max (tk_slot_duration_secs p) 1) (max (tk_epoch_length_slots p) 1)"

definition seconds_per_year :: "tokenomics_params \<Rightarrow> u64" where
  "seconds_per_year p = sat_mul (max (tk_epochs_per_year p) 1) (seconds_per_epoch p)"

definition epoch_at_timestamp :: "tokenomics_params \<Rightarrow> u64 \<Rightarrow> u64" where
  "epoch_at_timestamp p timestamp_secs = timestamp_secs div seconds_per_epoch p"

definition tokenomics_total :: "tokenomics_params \<Rightarrow> u64" where
  "tokenomics_total p =
     sat_add (sat_add (sat_add (sat_add (tk_community p) (tk_liquidity p)) (tk_ecosystem p)) (tk_team p)) (tk_burn_reserve p)"

definition is_balanced :: "tokenomics_params \<Rightarrow> bool" where
  "is_balanced p = (tokenomics_total p = BUD_TOTAL_SUPPLY)"

fun amount_of :: "tokenomics_params \<Rightarrow> allocation \<Rightarrow> u64" where
  "amount_of p Community = tk_community p"
| "amount_of p Liquidity = tk_liquidity p"
| "amount_of p Ecosystem = tk_ecosystem p"
| "amount_of p Team = tk_team p"
| "amount_of p BurnReserve = tk_burn_reserve p"

definition team_vesting_schedule :: "tokenomics_params \<Rightarrow> u64 \<Rightarrow> vesting_schedule" where
  "team_vesting_schedule p genesis_epoch =
     \<lparr> vest_total = tk_team p, vest_start_epoch = genesis_epoch, vest_cliff_epochs = tk_team_cliff_epochs p,
       vest_duration_epochs = tk_team_vesting_epochs p \<rparr>"

definition calculate_epoch_reward :: "tokenomics_params \<Rightarrow> u64 \<Rightarrow> u64" where
  "calculate_epoch_reward p validator_stake =
     (if validator_stake = 0 then 0
      else let annual_yield = (ucast validator_stake * ucast (tk_validator_annual_yield_ratio_fixed p) :: u128)
                 div ucast FIXED_POINT_SCALE;
               epochs_per_year = ucast (max (tk_epochs_per_year p) 1)
           in narrow_or_max (annual_yield div epochs_per_year))"

definition annual_burn_amount :: "tokenomics_params \<Rightarrow> u64" where
  "annual_burn_amount p =
     ucast ((ucast (tk_burn_reserve p) * ucast (tk_annual_burn_ratio_fixed p) :: u128) div ucast FIXED_POINT_SCALE)"

definition metabolic_burn :: "tokenomics_params \<Rightarrow> u64 \<Rightarrow> u64" where
  "metabolic_burn p fee = ucast ((ucast fee * ucast (tk_tx_fee_burn_ratio_fixed p) :: u128) div ucast FIXED_POINT_SCALE)"

record tokenomics_addresses =
  ta_community :: address
  ta_liquidity :: address
  ta_ecosystem :: address
  ta_team :: address
  ta_burn_reserve :: address

definition reserved_address :: "u8 \<Rightarrow> address" where
  "reserved_address tag = [0xB0, 0xD0, tag] @ replicate 29 0"

definition addresses_reserved :: tokenomics_addresses where
  "addresses_reserved =
     \<lparr> ta_community = reserved_address 1, ta_liquidity = reserved_address 2, ta_ecosystem = reserved_address 3,
       ta_team = reserved_address 4, ta_burn_reserve = reserved_address 5 \<rparr>"

fun address_of :: "tokenomics_addresses \<Rightarrow> allocation \<Rightarrow> address" where
  "address_of a Community = ta_community a"
| "address_of a Liquidity = ta_liquidity a"
| "address_of a Ecosystem = ta_ecosystem a"
| "address_of a Team = ta_team a"
| "address_of a BurnReserve = ta_burn_reserve a"

definition genesis_allocations ::
  "tokenomics_params \<Rightarrow> tokenomics_addresses \<Rightarrow> string + (address \<times> u64) list" where
  "genesis_allocations p addrs =
     (if \<not> is_balanced p
      then Inl (''tokenomics allocations sum to '' @ decimal (unat (tokenomics_total p))
             @ '' base units, not the fixed supply of '' @ decimal (unat BUD_TOTAL_SUPPLY))
      else Inr [(ta_community addrs, tk_community p), (ta_liquidity addrs, tk_liquidity p),
                (ta_ecosystem addrs, tk_ecosystem p), (ta_team addrs, tk_team p),
                (ta_burn_reserve addrs, tk_burn_reserve p)])"

record timed_burn_state =
  years_burned :: u64
  total_burned :: u64

definition timed_burn_new :: timed_burn_state where
  "timed_burn_new = \<lparr> years_burned = 0, total_burned = 0 \<rparr>"

definition due_years :: "u64 \<Rightarrow> u64 \<Rightarrow> u64 \<Rightarrow> u64" where
  "due_years genesis_epoch current_epoch epochs_per_year =
     (if epochs_per_year = 0 then 0 else sat_sub current_epoch genesis_epoch div epochs_per_year)"

definition due_years_by_time :: "u64 \<Rightarrow> u64 \<Rightarrow> u64 \<Rightarrow> u64" where
  "due_years_by_time genesis_timestamp_secs current_timestamp_secs secs_per_year =
     (if secs_per_year = 0 then 0 else sat_sub current_timestamp_secs genesis_timestamp_secs div secs_per_year)"

subsection \<open>The validation reward pool\<close>

definition DEFAULT_VALIDATION_REWARD_POOL :: u64 where
  "DEFAULT_VALIDATION_REWARD_POOL = bud_units 10000000"

definition DEFAULT_TREASURY_POOL :: u64 where
  "DEFAULT_TREASURY_POOL = bud_units 2000000"

definition DEFAULT_VALIDATION_POOL_EPOCHS :: u64 where
  "DEFAULT_VALIDATION_POOL_EPOCHS = 100000"

record reward_pool_schedule =
  validation_reward_pool :: u64
  validation_pool_epochs :: u64
  treasury_pool :: u64
  reward_pool_start_epoch :: u64

definition reward_pool_default :: reward_pool_schedule where
  "reward_pool_default =
     \<lparr> validation_reward_pool = DEFAULT_VALIDATION_REWARD_POOL, validation_pool_epochs = DEFAULT_VALIDATION_POOL_EPOCHS,
       treasury_pool = DEFAULT_TREASURY_POOL, reward_pool_start_epoch = 0 \<rparr>"

datatype reward_pool_error = EmptyEpochSchedule | PoolExceedsFixedSupply

definition reward_pool_validate :: "reward_pool_schedule \<Rightarrow> reward_pool_error + unit" where
  "reward_pool_validate s =
     (if validation_pool_epochs s = 0 then Inl EmptyEpochSchedule
      else if sat_add (validation_reward_pool s) (treasury_pool s) > BUD_TOTAL_SUPPLY then Inl PoolExceedsFixedSupply
      else Inr ())"

definition per_epoch_budget :: "reward_pool_schedule \<Rightarrow> u64 \<Rightarrow> u64 \<Rightarrow> u64" where
  "per_epoch_budget s epoch remaining_pool =
     (if epoch < reward_pool_start_epoch s \<or> validation_pool_epochs s = 0 then 0
      else min (validation_reward_pool s div validation_pool_epochs s) remaining_pool)"

definition reward_for_epoch ::
  "reward_pool_schedule \<Rightarrow> u64 \<Rightarrow> u64 \<Rightarrow> (address \<times> u64) list \<Rightarrow> (address \<times> u64) list" where
  "reward_for_epoch schedule epoch remaining_pool active_validator_stakes =
     (let budget = per_epoch_budget schedule epoch remaining_pool in
      if budget = 0 \<or> active_validator_stakes = [] then []
      else
        let validators = sort_key fst (filter (\<lambda>(_, stake). stake > 0) active_validator_stakes);
            total_stake = (\<Sum>(_, stake)\<leftarrow>validators. ucast stake :: u128)
        in if total_stake = 0 then []
           else
             let out = map (\<lambda>(addr, stake). (addr, ucast (ucast budget * ucast stake div total_stake))) validators;
                 paid = fold (\<lambda>(_, share) paid. sat_add paid share) out 0;
                 remainder = sat_sub budget paid
             in if remainder > 0
                then (case out of [] \<Rightarrow> [] | (addr, first_share) # rest \<Rightarrow> (addr, sat_add first_share remainder) # rest)
                else out)"

definition total_epoch_payout :: "(address \<times> u64) list \<Rightarrow> u64" where
  "total_epoch_payout payouts = fold (\<lambda>(_, amount) acc. sat_add acc amount) payouts 0"

end
