(* ===== verification/Relay_Execution.thy ===== *)
theory Relay_Execution
  imports Chain_Adapter Bridge Registry Tokenomics
begin

text \<open>
  How the executor applies a relayer's result: the \<^verbatim>\<open>RelayerResult\<close> branch of
  \<^verbatim>\<open>apply_transaction_checked\<close> in \<^verbatim>\<open>src/execution/executor.rs\<close>, and the balances and the
  supply cap of \<^verbatim>\<open>src/core/account.rs\<close> it works on. The state holds the fields of
  \<^verbatim>\<open>AccountState\<close> that this branch and the burns read or write; of a validator only the stake is read.
  An operation that fails part-way returns the state it has reached, as a \<open>&mut\<close> does. The
  \<open>bincode\<close> decoder of a proof and the serialised chain are parameters.
\<close>

subsection \<open>Balances and the supply cap\<close>

record account =
  acc_public_key :: address
  acc_balance :: u64
  acc_nonce :: u64

definition account_new :: "address \<Rightarrow> account" where
  "account_new public_key = \<lparr> acc_public_key = public_key, acc_balance = 0, acc_nonce = 0 \<rparr>"

record unbonding_entry =
  ub_address :: address
  ub_amount :: u64
  ub_release_epoch :: u64

record account_state =
  accounts :: "(address, account) btree_map"
  validator_stakes :: "(address, u64) btree_map"
  unbonding_queue :: "unbonding_entry list"
  state_registry :: registry
  state_bridge :: bridge_state
  external_roots :: "(domain_id, hash32) btree_map"
  state_tokenomics :: tokenomics_params
  timed_burn :: timed_burn_state
  burn_reserve_address :: "address option"
  team_vesting :: "(address \<times> vesting_schedule) option"
  epoch_index :: u64
  current_block_height :: u64
  dirty_accounts :: "address set"
  keys_dirty :: bool

definition get_or_create :: "address \<Rightarrow> account_state \<Rightarrow> account \<times> account_state" where
  "get_or_create public_key s =
     (let s = (if \<not> bt_contains (accounts s) public_key
               then s\<lparr> accounts := bt_insert public_key (account_new public_key) (accounts s), keys_dirty := True \<rparr>
               else s);
          s = s\<lparr> dirty_accounts := insert public_key (dirty_accounts s) \<rparr>
      in (case bt_get (accounts s) public_key of None \<Rightarrow> account_new public_key | Some a \<Rightarrow> a, s))"

definition try_add_balance :: "address \<Rightarrow> u64 \<Rightarrow> account_state \<Rightarrow> (string, unit, account_state) outcome" where
  "try_add_balance public_key amount s =
     (let (account, s) = get_or_create public_key s in
      case checked_add (acc_balance account) amount of
        None \<Rightarrow> (Inl (''balance overflow: '' @ decimal (unat (acc_balance account)) @ '' + ''
                     @ decimal (unat amount) @ '' > u64::MAX''), s)
      | Some balance \<Rightarrow>
          (Inr (), s\<lparr> accounts := bt_insert public_key (account\<lparr> acc_balance := balance \<rparr>) (accounts s),
                     dirty_accounts := insert public_key (dirty_accounts s) \<rparr>))"

definition circulating_supply :: "account_state \<Rightarrow> u128" where
  "circulating_supply s = fold (\<lambda>a acc. acc + ucast (acc_balance a)) (bt_values (accounts s)) 0"

definition total_staked_supply :: "account_state \<Rightarrow> u128" where
  "total_staked_supply s = fold (\<lambda>v acc. acc + ucast v) (bt_values (validator_stakes s)) 0"

definition total_unbonding_supply :: "account_state \<Rightarrow> u128" where
  "total_unbonding_supply s = fold (\<lambda>e acc. acc + ucast (ub_amount e)) (unbonding_queue s) 0"

definition total_registry_role_bonded_supply :: "account_state \<Rightarrow> u128" where
  "total_registry_role_bonded_supply s = total_bonded_stake_excluding (state_registry s) VALIDATOR"

definition total_bud_committed :: "account_state \<Rightarrow> u128" where
  "total_bud_committed s =
     sat_add (sat_add (sat_add (circulating_supply s) (total_staked_supply s)) (total_unbonding_supply s))
       (total_registry_role_bonded_supply s)"

definition supply_capacity_remaining :: "account_state \<Rightarrow> u64" where
  "supply_capacity_remaining s =
     ucast (min (sat_sub (ucast BUD_TOTAL_SUPPLY) (total_bud_committed s)) (ucast (- 1 :: u64)))"

definition ensure_mint_headroom :: "u64 \<Rightarrow> account_state \<Rightarrow> string + unit" where
  "ensure_mint_headroom amount s =
     (let headroom = supply_capacity_remaining s in
      if amount > headroom
      then Inl (''supply cap: minting '' @ decimal (unat amount) @ '' would put total committed supply above ''
        @ ''BUD_TOTAL_SUPPLY; only '' @ decimal (unat headroom) @ '' remains. Committed supply counts liquid ''
        @ ''balances, validator stake, unbonding entries and role bonds, so the cap is ''
        @ ''a property of the chain and not of any one account.'')
      else Inr ())"

definition try_mint_balance :: "address \<Rightarrow> u64 \<Rightarrow> account_state \<Rightarrow> (string, unit, account_state) outcome" where
  "try_mint_balance public_key amount s =
     (case ensure_mint_headroom amount s of
        Inl e \<Rightarrow> (Inl e, s)
      | Inr _ \<Rightarrow> try_add_balance public_key amount s)"

definition get_balance :: "address \<Rightarrow> account_state \<Rightarrow> u64" where
  "get_balance public_key s = (case bt_get (accounts s) public_key of None \<Rightarrow> 0 | Some a \<Rightarrow> acc_balance a)"

definition add_balance :: "address \<Rightarrow> u64 \<Rightarrow> account_state \<Rightarrow> account_state" where
  "add_balance public_key amount s =
     (let (account, s) = get_or_create public_key s
      in s\<lparr> accounts := bt_insert public_key (account\<lparr> acc_balance := sat_add (acc_balance account) amount \<rparr>) (accounts s),
            dirty_accounts := insert public_key (dirty_accounts s) \<rparr>)"

definition spendable_balance :: "address \<Rightarrow> account_state \<Rightarrow> u64" where
  "spendable_balance addr s =
     (if burn_reserve_address s = Some addr then 0
      else let balance = get_balance addr s in
        case team_vesting s of
          None \<Rightarrow> balance
        | Some (team, schedule) \<Rightarrow>
            if team = addr then sat_sub balance (locked_at schedule (epoch_index s)) else balance)"

definition burn_from :: "address \<Rightarrow> u64 \<Rightarrow> account_state \<Rightarrow> u64 \<times> account_state" where
  "burn_from addr amount s =
     (if amount = 0 then (0, s)
      else
        let (account, s) = get_or_create addr s;
            burned = min amount (acc_balance account)
        in (burned, s\<lparr> accounts := bt_insert addr (account\<lparr> acc_balance := acc_balance account - burned \<rparr>) (accounts s),
                       dirty_accounts := insert addr (dirty_accounts s) \<rparr>))"

text \<open>The loop of at most \<open>n\<close> annual burns, which stops at the first one that burns nothing.\<close>

fun burn_years :: "nat \<Rightarrow> address \<Rightarrow> u64 \<Rightarrow> u64 \<Rightarrow> account_state \<Rightarrow> u64 \<times> account_state" where
  "burn_years 0 reserve per_year burnt s = (burnt, s)"
| "burn_years (Suc n) reserve per_year burnt s =
     (case burn_from reserve per_year s of
        (burned, s) \<Rightarrow>
          if burned = 0 then (burnt, s)
          else burn_years n reserve per_year (sat_add burnt burned)
                 (s\<lparr> timed_burn := (timed_burn s)\<lparr> total_burned := sat_add (total_burned (timed_burn s)) burned \<rparr> \<rparr>))"

definition process_due_timed_burn :: "u64 \<Rightarrow> address \<Rightarrow> account_state \<Rightarrow> u64 \<times> account_state" where
  "process_due_timed_burn due reserve s =
     (if due \<le> years_burned (timed_burn s) then (0, s)
      else
        let per_year = annual_burn_amount (state_tokenomics s);
            outstanding = due - years_burned (timed_burn s);
            (burnt, s) = burn_years (unat outstanding) reserve per_year 0 s
        in (burnt, s\<lparr> timed_burn := (timed_burn s)\<lparr> years_burned := due \<rparr> \<rparr>))"

definition process_timed_burn :: "u64 \<Rightarrow> address \<Rightarrow> account_state \<Rightarrow> u64 \<times> account_state" where
  "process_timed_burn genesis_epoch reserve s =
     process_due_timed_burn (due_years genesis_epoch (epoch_index s) (tk_epochs_per_year (state_tokenomics s))) reserve s"

definition process_timed_burn_at_time :: "u64 \<Rightarrow> u64 \<Rightarrow> address \<Rightarrow> account_state \<Rightarrow> u64 \<times> account_state" where
  "process_timed_burn_at_time genesis_timestamp_secs current_timestamp_secs reserve s =
     process_due_timed_burn
       (due_years_by_time genesis_timestamp_secs current_timestamp_secs (seconds_per_year (state_tokenomics s))) reserve s"

definition anchor_external_root :: "domain_id \<Rightarrow> hash32 \<Rightarrow> account_state \<Rightarrow> bool \<times> account_state" where
  "anchor_external_root domain root s =
     (if root = replicate 32 0 then (False, s)
      else (True, s\<lparr> external_roots := bt_insert domain root (external_roots s) \<rparr>))"

subsection \<open>The gate\<close>

text \<open>A validation error: its code, and the message, which may be one of the bridge's.\<close>

datatype exec_detail = Message string | BridgeMessage bridge_error

datatype exec_error = ExecError (err_code: string) (err_detail: exec_detail)

text \<open>
  \<open>trim().is_empty()\<close>: every character is Unicode white space, on the UTF-8 bytes.
\<close>

fun all_white :: "bytes \<Rightarrow> bool" where
  "all_white [] = True"
| "all_white (a # bs) =
     (if 9 \<le> a \<and> a \<le> 13 \<or> a = 32 then all_white bs
      else case bs of
        [] \<Rightarrow> False
      | b # cs \<Rightarrow>
          if a = 0xc2 then (b = 0x85 \<or> b = 0xa0) \<and> all_white cs
          else (case cs of
              [] \<Rightarrow> False
            | c # ds \<Rightarrow>
                (a = 0xe1 \<and> b = 0x9a \<and> c = 0x80
                 \<or> a = 0xe2 \<and> b = 0x80 \<and> (0x80 \<le> c \<and> c \<le> 0x8a \<or> c = 0xa8 \<or> c = 0xa9 \<or> c = 0xaf)
                 \<or> a = 0xe2 \<and> b = 0x81 \<and> c = 0x9f
                 \<or> a = 0xe3 \<and> b = 0x80 \<and> c = 0x80)
                \<and> all_white ds))"

definition MAX_RELAYER_RESULT_PROOF_BYTES :: u64 where
  "MAX_RELAYER_RESULT_PROOF_BYTES = 4 * 1024"

type_synonym proof_decoder = "u64 \<Rightarrow> bytes \<Rightarrow> string + merkle_proof_data"

definition relayer_result_gate ::
  "hasher \<Rightarrow> (external_chain \<Rightarrow> bytes) \<Rightarrow> proof_decoder \<Rightarrow> relayer_external_result \<Rightarrow> account_state \<Rightarrow>
   exec_error + unit" where
  "relayer_result_gate H chain_bytes de res s =
     (if all_white (ascii (rr_tx_hash res))
      then Inl (ExecError ''relayer_empty_tx_hash'' (Message ''Transaction hash cannot be empty''))
      else if rr_chain res = Ethereum
      then Inl (ExecError ''relayer_evm_package_required''
        (Message ''Ethereum relay results require the full DepositProofPackage consensus path''))
      else if rr_receipt_proof res = []
      then Inl (ExecError ''relayer_invalid_proof'' (Message ''Receipt proof cannot be empty''))
      else if length (rr_receipt_proof res) > unat MAX_RELAYER_RESULT_PROOF_BYTES
      then Inl (ExecError ''relayer_proof_malformed'' (Message ''Receipt proof exceeds the size ceiling''))
      else if rr_external_state_root res = replicate 32 0
      then Inl (ExecError ''relayer_zero_root'' (Message ''External state root cannot be zero''))
      else if bt_get (external_roots s) (chain_domain_id (rr_chain res)) \<noteq> Some (rr_external_state_root res)
      then Inl (ExecError ''relayer_unanchored_root''
        (Message ''external state root has no finalized light-client anchor''))
      else case de MAX_RELAYER_RESULT_PROOF_BYTES (rr_receipt_proof res) of
        Inl e \<Rightarrow> Inl (ExecError ''relayer_proof_malformed'' (Message e))
      | Inr prf \<Rightarrow>
          if proof_siblings prf = []
          then Inl (ExecError ''relayer_proof_path'' (Message ''Receipt proof must contain a sibling path''))
          else if proof_leaf prf \<noteq> result_leaf H chain_bytes res
          then Inl (ExecError ''relayer_leaf_mismatch''
            (Message ''Proof leaf does not match the declared result facts''))
          else if \<not> proof_verify H prf (rr_external_state_root res)
          then Inl (ExecError ''relayer_proof_invalid''
            (Message ''Merkle proof does not anchor to the declared external state root''))
          else Inr ())"

subsection \<open>Effects\<close>

definition lift_error :: "string \<Rightarrow> (string, unit, account_state) outcome \<Rightarrow> (exec_error, unit, account_state) outcome" where
  "lift_error code r = (case r of (Inl e, s) \<Rightarrow> (Inl (ExecError code (Message e)), s) | (Inr _, s) \<Rightarrow> (Inr (), s))"

definition pay_fee_share ::
  "string \<Rightarrow> (address \<Rightarrow> u64 \<Rightarrow> account_state \<Rightarrow> (string, unit, account_state) outcome) \<Rightarrow> address \<Rightarrow> Bud \<Rightarrow>
   account_state \<Rightarrow> (exec_error, unit, account_state) outcome" where
  "pay_fee_share code credit from fee s =
     (if \<not> bud_is_zero fee then lift_error code (credit from (bud_get fee) s) else (Inr (), s))"

definition inbound_lock ::
  "hasher \<Rightarrow> address \<Rightarrow> cross_domain_message \<Rightarrow> account_state \<Rightarrow> (exec_error, unit, account_state) outcome" where
  "inbound_lock H from msg s =
     (case get_transfer (state_bridge s) (msg_id msg) of
        None \<Rightarrow> (Inl (ExecError ''bridge_mint_failed'' (Message ''Unknown bridge transfer for mint'')), s)
      | Some transfer \<Rightarrow>
      (let params = reg_params (state_registry s) in
       case split_bridge_fee (xfer_amount transfer) (bridge_relayer_fee_ppm params) (bridge_relayer_min_fee params) of
        Inl e \<Rightarrow> (Inl (ExecError ''bridge_fee_below_minimum'' (BridgeMessage e)), s)
      | Inr (final_amount, fee) \<Rightarrow>
      (case checked_add (bud_get final_amount) (bud_get fee) of
        None \<Rightarrow> (Inl (ExecError ''bridge_mint_failed''
                  (Message ''Bridge amount exceeds maximum representable balance'')), s)
      | Some minted \<Rightarrow>
      (case ensure_mint_headroom minted s of
        Inl e \<Rightarrow> (Inl (ExecError ''bridge_mint_overflow'' (Message e)), s)
      | Inr _ \<Rightarrow>
      (case bridge_mint H msg (current_block_height s) (state_bridge s) of
        (Inl e, b) \<Rightarrow> (Inl (ExecError ''bridge_mint_failed'' (BridgeMessage e)), s\<lparr> state_bridge := b \<rparr>)
      | (Inr _, b) \<Rightarrow>
      (case lift_error ''bridge_mint_overflow''
              (try_mint_balance (xfer_recipient transfer) (bud_get final_amount) (s\<lparr> state_bridge := b \<rparr>)) of
        (Inl e, s) \<Rightarrow> (Inl e, s)
      | (Inr _, s) \<Rightarrow> pay_fee_share ''bridge_fee_overflow'' try_mint_balance from fee s))))))"

definition inbound_burn ::
  "address \<Rightarrow> cross_domain_message \<Rightarrow> account_state \<Rightarrow> (exec_error, unit, account_state) outcome" where
  "inbound_burn from msg s =
     (case msg_correlation_id msg of
        None \<Rightarrow> (Inl (ExecError ''bridge_unlock_failed'' (Message ''Bridge burn message missing correlation_id'')), s)
      | Some transfer_id \<Rightarrow>
      (case get_transfer (state_bridge s) transfer_id of
        None \<Rightarrow> (Inl (ExecError ''bridge_unlock_failed'' (Message ''Unknown bridge transfer for unlock'')), s)
      | Some transfer \<Rightarrow>
      (case check_burn_matches_lock_domain (xfer_source_domain transfer) (msg_target_domain msg) of
        Inl e \<Rightarrow> (Inl (ExecError ''bridge_unlock_failed'' (BridgeMessage e)), s)
      | Inr _ \<Rightarrow>
      (case bridge_unlock transfer_id (msg_source_domain msg) (current_block_height s) (state_bridge s) of
        (Inl e, b) \<Rightarrow> (Inl (ExecError ''bridge_unlock_failed'' (BridgeMessage e)), s\<lparr> state_bridge := b \<rparr>)
      | (Inr _, b) \<Rightarrow>
      (let s = s\<lparr> state_bridge := b \<rparr>; params = reg_params (state_registry s) in
       case split_bridge_fee (xfer_amount transfer) (bridge_relayer_fee_ppm params) (bridge_relayer_min_fee params) of
        Inl e \<Rightarrow> (Inl (ExecError ''bridge_fee_below_minimum'' (BridgeMessage e)), s)
      | Inr (final_amount, fee) \<Rightarrow>
      (case lift_error ''bridge_unlock_overflow'' (try_add_balance (xfer_owner transfer) (bud_get final_amount) s) of
        (Inl e, s) \<Rightarrow> (Inl e, s)
      | (Inr _, s) \<Rightarrow> pay_fee_share ''bridge_unlock_fee_overflow'' try_add_balance from fee s))))))"

definition result_effect ::
  "hasher \<Rightarrow> address \<Rightarrow> relayer_external_result \<Rightarrow> account_state \<Rightarrow> (exec_error, unit, account_state) outcome" where
  "result_effect H from res s =
     (case rr_message res of
        None \<Rightarrow> (Inr (), s)
      | Some msg \<Rightarrow>
          if \<not> rr_success res then (Inr (), s)
          else case msg_kind msg of
            BridgeLock \<Rightarrow> inbound_lock H from msg s
          | BridgeBurn \<Rightarrow> inbound_burn from msg s
          | _ \<Rightarrow> (Inr (), s))"

definition debit_sender :: "address \<Rightarrow> u64 \<Rightarrow> account_state \<Rightarrow> (exec_error, unit, account_state) outcome" where
  "debit_sender from fee s =
     (let (sender, s) = get_or_create from s in
      if acc_balance sender < fee
      then (Inl (ExecError ''balance_underflow'' (Message ''balance underflow'')), s)
      else (Inr (), s\<lparr> accounts := bt_insert from
             (sender\<lparr> acc_balance := acc_balance sender - fee, acc_nonce := sat_add (acc_nonce sender) 1 \<rparr>) (accounts s) \<rparr>))"

definition apply_relayer_result ::
  "hasher \<Rightarrow> (external_chain \<Rightarrow> bytes) \<Rightarrow> proof_decoder \<Rightarrow> address \<Rightarrow> u64 \<Rightarrow> relayer_external_result \<Rightarrow>
   account_state \<Rightarrow> (exec_error, unit, account_state) outcome" where
  "apply_relayer_result H chain_bytes de from fee res s =
     (case relayer_result_gate H chain_bytes de res s of
        Inl e \<Rightarrow> (Inl e, s)
      | Inr _ \<Rightarrow>
          (case result_effect H from res s of
             (Inl e, s) \<Rightarrow> (Inl e, s)
           | (Inr _, s) \<Rightarrow> debit_sender from fee s))"

text \<open>The checks on the sender that come first for every transaction; \<open>verified\<close> is \<open>tx.verify()\<close>.\<close>

definition apply_relayer_transaction ::
  "hasher \<Rightarrow> (external_chain \<Rightarrow> bytes) \<Rightarrow> proof_decoder \<Rightarrow> bool \<Rightarrow> address \<Rightarrow> u64 \<Rightarrow> u64 \<Rightarrow> relayer_external_result \<Rightarrow>
   account_state \<Rightarrow> (exec_error, unit, account_state) outcome" where
  "apply_relayer_transaction H chain_bytes de verified from amount fee res s =
     (if from = zero_address
      then (if verified then (Inr (), s)
            else (Inl (ExecError ''zero_address_sender_forbidden'' (Message
              (''the zero address cannot originate transactions outside the canonical genesis '' @ ''transaction''))), s))
      else if burn_reserve_address s = Some from
      then (Inl (ExecError ''burn_reserve_locked''
              (Message ''Burn reserve is schedule-controlled and cannot originate transactions'')), s)
      else
        let (sender, s) = get_or_create from s in
        if acc_balance sender < sat_add amount fee
        then (Inl (ExecError ''insufficient_balance'' (Message ''Insufficient balance'')), s)
        else apply_relayer_result H chain_bytes de from fee res s)"

end
