(* ===== verification/Relay_Theorems.thy ===== *)
theory Relay_Theorems
  imports Relay_Execution Bridge_Custody
begin

text \<open>
  The properties of executed relayer results: what the supply cap guarantees of a mint, and how
  far a refusal leaves the state as it was.
\<close>

subsection \<open>Sums of balances\<close>

definition balance_sum :: "account_state \<Rightarrow> nat" where
  "balance_sum s = sum_list (map (\<lambda>(k, a). unat (acc_balance a)) (bt_entries (accounts s)))"

definition balance_of :: "account_state \<Rightarrow> address \<Rightarrow> nat" where
  "balance_of s k = (case bt_get (accounts s) k of None \<Rightarrow> 0 | Some a \<Rightarrow> unat (acc_balance a))"

text \<open>The supply that is not in accounts.\<close>

definition bonded_sum :: "account_state \<Rightarrow> nat" where
  "bonded_sum s = unat (total_staked_supply s) + unat (total_unbonding_supply s) + unat (total_registry_role_bonded_supply s)"

lemma unat_up [simp]: "unat (ucast v :: u128) = unat v" for v :: u64
  by (simp add: unat_ucast_up)

lemma unat_fold_add:
  fixes z :: u128
  assumes "unat z + (\<Sum>x\<leftarrow>xs. unat (f x)) < 2 ^ 128"
  shows "unat (fold (\<lambda>x acc. acc + ucast (f x :: u64)) xs z) = unat z + (\<Sum>x\<leftarrow>xs. unat (f x))"
  using assms
proof (induction xs arbitrary: z)
  case (Cons x xs)
  have "unat (z + ucast (f x)) = unat z + unat (f x)"
    using Cons.prems by (subst unat_add_lem [THEN iffD1]) simp_all
  then show ?case using Cons.IH [of "z + ucast (f x)"] Cons.prems by simp
qed simp

lemma balance_sum_insert:
  "balance_sum (s\<lparr> accounts := bt_insert k a (accounts s) \<rparr>) + balance_of s k = balance_sum s + unat (acc_balance a)"
  using bt.sum_insert [of "\<lambda>k a. unat (acc_balance a)" k a "accounts s"]
  by (simp add: balance_sum_def balance_of_def split: option.splits)

lemma balance_le_sum: "balance_of s k \<le> balance_sum s"
  using balance_sum_insert [where s = s and k = k and a = "account_new k"] by (simp add: account_new_def)

lemma circulating_exact:
  assumes "balance_sum s < 2 ^ 128"
  shows "unat (circulating_supply s) = balance_sum s"
proof -
  have "(\<Sum>a\<leftarrow>bt_values (accounts s). unat (acc_balance a)) = balance_sum s"
    unfolding balance_sum_def bt_values_def by (simp add: comp_def case_prod_unfold)
  then show ?thesis
    using assms unat_fold_add [of 0 acc_balance "bt_values (accounts s)"] by (simp add: circulating_supply_def)
qed

lemma committed_exact:
  assumes "balance_sum s < 2 ^ 128"
  shows "unat (total_bud_committed s) = min (balance_sum s + bonded_sum s) (2 ^ 128 - 1)"
  by (simp add: total_bud_committed_def unat_sat_add circulating_exact [OF assms] bonded_sum_def)

lemma cap_value: "unat BUD_TOTAL_SUPPLY = 100000000000000"
  by (simp add: BUD_TOTAL_SUPPLY_def BUD_UNIT_def)

lemma headroom_exact:
  assumes "balance_sum s < 2 ^ 128"
  shows "unat (supply_capacity_remaining s) = 100000000000000 - (balance_sum s + bonded_sum s)"
proof -
  let ?h = "sat_sub (ucast BUD_TOTAL_SUPPLY) (total_bud_committed s)"
  have h: "unat ?h = 100000000000000 - (balance_sum s + bonded_sum s)"
    by (simp add: unat_sat_sub committed_exact [OF assms] cap_value min_def)
  then have "?h \<le> ucast (- 1 :: u64)" by (simp add: word_le_nat_alt unat_max_word)
  then have "supply_capacity_remaining s = ucast ?h" by (simp add: supply_capacity_remaining_def min_def)
  then show ?thesis using h by (simp add: unsigned_ucast_eq take_bit_nat_eq_self)
qed

subsection \<open>Credits\<close>

text \<open>What no credit touches.\<close>

definition same_frame :: "account_state \<Rightarrow> account_state \<Rightarrow> bool" where
  "same_frame s t \<longleftrightarrow> validator_stakes t = validator_stakes s \<and> unbonding_queue t = unbonding_queue s
     \<and> state_registry t = state_registry s \<and> state_bridge t = state_bridge s \<and> external_roots t = external_roots s
     \<and> burn_reserve_address t = burn_reserve_address s \<and> current_block_height t = current_block_height s"

lemma same_frame_bonded: "same_frame s t \<Longrightarrow> bonded_sum t = bonded_sum s"
  by (simp add: same_frame_def bonded_sum_def total_staked_supply_def total_unbonding_supply_def
      total_registry_role_bonded_supply_def)

lemma same_frame_trans: "same_frame s t \<Longrightarrow> same_frame t u \<Longrightarrow> same_frame s u"
  by (simp add: same_frame_def)

lemma get_or_create_effect:
  assumes "get_or_create k s = (a, t)"
  shows "unat (acc_balance a) = balance_of s k" "balance_of t = balance_of s" "balance_sum t = balance_sum s" "same_frame s t"
    "bt_get (accounts t) k = Some a"
proof -
  have t: "accounts t = (if bt_get (accounts s) k = None then bt_insert k (account_new k) (accounts s) else accounts s)"
    "same_frame s t" "bt_get (accounts t) k = Some a"
    using assms by (auto simp: get_or_create_def Let_def bt_contains_def same_frame_def split: if_splits option.splits)
  show "same_frame s t" "bt_get (accounts t) k = Some a" by (fact t)+
  show bal: "balance_of t = balance_of s" by (auto simp: fun_eq_iff balance_of_def t(1) account_new_def)
  show "unat (acc_balance a) = balance_of s k" using t(3) fun_cong [OF bal, of k] by (simp add: balance_of_def)
  show "balance_sum t = balance_sum s"
    using balance_sum_insert [where s = s and k = k and a = "account_new k"]
    by (auto simp: balance_sum_def t(1) account_new_def balance_of_def)
qed

lemma try_add_balance_effect:
  assumes "try_add_balance k n s = (r, t)"
  shows "same_frame s t"
    and "balance_of s k + unat n < 2 ^ 64 \<Longrightarrow> r = Inr () \<and> balance_sum t = balance_sum s + unat n
          \<and> balance_of t = (balance_of s)(k := balance_of s k + unat n)"
    and "\<not> balance_of s k + unat n < 2 ^ 64 \<Longrightarrow> (\<exists>e. r = Inl e) \<and> balance_of t = balance_of s"
proof -
  obtain a u where u: "get_or_create k s = (a, u)" by (cases "get_or_create k s")
  note e = get_or_create_effect [OF u]
  show "same_frame s t"
    using assms e(4) by (auto simp: try_add_balance_def u same_frame_def split: option.splits)
  show "(\<exists>e. r = Inl e) \<and> balance_of t = balance_of s" if "\<not> balance_of s k + unat n < 2 ^ 64"
    using assms that e(1,2) by (auto simp: try_add_balance_def u checked_add_def)
  assume n: "balance_of s k + unat n < 2 ^ 64"
  let ?b = "a\<lparr> acc_balance := acc_balance a + n \<rparr>"
  have b: "unat (acc_balance ?b) = balance_of s k + unat n"
    using n unat_add_lem [of "acc_balance a" n] by (simp add: e(1))
  have t: "r = Inr ()" "accounts t = bt_insert k ?b (accounts u)"
    using assms n by (auto simp: try_add_balance_def u checked_add_def e(1))
  have "balance_sum t + balance_of u k = balance_sum u + unat (acc_balance ?b)"
    using balance_sum_insert [where s = u and k = k and a = ?b] by (simp add: balance_sum_def t(2))
  moreover have "balance_of t = (balance_of u)(k := unat (acc_balance ?b))"
    by (auto simp: fun_eq_iff balance_of_def t(2))
  ultimately show "r = Inr () \<and> balance_sum t = balance_sum s + unat n
      \<and> balance_of t = (balance_of s)(k := balance_of s k + unat n)"
    using e(2,3) t(1) b by simp
qed

lemma mint_credit:
  assumes "balance_sum s + bonded_sum s + unat n \<le> 100000000000000" "try_mint_balance k n s = (r, t)"
  shows "r = Inr () \<and> same_frame s t \<and> balance_sum t = balance_sum s + unat n
    \<and> balance_of t = (balance_of s)(k := balance_of s k + unat n)"
proof -
  have "unat n \<le> unat (supply_capacity_remaining s)" using assms(1) headroom_exact [of s] by simp
  then have "try_add_balance k n s = (r, t)"
    using assms(2) by (simp add: try_mint_balance_def ensure_mint_headroom_def Let_def word_less_nat_alt)
  note effect = try_add_balance_effect [OF this]
  have "balance_of s k + unat n < 2 ^ 64" using assms(1) balance_le_sum [of s k] by simp
  with effect(1,2) show ?thesis by blast
qed

subsection \<open>Inbound locks\<close>

lemma pay_fee_share_mint:
  assumes "balance_sum s + bonded_sum s + unat (bud_get fee) \<le> 100000000000000"
    "pay_fee_share code try_mint_balance from fee s = (r, t)"
  shows "r = Inr () \<and> same_frame s t \<and> balance_sum t = balance_sum s + unat (bud_get fee)
    \<and> balance_of t = (balance_of s)(from := balance_of s from + unat (bud_get fee))"
proof (cases "bud_is_zero fee")
  case True
  then show ?thesis using assms(2) by (auto simp: pay_fee_share_def bud_is_zero_def same_frame_def)
next
  case False
  obtain r' t' where m: "try_mint_balance from (bud_get fee) s = (r', t')" by fastforce
  with mint_credit [OF assms(1) m] assms(2) False show ?thesis by (auto simp: pay_fee_share_def lift_error_def)
qed

lemma inbound_lock_verdict:
  assumes "unat (bridge_relayer_fee_ppm (reg_params (state_registry s))) < 1000000"
    and cap: "balance_sum s + bonded_sum s \<le> 100000000000000"
    and run: "inbound_lock H from msg s = (r, t)"
  shows "(\<exists>e. r = Inl e) \<and> t = s \<or>
    (\<exists>transfer b recipient fee. r = Inr () \<and> get_transfer (state_bridge s) (msg_id msg) = Some transfer
      \<and> bridge_mint H msg (current_block_height s) (state_bridge s) = (Inr (), b) \<and> same_frame (s\<lparr> state_bridge := b \<rparr>) t
      \<and> unat (bud_get recipient) + unat (bud_get fee) = unat (bud_get (xfer_amount transfer))
      \<and> balance_sum t = balance_sum s + unat (bud_get (xfer_amount transfer))
      \<and> balance_sum t + bonded_sum t \<le> 100000000000000 \<and> balance_of s from \<le> balance_of t from)"
proof (cases "get_transfer (state_bridge s) (msg_id msg)")
  case None
  then show ?thesis using run by (auto simp: inbound_lock_def)
next
  case (Some x)
  let ?p = "reg_params (state_registry s)"
  note split = split_bridge_fee_exact [OF assms(1), of "xfer_amount x" "bridge_relayer_min_fee ?p"]
  show ?thesis
  proof (cases "split_bridge_fee (xfer_amount x) (bridge_relayer_fee_ppm ?p) (bridge_relayer_min_fee ?p)")
    case (Inl e)
    then show ?thesis using run Some by (auto simp: inbound_lock_def)
  next
    case (Inr q)
    then obtain recipient fee where q: "split_bridge_fee (xfer_amount x) (bridge_relayer_fee_ppm ?p)
        (bridge_relayer_min_fee ?p) = Inr (recipient, fee)" by (cases q) auto
    with split have sum: "unat (bud_get recipient) + unat (bud_get fee) = unat (bud_get (xfer_amount x))" by simp
    then have minted: "checked_add (bud_get recipient) (bud_get fee) = Some (bud_get recipient + bud_get fee)"
      "unat (bud_get recipient + bud_get fee) = unat (bud_get (xfer_amount x))"
      using unat_lt64 [of "bud_get (xfer_amount x)"] unat_add_lem [of "bud_get recipient" "bud_get fee"]
      by (simp_all add: checked_add_def)
    note start = run Some q minted(1)
    show ?thesis
    proof (cases "ensure_mint_headroom (bud_get recipient + bud_get fee) s")
      case (Inl e)
      then show ?thesis using start by (auto simp: inbound_lock_def)
    next
      case room: (Inr u)
      then have fits: "balance_sum s + bonded_sum s + unat (bud_get (xfer_amount x)) \<le> 100000000000000"
        using cap headroom_exact [of s] minted(2)
        by (auto simp: ensure_mint_headroom_def Let_def word_less_nat_alt split: if_splits)
      show ?thesis
      proof (cases rule: bridge_mint_cases [of H msg "current_block_height s" "state_bridge s"])
        case (refused e)
        then show ?thesis using start room by (auto simp: inbound_lock_def)
      next
        case (minted y rp)
        then obtain b where b: "bridge_mint H msg (current_block_height s) (state_bridge s) = (Inr (), b)" by blast
        let ?s = "s\<lparr> state_bridge := b \<rparr>"
        have same: "balance_sum ?s = balance_sum s" "bonded_sum ?s = bonded_sum s"
          by (simp_all add: balance_sum_def bonded_sum_def total_staked_supply_def total_unbonding_supply_def
              total_registry_role_bonded_supply_def)
        obtain r1 s1 where c: "try_mint_balance (xfer_recipient x) (bud_get recipient) ?s = (r1, s1)" by fastforce
        have c1: "r1 = Inr () \<and> same_frame ?s s1 \<and> balance_sum s1 = balance_sum s + unat (bud_get recipient)
            \<and> balance_of s from \<le> balance_of s1 from"
          using mint_credit [OF _ c] fits sum same by (simp add: balance_of_def)
        then have "pay_fee_share ''bridge_fee_overflow'' try_mint_balance from fee s1 = (r, t)"
          using start room b c by (simp add: inbound_lock_def Let_def lift_error_def)
        from pay_fee_share_mint [OF _ this] c1
        have p: "r = Inr () \<and> same_frame s1 t \<and> balance_sum t = balance_sum s1 + unat (bud_get fee)
            \<and> balance_of s1 from \<le> balance_of t from"
          using fits sum same same_frame_bonded [of ?s s1] by simp
        then have f: "same_frame ?s t" using c1 same_frame_trans by blast
        show ?thesis
          using p c1 f b Some sum fits same same_frame_bonded [OF f] by auto
      qed
    qed
  qed
qed

subsection \<open>Whole transactions\<close>

lemma sum_list_bound: "\<forall>x \<in> set xs. f x \<le> m \<Longrightarrow> sum_list (map f xs) \<le> length xs * m" for m :: nat
  by (induction xs) auto

lemma few_accounts_fit:
  assumes "bt_len (accounts s) < 2 ^ 64"
  shows "balance_sum s < 2 ^ 128"
proof -
  have "balance_sum s \<le> length (bt_entries (accounts s)) * 2 ^ 64"
    unfolding balance_sum_def by (rule sum_list_bound) (auto intro: less_imp_le [OF unat_lt64 [simplified]])
  also have "\<dots> < 2 ^ 64 * 2 ^ 64"
    using assms unfolding bt_len_def by (rule mult_strict_right_mono) simp
  also have "\<dots> = 2 ^ 128" unfolding power_add [symmetric] by simp
  finally show ?thesis .
qed

lemma capped_iff:
  assumes "balance_sum s < 2 ^ 128"
  shows "total_bud_committed s \<le> ucast BUD_TOTAL_SUPPLY \<longleftrightarrow> balance_sum s + bonded_sum s \<le> 100000000000000"
  by (simp add: word_le_nat_alt committed_exact [OF assms] cap_value min_def)

lemma debit_sender_effect:
  assumes "debit_sender from fee s = (r, t)" "unat fee \<le> balance_of s from"
  shows "r = Inr () \<and> same_frame s t \<and> balance_sum t + unat fee = balance_sum s"
proof -
  obtain a u where u: "get_or_create from s = (a, u)" by (cases "get_or_create from s")
  note e = get_or_create_effect [OF u]
  let ?b = "a\<lparr> acc_balance := acc_balance a - fee, acc_nonce := sat_add (acc_nonce a) 1 \<rparr>"
  have fee: "fee \<le> acc_balance a" using assms(2) e(1) by (simp add: word_le_nat_alt)
  have t: "r = Inr ()" "t = u\<lparr> accounts := bt_insert from ?b (accounts u) \<rparr>"
    using assms(1) leD [OF fee] by (simp_all add: debit_sender_def u)
  have "balance_sum t + balance_of u from = balance_sum u + unat (acc_balance ?b)"
    unfolding t(2) by (rule balance_sum_insert)
  moreover have "unat (acc_balance ?b) = balance_of s from - unat fee" using fee e(1) by (simp add: unat_sub)
  ultimately have "balance_sum t + unat fee = balance_sum s" using e(2,3) assms(2) by simp
  then show ?thesis using t e(4) by (simp add: same_frame_def)
qed

text \<open>
  C11: A mint from a relayer's result keeps the supply cap and is all or nothing. With the committed supply
  within the cap, an inbound lock that is refused for whatever reason leaves the bridge and every
  balance as they were; one that is accepted has minted the transfer on the bridge, and the committed
  supply has grown by the amount of the transfer less the sender's fee and is still within the cap.
\<close>

theorem executed_mint_is_capped_and_atomic:
  assumes "rr_message res = Some msg" "msg_kind msg = BridgeLock" "rr_success res" "from \<noteq> zero_address"
    and ppm: "unat (bridge_relayer_fee_ppm (reg_params (state_registry s))) < 1000000"
    and few: "bt_len (accounts s) < 2 ^ 64" and cap: "total_bud_committed s \<le> ucast BUD_TOTAL_SUPPLY"
    and run: "apply_relayer_transaction H chain_bytes de verified from amount fee res s = (r, t)"
  shows "total_bud_committed t \<le> ucast BUD_TOTAL_SUPPLY \<and>
    (case r of
       Inl e \<Rightarrow> state_bridge t = state_bridge s \<and> balance_of t = balance_of s
     | Inr _ \<Rightarrow> \<exists>transfer. get_transfer (state_bridge s) (msg_id msg) = Some transfer
         \<and> bridge_mint H msg (current_block_height s) (state_bridge s) = (Inr (), state_bridge t)
         \<and> unat (total_bud_committed t) + unat fee
           = unat (total_bud_committed s) + unat (bud_get (xfer_amount transfer)))"
proof -
  note few' = few_accounts_fit [OF few]
  have capped: "balance_sum s + bonded_sum s \<le> 100000000000000" using cap capped_iff [OF few'] by simp
  show ?thesis
  proof (cases "burn_reserve_address s = Some from")
    case True
    then show ?thesis using run assms(4) cap by (auto simp: apply_relayer_transaction_def)
  next
    case False
    obtain a u where u: "get_or_create from s = (a, u)" by (cases "get_or_create from s")
    note e = get_or_create_effect [OF u]
    have su: "state_bridge u = state_bridge s" "state_registry u = state_registry s"
      "current_block_height u = current_block_height s" using e(4) by (simp_all add: same_frame_def)
    have bu: "bonded_sum u = bonded_sum s" by (rule same_frame_bonded [OF e(4)])
    have cu: "balance_sum u + bonded_sum u \<le> 100000000000000" using capped e(3) bu by simp
    have refused: ?thesis if "t = u" "\<exists>e. r = Inl e"
      using that e(2) su cu capped_iff [of u] by auto
    show ?thesis
    proof (cases "acc_balance a < sat_add amount fee \<or> (\<exists>e. relayer_result_gate H chain_bytes de res u = Inl e)")
      case True
      then have "\<exists>e. (Inl e, u) = (r, t)"
        using run assms(4) False
        by (auto simp: apply_relayer_transaction_def apply_relayer_result_def u split: if_splits)
      then show ?thesis by (intro refused) auto
    next
      case pass: False
      then have gate: "relayer_result_gate H chain_bytes de res u = Inr ()"
        by (cases "relayer_result_gate H chain_bytes de res u") auto
      obtain r1 v where v: "inbound_lock H from msg u = (r1, v)" by (cases "inbound_lock H from msg u")
      have run': "(case (r1, v) of (Inl e, s) \<Rightarrow> (Inl e, s) | (Inr _, s) \<Rightarrow> debit_sender from fee s) = (r, t)"
        using run assms(1-4) False pass gate v
        by (simp add: apply_relayer_transaction_def apply_relayer_result_def result_effect_def u)
      have ppm': "unat (bridge_relayer_fee_ppm (reg_params (state_registry u))) < 1000000" using ppm su by simp
      from inbound_lock_verdict [OF ppm' cu v] show ?thesis
      proof (elim disjE exE conjE)
        fix e assume "r1 = Inl e" "v = u"
        then show ?thesis using run' by (intro refused) auto
      next
        fix x b recipient f
        assume m: "r1 = Inr ()" "get_transfer (state_bridge u) (msg_id msg) = Some x"
          "bridge_mint H msg (current_block_height u) (state_bridge u) = (Inr (), b)"
          "same_frame (u\<lparr> state_bridge := b \<rparr>) v" "balance_sum v = balance_sum u + unat (bud_get (xfer_amount x))"
          "balance_sum v + bonded_sum v \<le> 100000000000000" "balance_of u from \<le> balance_of v from"
        have "debit_sender from fee v = (r, t)" using run' m(1) by simp
        moreover have "unat fee \<le> balance_of v from"
          using pass e(1,2) m(7) unat_lt64 [of fee] by (auto simp: not_less word_le_nat_alt unat_sat_add min_def split: if_splits)
        ultimately have d: "r = Inr () \<and> same_frame v t \<and> balance_sum t + unat fee = balance_sum v"
          by (rule debit_sender_effect)
        have bt: "bonded_sum t = bonded_sum v" "state_bridge t = b" using d m(4) same_frame_bonded by (auto simp: same_frame_def)
        have bv: "bonded_sum v = bonded_sum s" using same_frame_bonded [OF m(4)] bu
          by (simp add: bonded_sum_def total_staked_supply_def total_unbonding_supply_def total_registry_role_bonded_supply_def)
        have t: "balance_sum t + bonded_sum t \<le> 100000000000000" using d m(6) bt by simp
        show ?thesis
          using d m(2,3,5) bt bv t capped su e(3) capped_iff [of t] committed_exact [of t] committed_exact [of s] few' by auto
      qed
    qed
  qed
qed

subsection \<open>A sample state\<close>

definition flat_hash :: hasher where
  "flat_hash bs = replicate 32 1"

definition sample_message :: "message_kind \<Rightarrow> cross_domain_message" where
  "sample_message kind = \<lparr> msg_id = replicate 32 1, msg_correlation_id = Some (replicate 32 1), msg_source_domain = 2,
     msg_target_domain = 1, msg_source_height = 5, msg_event_index = 0, msg_nonce = 0, msg_sender = [8], msg_recipient = [9],
     msg_payload_hash = replicate 32 1, msg_kind = kind, msg_expiry_height = 0 \<rparr>"

definition sample_result :: "message_kind \<Rightarrow> relayer_external_result" where
  "sample_result kind = \<lparr> rr_chain = Solana, rr_tx_hash = ''ab'', rr_success = True, rr_message = Some (sample_message kind),
     rr_receipt_proof = [1], rr_external_state_root = replicate 32 1 \<rparr>"

definition sample_proof :: merkle_proof_data where
  "sample_proof = \<lparr> proof_leaf = replicate 32 1, proof_index = 0, proof_siblings = [replicate 32 1] \<rparr>"

definition sample_account_state :: "bridge_transfer \<Rightarrow> account_state" where
  "sample_account_state x = \<lparr> accounts = bt_insert [7] \<lparr> acc_public_key = [7], acc_balance = 1000, acc_nonce = 0 \<rparr> bt_empty,
     validator_stakes = bt_empty, unbonding_queue = [], state_registry = registry_new,
     state_bridge = bridge_new\<lparr> transfers := bt_insert (replicate 32 1) x bt_empty \<rparr>,
     external_roots = bt_insert 2 (replicate 32 1) bt_empty, state_tokenomics = tokenomics_default,
     timed_burn = timed_burn_new, burn_reserve_address = None, team_vesting = None, epoch_index = 0, current_block_height = 9,
     dirty_accounts = {}, keys_dirty = False \<rparr>"

definition sample_transfer :: "u64 \<Rightarrow> bridge_status \<Rightarrow> domain_id \<Rightarrow> domain_id \<Rightarrow> bridge_transfer" where
  "sample_transfer amount status source target = \<lparr> xfer_message_id = replicate 32 1, xfer_asset_id = [3],
     xfer_source_domain = source, xfer_target_domain = target, xfer_owner = [8], xfer_recipient = [9],
     xfer_amount = Bud amount, xfer_status = status, xfer_source_event_hash = [], xfer_expiry_height = 0 \<rparr>"

lemma sample_gate:
  "relayer_result_gate flat_hash (\<lambda>_. []) (\<lambda>_ _. Inr sample_proof) (sample_result kind) (sample_account_state x) = Inr ()"
  by (simp add: relayer_result_gate_def sample_result_def sample_account_state_def sample_proof_def ascii_def
      MAX_RELAYER_RESULT_PROOF_BYTES_def result_leaf_def flat_hash_def proof_verify_def
      merkle_node_hash_def merkle_odd_promote_hash_def hash_fields_bytes_def calculate_hash_bytes_def)

lemma gate_reads_roots:
  "external_roots t = external_roots s \<Longrightarrow>
   relayer_result_gate H chain_bytes de res t = relayer_result_gate H chain_bytes de res s"
  by (simp add: relayer_result_gate_def)

lemma sample_few: "bt_len (accounts (sample_account_state x)) < 2 ^ 64"
  by (simp add: sample_account_state_def bt_len_def bt_empty.rep_eq bt_insert.rep_eq)

lemma sample_sums: "balance_sum (sample_account_state x) = 1000" "bonded_sum (sample_account_state x) = 0"
  by (simp_all add: sample_account_state_def balance_sum_def bonded_sum_def total_staked_supply_def total_unbonding_supply_def
      total_registry_role_bonded_supply_def total_bonded_stake_excluding_def registry_new_def registry_with_params_def bt_values_def)

text \<open>The transaction is accepted: the bridge mints and the sender can pay the fee.\<close>

lemma sample_mint_accepted:
  assumes "apply_relayer_transaction flat_hash (\<lambda>_. []) (\<lambda>_ _. Inr sample_proof) True [7] 0 5 (sample_result BridgeLock)
     (sample_account_state (sample_transfer 600 (Locked 2) 2 1)) = (r, t)"
  shows "r = Inr ()"
proof -
  let ?s = "sample_account_state (sample_transfer 600 (Locked 2) 2 1)" and ?m = "sample_message BridgeLock"
  let ?u = "?s\<lparr> dirty_accounts := {[7]} \<rparr>"
  have u: "get_or_create [7] ?s = (\<lparr> acc_public_key = [7], acc_balance = 1000, acc_nonce = 0 \<rparr>, ?u)"
    by (simp add: get_or_create_def sample_account_state_def bt_contains_def)
  have sums: "balance_sum ?u = 1000" "bonded_sum ?u = 0"
    using get_or_create_effect(3,4) [OF u] same_frame_bonded sample_sums by simp_all
  have split: "split_bridge_fee (Bud 600) 10000 10 = Inr (Bud 590, Bud 10)"
    by (simp add: split_bridge_fee_def split_bridge_fee_u128_def Let_def bud_try_from_def sat_mul_def sat_sub_def)
  have fields: "bridge_relayer_fee_ppm (reg_params (state_registry ?s)) = 10000"
    "bridge_relayer_min_fee (reg_params (state_registry ?s)) = 10" "current_block_height ?s = 9"
    "xfer_amount (sample_transfer 600 (Locked 2) 2 1) = Bud 600" "xfer_recipient (sample_transfer 600 (Locked 2) 2 1) = [9]"
    by (simp_all add: sample_account_state_def registry_new_def registry_with_params_def params_default_def sample_transfer_def)
  have reads: "burn_reserve_address ?s = None" "rr_message (sample_result BridgeLock) = Some ?m"
    "rr_success (sample_result BridgeLock)" "msg_kind ?m = BridgeLock"
    by (simp_all add: sample_account_state_def sample_result_def sample_message_def)
  have sat_add_zero: "sat_add 0 5 = (5 :: u64)" by (simp add: sat_add_def)
  have room: "ensure_mint_headroom 600 ?u = Inr ()"
    using headroom_exact [of ?u] sums by (simp add: ensure_mint_headroom_def word_less_nat_alt)
  obtain b where b: "bridge_mint flat_hash ?m 9 (state_bridge ?u) = (Inr (), b)"
    by (simp add: bridge_mint_def verify_id_def calculate_message_id_def flat_hash_def hash_fields_bytes_def
        calculate_hash_bytes_def bridge_payload_hash_def sample_message_def sample_account_state_def sample_transfer_def
        is_processed_def mark_processed_at_def bridge_new_def replay_new_def)
  let ?w = "?u\<lparr> state_bridge := b \<rparr>"
  have w: "balance_sum ?w = 1000" "bonded_sum ?w = 0"
    using sums by (simp_all add: balance_sum_def bonded_sum_def total_staked_supply_def total_unbonding_supply_def
        total_registry_role_bonded_supply_def)
  obtain r2 v where c: "try_mint_balance [9] 590 ?w = (r2, v)" by fastforce
  from mint_credit [OF _ c] w have c1: "r2 = Inr ()" "same_frame ?w v" "balance_sum v = 1590" "balance_of v = (balance_of ?w)([9] := balance_of ?w [9] + 590)"
    by simp_all
  obtain r3 x where p: "pay_fee_share ''bridge_fee_overflow'' try_mint_balance [7] (Bud 10) v = (r3, x)" by fastforce
  from pay_fee_share_mint [OF _ p] c1(3) same_frame_bonded [OF c1(2)] w
  have p1: "r3 = Inr ()" "balance_of x [7] = balance_of v [7] + 10" by simp_all
  have "get_transfer (state_bridge ?u) (msg_id ?m) = Some (sample_transfer 600 (Locked 2) 2 1)"
    by (simp add: get_transfer_def sample_account_state_def sample_message_def)
  then have lock: "inbound_lock flat_hash [7] ?m ?u = (Inr (), x)"
    using split room b c c1(1) p p1(1) fields by (simp add: inbound_lock_def lift_error_def checked_add_def)
  have "balance_of ?w [7] = 1000" by (simp add: balance_of_def sample_account_state_def)
  with c1(4) p1(2) have bal: "unat (5 :: u64) \<le> balance_of x [7]" by simp
  have "length [7 :: u8] \<noteq> length zero_address" by (simp add: zero_address_def)
  then have "[7] \<noteq> zero_address" by metis
  moreover have "relayer_result_gate flat_hash (\<lambda>_. []) (\<lambda>_ _. Inr sample_proof) (sample_result BridgeLock) ?u = Inr ()"
    by (rule trans [OF gate_reads_roots sample_gate]) simp
  ultimately have "debit_sender [7] 5 x = (r, t)"
    using assms u lock reads sat_add_zero
    by (simp add: apply_relayer_transaction_def apply_relayer_result_def result_effect_def)
  then show ?thesis using debit_sender_effect bal by blast
qed

theorem executed_mint_is_capped_and_atomic_witness:
  "let s = sample_account_state (sample_transfer 600 (Locked 2) 2 1);
       (r, t) = apply_relayer_transaction flat_hash (\<lambda>_. []) (\<lambda>_ _. Inr sample_proof) True [7] 0 5 (sample_result BridgeLock) s
   in r = Inr () \<and> total_bud_committed t \<le> ucast BUD_TOTAL_SUPPLY
    \<and> unat (total_bud_committed t) + 5 = unat (total_bud_committed s) + 600"
proof -
  let ?s = "sample_account_state (sample_transfer 600 (Locked 2) 2 1)"
  let ?run = "apply_relayer_transaction flat_hash (\<lambda>_. []) (\<lambda>_ _. Inr sample_proof) True [7] 0 5 (sample_result BridgeLock) ?s"
  obtain r t where run: "?run = (r, t)" by (cases ?run)
  note r = sample_mint_accepted [OF run]
  have cap: "total_bud_committed ?s \<le> ucast BUD_TOTAL_SUPPLY"
    by (simp add: capped_iff [OF few_accounts_fit [OF sample_few]] sample_sums)
  have "length [7 :: u8] \<noteq> length zero_address" by (simp add: zero_address_def)
  then have "[7] \<noteq> zero_address" by metis
  note use = executed_mint_is_capped_and_atomic [OF _ _ _ this _ sample_few cap run, of "sample_message BridgeLock"]
  have "total_bud_committed t \<le> ucast BUD_TOTAL_SUPPLY \<and>
     (\<exists>transfer. get_transfer (state_bridge ?s) (replicate 32 1) = Some transfer
       \<and> unat (total_bud_committed t) + 5 = unat (total_bud_committed ?s) + unat (bud_get (xfer_amount transfer)))"
    using use unfolding r by (auto simp: sample_result_def sample_message_def sample_account_state_def registry_new_def
         registry_with_params_def params_default_def)
  moreover have "get_transfer (state_bridge ?s) (replicate 32 1) = Some (sample_transfer 600 (Locked 2) 2 1)"
    by (simp add: get_transfer_def sample_account_state_def)
  ultimately show ?thesis unfolding run Let_def r by (auto simp: sample_transfer_def)
qed

text \<open>
  C27: A refused unlock is not rolled back. When a burn result passes the gate and the bridge accepts the
  unlock, but the amount does not cover the minimum fee, the executor refuses the transaction after
  the bridge has moved: the transfer is unlocked in the state it leaves, nobody has been paid, and
  every later unlock of the transfer is refused.
\<close>

theorem refused_unlock_is_not_rolled_back:
  assumes "relayer_result_gate H chain_bytes de res s = Inr ()" "rr_message res = Some msg" "rr_success res"
    and "msg_kind msg = BridgeBurn" "msg_correlation_id msg = Some i"
    and "bt_get (transfers (state_bridge s)) i = Some x" "xfer_source_domain x = msg_target_domain msg"
    and "xfer_target_domain x = msg_source_domain msg" "xfer_status x = Burned (msg_source_domain msg)"
    and "bud_get (xfer_amount x) \<le> bridge_relayer_min_fee (reg_params (state_registry s))"
  shows "\<exists>t. apply_relayer_result H chain_bytes de from fee res s
        = (Inl (ExecError ''bridge_fee_below_minimum'' (BridgeMessage FeeNotCovered)), t)
    \<and> map_option xfer_status (bt_get (transfers (state_bridge t)) i) = Some (Unlocked (msg_target_domain msg))
    \<and> accounts t = accounts s
    \<and> (\<forall>d h. bridge_unlock i d h (state_bridge t) = (Inl NotBurnedOnTarget, state_bridge t))"
proof -
  have fee: "split_bridge_fee (xfer_amount x) ppm (bridge_relayer_min_fee (reg_params (state_registry s))) = Inl FeeNotCovered" for ppm
    using assms(10) by (simp add: split_bridge_fee_def split_bridge_fee_u128_def word_le_nat_alt unat_ucast_up)
  obtain b where b: "bridge_unlock i (msg_source_domain msg) (current_block_height s) (state_bridge s) = (Inr (), b)"
    "bt_get (transfers b) i = Some (x\<lparr> xfer_status := Unlocked (xfer_source_domain x) \<rparr>)"
    using assms(6,8,9) by (cases rule: bridge_unlock_cases [of i "msg_source_domain msg" "current_block_height s" "state_bridge s"]) auto
  have "apply_relayer_result H chain_bytes de from fee res s
      = (Inl (ExecError ''bridge_fee_below_minimum'' (BridgeMessage FeeNotCovered)), s\<lparr> state_bridge := b \<rparr>)"
    using assms(1-9) by (simp add: apply_relayer_result_def result_effect_def inbound_burn_def get_transfer_def
        check_burn_matches_lock_domain_def b(1) fee)
  then show ?thesis using b(2) assms(7) by (simp add: bridge_unlock_def)
qed

theorem refused_unlock_is_not_rolled_back_witness:
  "let s = sample_account_state (sample_transfer 5 (Burned 2) 1 2)
   in \<exists>t. apply_relayer_result flat_hash (\<lambda>_. []) (\<lambda>_ _. Inr sample_proof) [7] 5 (sample_result BridgeBurn) s
        = (Inl (ExecError ''bridge_fee_below_minimum'' (BridgeMessage FeeNotCovered)), t) \<and> accounts t = accounts s"
proof -
  let ?s = "sample_account_state (sample_transfer 5 (Burned 2) 1 2)" and ?i = "replicate 32 1 :: bytes"
  have "bt_get (transfers (state_bridge ?s)) ?i = Some (sample_transfer 5 (Burned 2) 1 2)"
    by (simp add: sample_account_state_def)
  from refused_unlock_is_not_rolled_back [OF sample_gate _ _ _ _ this, of BridgeBurn "sample_message BridgeBurn" "[7]" 5]
  show ?thesis
    by (auto simp: sample_result_def sample_message_def sample_transfer_def sample_account_state_def registry_new_def
        registry_with_params_def params_default_def)
qed

end
