(* ===== verification/Registry_Trackers.thy ===== *)
theory Registry_Trackers
  imports Registry
begin

text \<open>
  The trackers that turn consensus faults into slashing reports: missed epochs
  (\<^verbatim>\<open>src/registry/liveness.rs\<close>), invalid votes (\<^verbatim>\<open>src/registry/invalid_vote.rs\<close>), and the ledger of
  quarantines and alarms (\<^verbatim>\<open>src/registry/quarantine_ledger.rs\<close>). A participation closure is a predicate.
  SHA-256 and SHA3-256 are parameters.
\<close>

subsection \<open>Missed epochs\<close>

record liveness_tracker =
  lt_missed :: "(address, u64) btree_map"
  lt_streak_start_epoch :: "(address, u64) btree_map"
  lt_reported :: "(address, unit) btree_map"

definition liveness_new :: liveness_tracker where
  "liveness_new = \<lparr> lt_missed = bt_empty, lt_streak_start_epoch = bt_empty, lt_reported = bt_empty \<rparr>"

definition missed_count :: "liveness_tracker \<Rightarrow> address \<Rightarrow> u64" where
  "missed_count t v = (case bt_get (lt_missed t) v of None \<Rightarrow> 0 | Some n \<Rightarrow> n)"

text \<open>The body of the loop for one validator.\<close>

definition record_duty ::
  "u64 \<Rightarrow> (address \<Rightarrow> bool) \<Rightarrow> u64 \<Rightarrow> address \<Rightarrow> slashing_report list \<times> liveness_tracker \<Rightarrow>
   slashing_report list \<times> liveness_tracker" where
  "record_duty epoch participated threshold v = (\<lambda>(reports, t).
     if participated v
     then (reports, t\<lparr> lt_missed := bt_remove v (lt_missed t),
                       lt_streak_start_epoch := bt_remove v (lt_streak_start_epoch t),
                       lt_reported := bt_remove v (lt_reported t) \<rparr>)
     else
       let count = missed_count t v;
           t = (if count = 0 then t\<lparr> lt_streak_start_epoch := bt_insert v epoch (lt_streak_start_epoch t) \<rparr> else t);
           current = count + 1;
           t = t\<lparr> lt_missed := bt_insert v current (lt_missed t) \<rparr>
       in if threshold > 0 \<and> current \<ge> threshold \<and> \<not> bt_contains (lt_reported t) v
          then let start = (case bt_get (lt_streak_start_epoch t) v of None \<Rightarrow> epoch | Some e \<Rightarrow> e)
               in (reports @ [consensus_liveness v VALIDATOR start epoch current current None],
                   t\<lparr> lt_reported := bt_insert v () (lt_reported t) \<rparr>)
          else (reports, t))"

definition record_epoch ::
  "u64 \<Rightarrow> address list \<Rightarrow> (address \<Rightarrow> bool) \<Rightarrow> registry_params \<Rightarrow> liveness_tracker \<Rightarrow>
   slashing_report list \<times> liveness_tracker" where
  "record_epoch epoch expected participated params t =
     fold (record_duty epoch participated (liveness_max_missed_epochs params)) (sorted_list_of_set (set expected)) ([], t)"

definition liveness_is_empty :: "liveness_tracker \<Rightarrow> bool" where
  "liveness_is_empty t =
     (bt_entries (lt_missed t) = [] \<and> bt_entries (lt_streak_start_epoch t) = [] \<and> bt_entries (lt_reported t) = [])"

definition counted_entries :: "(address, u64) btree_map \<Rightarrow> bytes" where
  "counted_entries m =
     le_bytes 8 (of_nat (bt_len m) :: u64) @ concat (map (\<lambda>(addr, n). addr @ le_bytes 8 n) (bt_entries m))"

definition counted_keys :: "(address, unit) btree_map \<Rightarrow> bytes" where
  "counted_keys m = le_bytes 8 (of_nat (bt_len m) :: u64) @ concat (bt_keys m)"

definition liveness_root :: "hasher \<Rightarrow> liveness_tracker \<Rightarrow> hash32" where
  "liveness_root H t =
     H (ascii ''BDLM_LIVENESS_TRACKER_V3'' @ counted_entries (lt_missed t) @ counted_entries (lt_streak_start_epoch t)
        @ counted_keys (lt_reported t))"

subsection \<open>Invalid votes\<close>

record invalid_vote_tracker =
  iv_current_epoch :: u64
  iv_counts :: "(address, u64) btree_map"
  iv_reported :: "(address, unit) btree_map"

definition invalid_vote_new :: invalid_vote_tracker where
  "invalid_vote_new = \<lparr> iv_current_epoch = 0, iv_counts = bt_empty, iv_reported = bt_empty \<rparr>"

definition invalid_vote_is_empty :: "invalid_vote_tracker \<Rightarrow> bool" where
  "invalid_vote_is_empty t = (iv_current_epoch t = 0 \<and> bt_entries (iv_counts t) = [] \<and> bt_entries (iv_reported t) = [])"

definition invalid_count :: "invalid_vote_tracker \<Rightarrow> address \<Rightarrow> u64" where
  "invalid_count t v = (case bt_get (iv_counts t) v of None \<Rightarrow> 0 | Some n \<Rightarrow> n)"

definition record_invalid_vote ::
  "u64 \<Rightarrow> address \<Rightarrow> registry_params \<Rightarrow> invalid_vote_tracker \<Rightarrow> slashing_report option \<times> invalid_vote_tracker" where
  "record_invalid_vote epoch v params t =
     (if epoch < iv_current_epoch t then (None, t)
      else
        let t = (if epoch \<noteq> iv_current_epoch t
                 then t\<lparr> iv_current_epoch := epoch, iv_counts := bt_empty, iv_reported := bt_empty \<rparr> else t);
            current = invalid_count t v + 1;
            t = t\<lparr> iv_counts := bt_insert v current (iv_counts t) \<rparr>;
            threshold = max_invalid_votes_per_epoch params
        in if threshold > 0 \<and> current \<ge> threshold \<and> \<not> bt_contains (iv_reported t) v
           then (Some (consensus_invalid_signature_spam v VALIDATOR epoch current threshold None),
                 t\<lparr> iv_reported := bt_insert v () (iv_reported t) \<rparr>)
           else (None, t))"

definition invalid_vote_root :: "hasher \<Rightarrow> invalid_vote_tracker \<Rightarrow> hash32" where
  "invalid_vote_root H t =
     H (ascii ''BDLM_INVALID_VOTE_TRACKER_V2'' @ le_bytes 8 (iv_current_epoch t) @ counted_entries (iv_counts t)
        @ counted_keys (iv_reported t))"

subsection \<open>Quarantines and alarms\<close>

datatype quarantine_reason = Equivocation string | OperatorSlash string

record quarantine_entry =
  qe_target_id :: hash32
  qe_reason :: quarantine_reason
  qe_height :: u64

record alarm_entry =
  al_alarm_id :: hash32
  al_code :: string
  al_message :: string
  al_height :: u64
  al_severity :: u8

record quarantine_ledger =
  quarantined_entities :: "(hash32, quarantine_entry) btree_map"
  alarms :: "(hash32, alarm_entry) btree_map"

definition quarantine_new :: quarantine_ledger where
  "quarantine_new = \<lparr> quarantined_entities = bt_empty, alarms = bt_empty \<rparr>"

definition domain_target :: "hasher \<Rightarrow> domain_id \<Rightarrow> hash32" where
  "domain_target S domain = S (ascii ''quarantine_domain_v1'' @ le_bytes 4 domain)"

definition quarantine_entity :: "hash32 \<Rightarrow> quarantine_reason \<Rightarrow> u64 \<Rightarrow> quarantine_ledger \<Rightarrow> quarantine_ledger" where
  "quarantine_entity target reason height l =
     l\<lparr> quarantined_entities := bt_insert target \<lparr> qe_target_id = target, qe_reason = reason, qe_height = height \<rparr>
          (quarantined_entities l) \<rparr>"

definition record_alarm :: "hasher \<Rightarrow> string \<Rightarrow> string \<Rightarrow> u64 \<Rightarrow> u8 \<Rightarrow> quarantine_ledger \<Rightarrow> hash32 \<times> quarantine_ledger" where
  "record_alarm S code message height severity l =
     (let alarm_id = S (ascii ''BDLM_BUDZERO_ALARMLOG_V1'' @ le_bytes 8 (of_nat (length code) :: u64) @ ascii code
            @ le_bytes 8 (of_nat (length message) :: u64) @ ascii message @ le_bytes 8 height @ [severity])
      in (alarm_id,
          l\<lparr> alarms := bt_insert alarm_id \<lparr> al_alarm_id = alarm_id, al_code = code, al_message = message,
                al_height = height, al_severity = severity \<rparr> (alarms l) \<rparr>))"

subsection \<open>Streaks\<close>

text \<open>
  The reference: how many of a validator's duties were missed in a row, over a history of epochs
  given by number, expected validators and participants.
\<close>

type_synonym duty_epoch = "u64 \<times> address list \<times> (address \<Rightarrow> bool)"

definition streak :: "duty_epoch list \<Rightarrow> address \<Rightarrow> nat" where
  "streak hs v = fold (\<lambda>(epoch, expected, participated) n.
     if v \<notin> set expected then n else if participated v then 0 else Suc n) hs 0"

definition tracker_after :: "registry_params \<Rightarrow> duty_epoch list \<Rightarrow> liveness_tracker" where
  "tracker_after p hs = fold (\<lambda>(epoch, expected, participated) t. snd (record_epoch epoch expected participated p t)) hs liveness_new"

lemma streak_snoc:
  "streak (hs @ [(e, ex, part)]) v = (if v \<notin> set ex then streak hs v else if part v then 0 else Suc (streak hs v))"
  by (simp add: streak_def)

lemma streak_le: "streak hs v \<le> length hs"
  by (induction hs rule: rev_induct) (auto simp: streak_snoc streak_def [of "[]"])

text \<open>What the tracker holds of one validator.\<close>

definition duty_view :: "liveness_tracker \<Rightarrow> address \<Rightarrow> u64 \<times> bool" where
  "duty_view t v = (missed_count t v, bt_contains (lt_reported t) v)"

lemma duty_other: "v \<noteq> w \<Longrightarrow> duty_view (snd (record_duty e part T w (rs, t))) v = duty_view t v"
  by (simp add: record_duty_def Let_def duty_view_def missed_count_def bt_contains_def)

lemma duty_own:
  "duty_view (snd (record_duty e part T v (rs, t))) v =
     (if part v then (0, False)
      else (fst (duty_view t v) + 1, snd (duty_view t v) \<or> (T > 0 \<and> fst (duty_view t v) + 1 \<ge> T)))"
  by (auto simp: record_duty_def Let_def duty_view_def missed_count_def bt_contains_def)

lemma duty_reports:
  "fst (record_duty e part T w (rs, t)) = rs \<or>
   (\<exists>start n. fst (record_duty e part T w (rs, t)) = rs @ [consensus_liveness w VALIDATOR start e n n None])"
  by (auto simp: record_duty_def Let_def)

definition reports_on :: "slashing_report list \<Rightarrow> address \<Rightarrow> bool" where
  "reports_on rs v \<longleftrightarrow> (\<exists>r \<in> set rs. sr_offender r = v)"

lemma duty_reports_on:
  "reports_on (fst (record_duty e part T w (rs, t))) v \<longleftrightarrow>
     reports_on rs v \<or> v = w \<and> \<not> part w \<and> T > 0 \<and> fst (duty_view t w) + 1 \<ge> T \<and> \<not> snd (duty_view t w)"
  by (auto simp: record_duty_def Let_def reports_on_def duty_view_def missed_count_def bt_contains_def
      consensus_liveness_def report_new_def)

lemma fold_duty:
  assumes "distinct ws"
  shows "duty_view (snd (fold (record_duty e part T) ws (rs, t))) v =
      (if v \<in> set ws then duty_view (snd (record_duty e part T v ([], t))) v else duty_view t v)
    \<and> (reports_on (fst (fold (record_duty e part T) ws (rs, t))) v \<longleftrightarrow>
        reports_on rs v \<or> v \<in> set ws \<and> reports_on (fst (record_duty e part T v ([], t))) v)"
  using assms
proof (induction ws arbitrary: rs t)
  case (Cons w ws)
  obtain rs' t' where step: "record_duty e part T w (rs, t) = (rs', t')" by fastforce
  have other: "v \<noteq> w \<Longrightarrow> duty_view t' v = duty_view t v" using duty_other [of v w e part T rs t] step by simp
  have own: "v = w \<Longrightarrow> duty_view t' v = duty_view (snd (record_duty e part T v ([], t))) v"
    using duty_own [of e part T w rs t] duty_own [of e part T w "[]" t] step by simp
  have reps: "reports_on rs' v \<longleftrightarrow> reports_on rs v \<or> v = w \<and> reports_on (fst (record_duty e part T v ([], t))) v"
    using duty_reports_on [of e part T w rs t v] duty_reports_on [of e part T w "[]" t v] step by (auto simp: reports_on_def)
  have later: "v \<noteq> w \<Longrightarrow> reports_on (fst (record_duty e part T v ([], t'))) v = reports_on (fst (record_duty e part T v ([], t))) v"
    "v \<noteq> w \<Longrightarrow> duty_view (snd (record_duty e part T v ([], t'))) v = duty_view (snd (record_duty e part T v ([], t))) v"
    using duty_reports_on [of e part T v "[]" t' v] duty_reports_on [of e part T v "[]" t v] other
      duty_own [of e part T v "[]" t'] duty_own [of e part T v "[]" t] by simp_all
  have unfold: "fold (record_duty e part T) (w # ws) (rs, t) = fold (record_duty e part T) ws (rs', t')"
    by (simp add: step)
  have ws: "w \<notin> set ws" "distinct ws" using Cons.prems by simp_all
  note IH = Cons.IH [OF ws(2), of rs' t']
  show ?case
  proof (cases "v = w")
    case True
    then have "v \<notin> set ws" using ws(1) by simp
    then show ?thesis unfolding unfold using IH own [OF True] reps True by simp
  next
    case False
    then show ?thesis unfolding unfold using IH other [OF False] later [OF False] reps by simp
  qed
qed simp

lemma record_epoch_view:
  "duty_view (snd (record_epoch e ex part p t)) v =
     (if v \<in> set ex then duty_view (snd (record_duty e part (liveness_max_missed_epochs p) v ([], t))) v else duty_view t v)"
  "reports_on (fst (record_epoch e ex part p t)) v \<longleftrightarrow>
     v \<in> set ex \<and> reports_on (fst (record_duty e part (liveness_max_missed_epochs p) v ([], t))) v"
  using fold_duty [of "sorted_list_of_set (set ex)" e part "liveness_max_missed_epochs p" "[]" t v]
  by (auto simp: record_epoch_def reports_on_def)

lemma tracker_streak:
  assumes "length hs < 2 ^ 64"
  shows "duty_view (tracker_after p hs) v =
    (of_nat (streak hs v), liveness_max_missed_epochs p > 0 \<and> unat (liveness_max_missed_epochs p) \<le> streak hs v)"
  using assms
proof (induction hs rule: rev_induct)
  case Nil
  show ?case by (auto simp: tracker_after_def liveness_new_def duty_view_def missed_count_def bt_contains_def streak_def
      word_gt_0 unat_eq_0)
next
  case (snoc h hs)
  obtain e ex part where h: "h = (e, ex, part)" by (cases h)
  let ?T = "liveness_max_missed_epochs p"
  have IH: "duty_view (tracker_after p hs) v = (of_nat (streak hs v), ?T > 0 \<and> unat ?T \<le> streak hs v)"
    using snoc by simp
  have small: "Suc (streak hs v) < 2 ^ LENGTH(64)" using streak_le [of hs v] snoc.prems by simp
  have up: "of_nat (streak hs v) + 1 = (of_nat (Suc (streak hs v)) :: u64)" by (simp add: add.commute)
  have "unat (of_nat (Suc (streak hs v)) :: u64) = Suc (streak hs v)"
    unfolding unat_of_nat by (rule mod_less [OF small])
  then have ge: "of_nat (Suc (streak hs v)) \<ge> ?T \<longleftrightarrow> unat ?T \<le> Suc (streak hs v)" by (simp only: word_le_nat_alt)
  have zero: "0 < ?T \<Longrightarrow> \<not> unat ?T \<le> 0" by (simp add: word_gt_0 unat_eq_0)
  have after: "tracker_after p (hs @ [(e, ex, part)]) = snd (record_epoch e ex part p (tracker_after p hs))"
    by (simp add: tracker_after_def)
  have own: "duty_view (snd (record_duty e part ?T v ([], tracker_after p hs))) v =
      (if part v then (0, False) else (of_nat (Suc (streak hs v)), 0 < ?T \<and> unat ?T \<le> Suc (streak hs v)))"
    unfolding duty_own IH fst_conv snd_conv up ge by (auto simp del: of_nat_Suc)
  show ?case
    unfolding h after record_epoch_view own IH streak_snoc using zero by (auto simp del: of_nat_Suc)
qed

end
