(* ===== verification/Economy_Theorems.thy ===== *)
theory Economy_Theorems
  imports Relay_Theorems Registry_Trackers
begin

text \<open>The properties of the supply, the rewards and the fault trackers.\<close>

subsection \<open>Faults\<close>

text \<open>
  C30: After any history of epochs the liveness tracker's count is the number of duties the validator has
  missed in a row, and the next epoch reports a validator exactly when it is expected, does not
  participate and its run of misses reaches the threshold there: once for a streak, and never with a
  threshold of zero.
\<close>

theorem liveness_reports_each_streak_once:
  assumes "Suc (length hs) < 2 ^ 64"
  shows "unat (missed_count (tracker_after p hs) v) = streak hs v
    \<and> ((\<exists>r \<in> set (fst (record_epoch epoch expected participated p (tracker_after p hs))). sr_offender r = v)
       \<longleftrightarrow> v \<in> set expected \<and> \<not> participated v \<and> liveness_max_missed_epochs p > 0
          \<and> Suc (streak hs v) = unat (liveness_max_missed_epochs p))"
proof -
  let ?T = "liveness_max_missed_epochs p" and ?n = "streak hs v"
  have view: "duty_view (tracker_after p hs) v = (of_nat ?n, ?T > 0 \<and> unat ?T \<le> ?n)"
    using assms by (intro tracker_streak) simp
  have small: "?n < 2 ^ LENGTH(64)" "Suc ?n < 2 ^ LENGTH(64)" using streak_le [of hs v] assms by simp_all
  have n: "unat (of_nat ?n :: u64) = ?n" unfolding unat_of_nat by (rule mod_less [OF small(1)])
  have sn: "unat (of_nat (Suc ?n) :: u64) = Suc ?n" unfolding unat_of_nat by (rule mod_less [OF small(2)])
  have up: "of_nat ?n + 1 = (of_nat (Suc ?n) :: u64)" by (simp add: add.commute)
  have ge: "of_nat (Suc ?n) \<ge> ?T \<longleftrightarrow> unat ?T \<le> Suc ?n" by (simp only: word_le_nat_alt sn)
  have "reports_on (fst (record_epoch epoch expected participated p (tracker_after p hs))) v \<longleftrightarrow>
      v \<in> set expected \<and> \<not> participated v \<and> ?T > 0 \<and> Suc ?n = unat ?T"
    unfolding record_epoch_view duty_reports_on view fst_conv snd_conv up ge by (auto simp: reports_on_def)
  moreover have "unat (missed_count (tracker_after p hs) v) = ?n" using view n by (simp add: duty_view_def)
  ultimately show ?thesis by (simp add: reports_on_def)
qed

theorem liveness_reports_each_streak_once_witness:
  "let hs = [(1, [[7]], \<lambda>_. False), (2, [[7]], \<lambda>_. True), (3, [[7]], \<lambda>_. False)];
       p = params_default\<lparr> liveness_max_missed_epochs := 2 \<rparr>
   in \<exists>r \<in> set (fst (record_epoch 4 [[7]] (\<lambda>_. False) p (tracker_after p hs))). sr_offender r = [7]"
proof -
  let ?hs = "[(1, [[7]], \<lambda>_. False), (2, [[7]], \<lambda>_. True), (3, [[7]], \<lambda>_. False)] :: duty_epoch list"
  have "streak ?hs [7] = 1" by (simp add: streak_def)
  then show ?thesis
    using liveness_reports_each_streak_once [of ?hs "params_default\<lparr> liveness_max_missed_epochs := 2 \<rparr>" "[7]" 4 "[[7]]" "\<lambda>_. False"]
    by simp
qed

subsection \<open>Burns\<close>

lemma burn_from_effect:
  assumes "burn_from k n s = (b, t)"
  shows "unat b = min (unat n) (balance_of s k) \<and> same_frame s t \<and> timed_burn t = timed_burn s
    \<and> state_tokenomics t = state_tokenomics s \<and> balance_of t = (balance_of s)(k := balance_of s k - unat b)
    \<and> balance_sum t + unat b = balance_sum s"
proof (cases "n = 0")
  case True
  then show ?thesis using assms by (auto simp: burn_from_def same_frame_def)
next
  case False
  obtain a u where u: "get_or_create k s = (a, u)" by (cases "get_or_create k s")
  note e = get_or_create_effect [OF u]
  have keep: "timed_burn u = timed_burn s" "state_tokenomics u = state_tokenomics s"
    using u by (auto simp: get_or_create_def Let_def)
  let ?a = "a\<lparr> acc_balance := acc_balance a - b \<rparr>"
  have t: "b = min n (acc_balance a)"
    "t = u\<lparr> accounts := bt_insert k ?a (accounts u), dirty_accounts := insert k (dirty_accounts u) \<rparr>"
    using assms False by (auto simp: burn_from_def u Let_def)
  have b: "unat b = min (unat n) (balance_of s k)" using t(1) e(1) by (simp add: min_def word_le_nat_alt)
  have ab: "unat (acc_balance ?a) = balance_of s k - unat b"
    using t(1) e(1) by (simp add: unat_sub)
  have "balance_sum t + balance_of u k = balance_sum u + unat (acc_balance ?a)"
    using balance_sum_insert [where s = u and k = k and a = ?a] by (simp add: balance_sum_def t(2))
  moreover have "balance_of t = (balance_of u)(k := unat (acc_balance ?a))"
    by (auto simp: fun_eq_iff balance_of_def t(2))
  moreover have "same_frame s t" using e(4) t(2) by (simp add: same_frame_def)
  ultimately show ?thesis using b ab e(2,3) keep t(2) by simp
qed

lemma min_burn: "min p B + min (n * p) (B - min p B) = min (Suc n * p) B" for p B n :: nat
  by (cases "p \<le> B") (auto simp: min_def)

lemma burn_years_effect:
  assumes "burn_years n k per burnt s = (r, t)" "unat burnt + balance_of s k < 2 ^ 64"
  shows "unat r = unat burnt + min (n * unat per) (balance_of s k) \<and> same_frame s t
    \<and> years_burned (timed_burn t) = years_burned (timed_burn s)
    \<and> balance_of t = (balance_of s)(k := balance_of s k - min (n * unat per) (balance_of s k))
    \<and> balance_sum t + min (n * unat per) (balance_of s k) = balance_sum s"
  using assms
proof (induction n arbitrary: burnt s)
  case 0
  then show ?case by (simp add: same_frame_def)
next
  case (Suc n)
  obtain b u where u: "burn_from k per s = (b, u)" by (cases "burn_from k per s")
  note e = burn_from_effect [OF u]
  have B: "unat b = min (unat per) (balance_of s k)" using e by blast
  show ?case
  proof (cases "b = 0")
    case True
    then have m: "min (Suc n * unat per) (balance_of s k) = 0" using B by (auto simp: min_def split: if_splits)
    have "r = burnt" "t = u" using Suc.prems(1) u True by auto
    then show ?thesis unfolding m using e True by simp
  next
    case False
    let ?u = "u\<lparr> timed_burn := (timed_burn u)\<lparr> total_burned := sat_add (total_burned (timed_burn u)) b \<rparr> \<rparr>"
    have run: "burn_years n k per (sat_add burnt b) ?u = (r, t)" using Suc.prems(1) u False by simp
    have acc: "unat (sat_add burnt b) = unat burnt + unat b" using Suc.prems(2) B by (simp add: unat_sat_add)
    have bal: "balance_of ?u = balance_of u" "balance_sum ?u = balance_sum u"
      by (simp_all add: balance_of_def balance_sum_def fun_eq_iff)
    have uk: "balance_of u k = balance_of s k - unat b" using e by simp
    have "unat (sat_add burnt b) + balance_of ?u k < 2 ^ 64" using Suc.prems(2) B acc uk bal by simp
    note IH = Suc.IH [OF run this]
    have m: "unat b + min (n * unat per) (balance_of u k) = min (Suc n * unat per) (balance_of s k)"
      unfolding uk B by (rule min_burn)
    have fr: "same_frame s t" using IH e by (simp add: same_frame_def)
    have fn: "balance_of t = (balance_of s)(k := balance_of s k - min (Suc n * unat per) (balance_of s k))"
      unfolding m [symmetric] using IH e uk bal by (simp add: fun_upd_def fun_eq_iff)
    show ?thesis using IH e fr fn acc bal m by simp
  qed
qed

text \<open>
  A timed burn takes exactly the annual amount for every year that is due and not yet burnt, or what is
  left of the reserve: the balance of the reserve and the sum of all balances fall by that, no other
  balance changes, and a second call for the same year burns nothing.
\<close>

theorem timed_burn_is_exact:
  "let (burnt, t) = process_due_timed_burn due reserve s;
       years = unat due - unat (years_burned (timed_burn s));
       amount = min (years * unat (annual_burn_amount (state_tokenomics s))) (balance_of s reserve)
   in unat burnt = amount
    \<and> balance_of t = (balance_of s)(reserve := balance_of s reserve - amount)
    \<and> balance_sum t + amount = balance_sum s
    \<and> process_due_timed_burn due reserve t = (0, t)"
proof (cases "due \<le> years_burned (timed_burn s)")
  case True
  then show ?thesis by (simp add: process_due_timed_burn_def word_le_nat_alt)
next
  case False
  let ?per = "annual_burn_amount (state_tokenomics s)"
  have years: "unat (due - years_burned (timed_burn s)) = unat due - unat (years_burned (timed_burn s))"
    using False by (simp add: unat_sub)
  obtain r u where u: "burn_years (unat (due - years_burned (timed_burn s))) reserve ?per 0 s = (r, u)" by fastforce
  have "balance_of s reserve < 2 ^ 64"
    using unat_lt64 by (auto simp: balance_of_def split: option.splits)
  then have e: "unat r = min (unat (due - years_burned (timed_burn s)) * unat ?per) (balance_of s reserve)"
    "balance_of u = (balance_of s)(reserve := balance_of s reserve
       - min (unat (due - years_burned (timed_burn s)) * unat ?per) (balance_of s reserve))"
    "balance_sum u + min (unat (due - years_burned (timed_burn s)) * unat ?per) (balance_of s reserve) = balance_sum s"
    using burn_years_effect [OF u] by simp_all
  let ?t = "u\<lparr> timed_burn := (timed_burn u)\<lparr> years_burned := due \<rparr> \<rparr>"
  have run: "process_due_timed_burn due reserve s = (r, ?t)"
    using False u by (simp add: process_due_timed_burn_def Let_def)
  have "balance_of ?t = balance_of u" "balance_sum ?t = balance_sum u"
    by (simp_all add: balance_of_def balance_sum_def fun_eq_iff)
  then show ?thesis unfolding run Let_def prod.case using e years by (simp add: process_due_timed_burn_def)
qed

subsection \<open>Rewards\<close>

lemma unat_sum_stakes:
  assumes "(\<Sum>(a, n)\<leftarrow>xs. unat (n :: u64)) < 2 ^ 128"
  shows "unat (\<Sum>(a, n)\<leftarrow>xs. ucast n :: u128) = (\<Sum>(a, n)\<leftarrow>xs. unat n)"
  using assms
proof (induction xs)
  case (Cons x xs)
  obtain a n where x: "x = (a, n)" by (cases x)
  have IH: "unat (\<Sum>(a, n)\<leftarrow>xs. ucast n :: u128) = (\<Sum>(a, n)\<leftarrow>xs. unat n)" using Cons by (simp add: x)
  have "unat (ucast n :: u128) + unat (\<Sum>(a, n)\<leftarrow>xs. ucast n :: u128) < 2 ^ LENGTH(128)"
    unfolding IH using Cons.prems by (simp add: x)
  then have "unat (ucast n + (\<Sum>(a, n)\<leftarrow>xs. ucast n) :: u128) = unat (ucast n :: u128) + unat (\<Sum>(a, n)\<leftarrow>xs. ucast n :: u128)"
    by (simp only: unat_add_lem)
  then show ?case using IH by (simp add: x)
qed simp

lemma fold_sat_add:
  assumes "unat z + (\<Sum>(a, n)\<leftarrow>xs. unat n) < 2 ^ 64"
  shows "unat (fold (\<lambda>(a, n) acc. sat_add acc n) xs (z :: u64)) = unat z + (\<Sum>(a, n)\<leftarrow>xs. unat n)"
  using assms
proof (induction xs arbitrary: z)
  case (Cons x xs)
  obtain a n where x: "x = (a, n)" by (cases x)
  have "unat (sat_add z n) = unat z + unat n" using Cons.prems by (simp add: x unat_sat_add)
  then show ?case using Cons.IH [of "sat_add z n"] Cons.prems by (simp add: x)
qed simp

lemma sum_div_le: "(\<Sum>x\<leftarrow>xs. f x div T) \<le> (\<Sum>x\<leftarrow>xs. f x) div T" for f :: "'a \<Rightarrow> nat"
proof (induction xs)
  case (Cons x xs)
  have "f x div T + (\<Sum>x\<leftarrow>xs. f x) div T \<le> (f x + (\<Sum>x\<leftarrow>xs. f x)) div T" unfolding div_add1_eq [of "f x"] by simp
  then show ?case using Cons by simp
qed simp

definition stake_shares :: "u64 \<Rightarrow> u128 \<Rightarrow> (address \<times> u64) list \<Rightarrow> (address \<times> u64) list" where
  "stake_shares b W vs = map (\<lambda>(a, n). (a, ucast (ucast b * ucast n div W))) vs"

definition top_up :: "u64 \<Rightarrow> (address \<times> u64) list \<Rightarrow> (address \<times> u64) list" where
  "top_up b out =
     (let remainder = sat_sub b (fold (\<lambda>(_, share) paid. sat_add paid share) out 0)
      in if remainder > 0
         then (case out of [] \<Rightarrow> [] | (addr, first_share) # rest \<Rightarrow> (addr, sat_add first_share remainder) # rest)
         else out)"

lemma stake_le_sum: "(a, n) \<in> set vs \<Longrightarrow> unat n \<le> (\<Sum>(a, n)\<leftarrow>vs. unat n)" for n :: u64
  by (induction vs) auto

lemma share_exact:
  fixes b n :: u64 and W :: u128
  assumes "unat W = T" "0 < T" "unat n \<le> T"
  shows "unat (ucast (ucast b * ucast n div W :: u128) :: u64) = unat b * unat n div T"
proof -
  have "unat b * unat n div T \<le> unat b * T div T" by (intro div_le_mono mult_le_mono2 assms(3))
  also have "\<dots> = unat b" using assms(2) by simp
  finally have "unat b * unat n div T < 2 ^ 64" using unat_lt64 [of b] by (rule le_less_trans)
  moreover have "unat (ucast b * ucast n div W) = unat b * unat n div T"
    unfolding unat_div_distrib unat_mul_ucast assms(1) ..
  ultimately show ?thesis using narrow_exact [of "ucast b * ucast n div W"] by simp
qed

lemma stake_shares_sum:
  assumes "unat W = (\<Sum>(a, n)\<leftarrow>vs. unat n)" "0 < unat W"
  shows "(\<Sum>(a, n)\<leftarrow>stake_shares b W vs. unat n) \<le> unat b"
proof -
  let ?T = "unat W"
  have "map (\<lambda>(a, n). unat n) (stake_shares b W vs) = map (\<lambda>(a, n). unat b * unat n div ?T) vs"
    using share_exact [OF refl assms(2)] stake_le_sum [of _ _ vs] assms(1) by (auto simp: stake_shares_def)
  then have "(\<Sum>(a, n)\<leftarrow>stake_shares b W vs. unat n) = (\<Sum>(a, n)\<leftarrow>vs. unat b * unat n div ?T)" by simp
  also have "\<dots> \<le> (\<Sum>x\<leftarrow>vs. unat b * unat (snd x)) div ?T"
    using sum_div_le [of "\<lambda>x. unat b * unat (snd x)" ?T vs] by (simp add: case_prod_unfold)
  also have "(\<Sum>x\<leftarrow>vs. unat b * unat (snd x)) = unat b * ?T"
    unfolding assms(1) by (simp add: sum_list_const_mult case_prod_unfold)
  finally show ?thesis using assms(2) by simp
qed

lemma top_up_sum:
  assumes "(\<Sum>(a, n)\<leftarrow>out. unat n) \<le> unat b" "out \<noteq> []"
  shows "(\<Sum>(a, n)\<leftarrow>top_up b out. unat n) = unat b" "map fst (top_up b out) = map fst out"
proof -
  obtain a x rest where o: "out = (a, x) # rest" using assms(2) by (cases out) auto
  define P where "P = fold (\<lambda>(_, share) paid. sat_add paid share) out 0"
  have P: "unat P = (\<Sum>(a, n)\<leftarrow>out. unat n)"
    unfolding P_def using fold_sat_add [of 0 out] le_less_trans [OF assms(1) unat_lt64] by simp
  have rem: "unat (sat_sub b P) = unat b - unat P" by (simp add: unat_sat_sub)
  have top: "top_up b out = (if sat_sub b P > 0 then (a, sat_add x (sat_sub b P)) # rest else out)"
    unfolding top_up_def Let_def P_def [symmetric] by (simp add: o)
  show "map fst (top_up b out) = map fst out" unfolding top by (simp add: o)
  show "(\<Sum>(a, n)\<leftarrow>top_up b out. unat n) = unat b"
  proof (cases "sat_sub b P > 0")
    case True
    have px: "unat x + (\<Sum>(a, n)\<leftarrow>rest. unat n) = unat P" using P by (simp add: o)
    have "unat (sat_add x (sat_sub b P)) = unat x + (unat b - unat P)"
      using px assms(1) P unat_lt64 [of b] by (simp add: unat_sat_add rem)
    then show ?thesis unfolding top using True px assms(1) P by simp
  next
    case False
    then have "unat b - unat P = 0" using rem by (simp add: word_gt_0)
    then show ?thesis unfolding top using False assms(1) P by simp
  qed
qed

lemma reward_for_epoch_shares:
  "reward_for_epoch schedule epoch remaining stakes =
     (let b = per_epoch_budget schedule epoch remaining;
          vs = sort_key fst (filter (\<lambda>(_, stake). stake > 0) stakes);
          W = (\<Sum>(a, n)\<leftarrow>vs. ucast n :: u128)
      in if b = 0 \<or> stakes = [] \<or> W = 0 then [] else top_up b (stake_shares b W vs))"
  by (simp add: reward_for_epoch_def top_up_def stake_shares_def Let_def)

lemma staked_total:
  assumes "length stakes < 2 ^ 64"
  defines "vs \<equiv> sort_key fst (filter (\<lambda>(_, stake). stake > 0) stakes)"
  shows "unat (\<Sum>(a, n)\<leftarrow>vs. ucast n :: u128) = (\<Sum>(a, n)\<leftarrow>vs. unat (n :: u64))"
    "vs \<noteq> [] \<Longrightarrow> 0 < (\<Sum>(a, n)\<leftarrow>vs. unat (n :: u64))"
proof -
  have "(\<Sum>(a, n)\<leftarrow>vs. unat n) \<le> length vs * 2 ^ 64"
    by (rule sum_list_bound) (auto intro: less_imp_le [OF unat_lt64 [simplified]])
  also have "\<dots> < 2 ^ 64 * 2 ^ 64"
    by (rule mult_strict_right_mono) (simp_all only: vs_def length_sort le_less_trans [OF length_filter_le assms(1)], simp)
  also have "\<dots> = 2 ^ 128" unfolding power_add [symmetric] by simp
  finally show "unat (\<Sum>(a, n)\<leftarrow>vs. ucast n :: u128) = (\<Sum>(a, n)\<leftarrow>vs. unat n)" by (rule unat_sum_stakes)
  assume "vs \<noteq> []"
  then have "hd vs \<in> set vs" by simp
  moreover from this have "0 < snd (hd vs)" by (auto simp: vs_def)
  ultimately have "0 < unat (snd (hd vs))" "unat (snd (hd vs)) \<le> (\<Sum>(a, n)\<leftarrow>vs. unat n)"
    using stake_le_sum [of "fst (hd vs)" "snd (hd vs)" vs] by (simp_all add: word_gt_0 unat_gt_0)
  then show "0 < (\<Sum>(a, n)\<leftarrow>vs. unat n)" by (rule less_le_trans)
qed

text \<open>
  C29: The reward of an epoch is the epoch's budget, to the unit: it goes to the validators with stake, in the
  order of their addresses, and adds up to exactly the budget, which is within what is left of the
  pool. Without a budget or without stake nothing is paid.
\<close>

theorem epoch_reward_is_exact:
  assumes "length stakes < 2 ^ 64"
  shows "let out = reward_for_epoch schedule epoch remaining stakes;
             budget = per_epoch_budget schedule epoch remaining;
             staked = sort_key fst (filter (\<lambda>(_, stake). stake > 0) stakes)
    in budget \<le> remaining \<and>
       (if budget = 0 \<or> staked = [] then out = []
        else map fst out = map fst staked \<and> (\<Sum>(a, n)\<leftarrow>out. unat n) = unat budget \<and> total_epoch_payout out = budget)"
proof -
  define b where "b = per_epoch_budget schedule epoch remaining"
  define vs where "vs = sort_key fst (filter (\<lambda>(_, stake). stake > 0) stakes)"
  define W where "W = (\<Sum>(a, n)\<leftarrow>vs. ucast n :: u128)"
  define out where "out = reward_for_epoch schedule epoch remaining stakes"
  note total = staked_total [OF assms, folded vs_def, folded W_def]
  have le: "b \<le> remaining" by (simp add: b_def per_epoch_budget_def)
  have run: "out = (if b = 0 \<or> stakes = [] \<or> W = 0 then [] else top_up b (stake_shares b W vs))"
    unfolding out_def reward_for_epoch_shares Let_def b_def [symmetric] vs_def [symmetric] W_def [symmetric] ..
  have goal: "if b = 0 \<or> vs = [] then out = []
      else map fst out = map fst vs \<and> (\<Sum>(a, n)\<leftarrow>out. unat n) = unat b \<and> total_epoch_payout out = b"
  proof (cases "b = 0 \<or> vs = []")
    case True
    then have "b = 0 \<or> W = 0" by (auto simp: W_def)
    then show ?thesis using True run by auto
  next
    case False
    have pos: "0 < unat W" using total False by simp
    then have out: "out = top_up b (stake_shares b W vs)" using run False by (auto simp: vs_def)
    have ne: "stake_shares b W vs \<noteq> []" using False by (simp add: stake_shares_def)
    note top = top_up_sum [OF stake_shares_sum [OF total(1) pos] ne, folded out]
    have "unat (total_epoch_payout out) = unat b"
      unfolding total_epoch_payout_def using fold_sat_add [of 0 out] top(1) unat_lt64 [of b] by simp
    moreover have "map fst (stake_shares b W vs) = map fst vs" by (simp add: stake_shares_def comp_def case_prod_unfold)
    ultimately show ?thesis using False top by (simp add: word_unat_eq_iff)
  qed
  then show ?thesis unfolding Let_def b_def [symmetric] vs_def [symmetric] out_def [symmetric] using le by simp
qed

theorem epoch_reward_is_exact_witness:
  "let out = reward_for_epoch reward_pool_default 7 5000 [([2], 3), ([1], 4), ([3], 0)]
   in map fst out = [[1], [2]] \<and> (\<Sum>(a, n)\<leftarrow>out. unat n) = 5000"
proof -
  have b: "per_epoch_budget reward_pool_default 7 5000 = 5000"
    by (simp add: per_epoch_budget_def reward_pool_default_def DEFAULT_VALIDATION_POOL_EPOCHS_def
        DEFAULT_VALIDATION_REWARD_POOL_def bud_units_def BUD_UNIT_def)
  have vs: "sort_key fst (filter (\<lambda>(_, stake). stake > 0) [([2], 3), ([1], 4), ([3], 0)]) = [([1 :: u8], 4 :: u64), ([2], 3)]"
    by (simp add: sort_key_def)
  show ?thesis
    using epoch_reward_is_exact [of "[([2], 3), ([1], 4), ([3], 0)]" reward_pool_default 7 5000]
    unfolding b vs Let_def by simp
qed

subsection \<open>Genesis and vesting\<close>

text \<open>
  The genesis allocations are handed out exactly when they add up to the fixed supply, with nothing lost
  to saturation.
\<close>

theorem genesis_allocates_the_supply:
  "(case genesis_allocations p addrs of
      Inl _ \<Rightarrow> (\<Sum>a\<leftarrow>[Community, Liquidity, Ecosystem, Team, BurnReserve]. unat (amount_of p a)) \<noteq> unat BUD_TOTAL_SUPPLY
    | Inr xs \<Rightarrow> (\<Sum>(a, n)\<leftarrow>xs. unat n) = unat BUD_TOTAL_SUPPLY
        \<and> xs = map (\<lambda>a. (address_of addrs a, amount_of p a)) [Community, Liquidity, Ecosystem, Team, BurnReserve])"
proof -
  have "unat (tokenomics_total p) = min (unat (tk_community p) + unat (tk_liquidity p) + unat (tk_ecosystem p)
      + unat (tk_team p) + unat (tk_burn_reserve p)) (2 ^ 64 - 1)"
    unfolding tokenomics_total_def unat_sat_add by (simp add: min_def)
  then have "is_balanced p \<longleftrightarrow> unat (tk_community p) + unat (tk_liquidity p) + unat (tk_ecosystem p)
      + unat (tk_team p) + unat (tk_burn_reserve p) = unat BUD_TOTAL_SUPPLY"
    unfolding is_balanced_def word_unat_eq_iff by (simp add: cap_value min_def)
  then show ?thesis by (auto simp: genesis_allocations_def)
qed

text \<open>
  Vesting: nothing before the cliff, everything at the end, never more than the total and never less
  later than earlier; what is not unlocked is locked.
\<close>

lemma unat_linear:
  fixes total' elapsed duration :: u64
  assumes "\<not> duration \<le> elapsed"
  shows "unat (ucast ((ucast total' * ucast elapsed :: u128) div ucast duration) :: u64)
    = unat total' * unat elapsed div unat duration"
proof -
  have "unat total' * unat elapsed div unat duration \<le> unat total' * unat duration div unat duration"
    using assms by (intro div_le_mono mult_le_mono2) (simp add: word_le_nat_alt)
  also have "\<dots> \<le> unat total'" by simp
  finally have "unat total' * unat elapsed div unat duration < 2 ^ 64" using unat_lt64 [of total'] by (rule le_less_trans)
  moreover have "unat ((ucast total' * ucast elapsed :: u128) div ucast duration) = unat total' * unat elapsed div unat duration"
    unfolding unat_div_distrib unat_mul_ucast unat_up ..
  ultimately show ?thesis using narrow_exact [of "(ucast total' * ucast elapsed :: u128) div ucast duration"] by simp
qed

definition vested :: "vesting_schedule \<Rightarrow> u64 \<Rightarrow> nat" where
  "vested v epoch =
     (if epoch < sat_add (vest_start_epoch v) (vest_cliff_epochs v) then 0
      else if unat epoch - unat (vest_start_epoch v) \<ge> unat (vest_duration_epochs v) then unat (vest_total v)
      else unat (vest_total v) * (unat epoch - unat (vest_start_epoch v)) div unat (vest_duration_epochs v))"

lemma unlocked_exact: "unat (unlocked_at v epoch) = vested v epoch"
proof -
  have e: "unat (sat_sub epoch (vest_start_epoch v)) = unat epoch - unat (vest_start_epoch v)" by (simp add: unat_sat_sub)
  show ?thesis
    using unat_linear [of "vest_duration_epochs v" "sat_sub epoch (vest_start_epoch v)" "vest_total v"] e
    by (auto simp: unlocked_at_def vested_def Let_def word_le_nat_alt)
qed

lemma vested_mono:
  assumes "epoch \<le> later"
  shows "vested v epoch \<le> vested v later"
proof -
  let ?d = "unat (vest_duration_epochs v)" and ?t = "unat (vest_total v)"
    and ?e = "unat epoch - unat (vest_start_epoch v)" and ?l = "unat later - unat (vest_start_epoch v)"
  have el: "?e \<le> ?l" using assms by (simp add: word_le_nat_alt diff_le_mono)
  have "?t * ?e div ?d \<le> ?t * ?l div ?d" by (intro div_le_mono mult_le_mono2 el)
  moreover have "?t * ?e div ?d \<le> ?t" if "?e < ?d"
    using div_le_mono [OF mult_le_mono2 [OF less_imp_le [OF that]], of ?t ?d] that by simp
  moreover have "\<not> later < sat_add (vest_start_epoch v) (vest_cliff_epochs v)"
    if "\<not> epoch < sat_add (vest_start_epoch v) (vest_cliff_epochs v)"
    using that assms by (meson le_less_trans)
  ultimately show ?thesis using el by (auto simp: vested_def not_le)
qed

theorem vesting_is_monotone:
  assumes "epoch \<le> later"
  shows "unlocked_at v epoch \<le> unlocked_at v later \<and> unlocked_at v later \<le> vest_total v
    \<and> unat (unlocked_at v epoch) + unat (locked_at v epoch) = unat (vest_total v)"
proof -
  have part: "t * e div d \<le> t" if "\<not> d \<le> e" for t e d :: nat
    using div_le_mono [OF mult_le_mono2 [of e d t], of d] that by simp
  have top: "vested v e \<le> unat (vest_total v)" for e
    unfolding vested_def using part by simp
  then show ?thesis
    using vested_mono [OF assms, of v] by (simp add: word_le_nat_alt unlocked_exact locked_at_def unat_sat_sub)
qed

end
