(* ===== verification/Mempool.thy ===== *)
theory Mempool
  imports BTree_Map Registry_Params
begin

text \<open>
  The transaction pool of \<^verbatim>\<open>src/mempool/pool.rs\<close>: admission with replacement by fee, eviction by entry
  count and by bytes, expiry, and the order in which a block takes transactions. A \<^verbatim>\<open>HashMap\<close> is an
  ordered map here; the pool iterates over one only to collect the expired hashes, whose removal does
  not depend on the order, and in \<^verbatim>\<open>drain\<close>, whose list the source leaves unordered. A hash is the
  UTF-8 bytes of its string, which is what the order of strings compares. The signature check
  \<^verbatim>\<open>Transaction::verify\<close>, the length of the protobuf encoding and the clock are parameters.
\<close>

subsection \<open>Data\<close>

record ('a, 't) transaction =
  tx_from :: address
  tx_to :: address
  tx_amount :: u64
  tx_fee :: u64
  tx_max_fee :: u64
  tx_priority_fee :: u64
  tx_nonce :: u64
  tx_data :: bytes
  tx_timestamp :: u128
  tx_hash :: bytes
  tx_signature :: "bytes option"
  tx_signer_public_key :: bytes
  tx_authorization :: "'a option"
  tx_chain_id :: u64
  tx_signature_version :: u32
  tx_type :: 't

definition DEFAULT_MAX_POOL_BYTES :: u64 where
  "DEFAULT_MAX_POOL_BYTES = 256 * 1024 * 1024"

record mempool_config =
  max_size :: u64
  max_per_sender :: u64
  min_fee :: u64
  tx_ttl_secs :: u64
  rbf_bump_percent :: u64
  max_pool_bytes :: u64

definition mempool_config_default :: mempool_config where
  "mempool_config_default =
     \<lparr> max_size = 20000, max_per_sender = 100, min_fee = 1, tx_ttl_secs = 3600, rbf_bump_percent = 10,
       max_pool_bytes = DEFAULT_MAX_POOL_BYTES \<rparr>"

datatype mempool_error = PoolFull | PoolBytesFull | DuplicateTransaction | FeeTooLow | SenderLimitReached
  | InvalidNonce | TransactionExpired | RbfFeeTooLow | InvalidTransaction string

record ('a, 't) pending_tx =
  pending_tx :: "('a, 't) transaction"
  added_at :: u128
  charged :: u64

record ('a, 't) mempool =
  pool_config :: mempool_config
  transactions :: "(bytes, ('a, 't) pending_tx) btree_map"
  by_sender :: "(address, (u64, bytes) btree_map) btree_map"
  by_fee :: "(u64, (bytes, unit) btree_map) btree_map"
  resident_bytes :: u64

definition mempool_new :: "mempool_config \<Rightarrow> ('a, 't) mempool" where
  "mempool_new config =
     \<lparr> pool_config = config, transactions = bt_empty, by_sender = bt_empty, by_fee = bt_empty, resident_bytes = 0 \<rparr>"

definition mempool_default :: "('a, 't) mempool" where
  "mempool_default = mempool_new mempool_config_default"

subsection \<open>Removal\<close>

text \<open>Removing a key from the inner map and, if that empties it, the inner map from the outer one.\<close>

definition unindex :: "'k::linorder \<Rightarrow> 'j::linorder \<Rightarrow> ('k, ('j, 'v) btree_map) btree_map
    \<Rightarrow> ('k, ('j, 'v) btree_map) btree_map" where
  "unindex k j m =
     (case bt_get m k of
        None \<Rightarrow> m
      | Some inner \<Rightarrow>
          if bt_len (bt_remove j inner) = 0 then bt_remove k m else bt_insert k (bt_remove j inner) m)"

definition remove_transaction :: "bytes \<Rightarrow> ('a, 't) mempool \<Rightarrow> ('a, 't) transaction option \<times> ('a, 't) mempool" where
  "remove_transaction hash p =
     (case bt_get (transactions p) hash of
        None \<Rightarrow> (None, p)
      | Some pending \<Rightarrow>
          (Some (pending_tx pending),
           p\<lparr> transactions := bt_remove hash (transactions p),
              resident_bytes := sat_sub (resident_bytes p) (charged pending),
              by_sender := unindex (tx_from (pending_tx pending)) (tx_nonce (pending_tx pending)) (by_sender p),
              by_fee := unindex (tx_fee (pending_tx pending)) hash (by_fee p) \<rparr>))"

text \<open>\<open>for hash in hashes { self.remove_transaction(&hash); }\<close>\<close>

definition remove_all :: "bytes list \<Rightarrow> ('a, 't) mempool \<Rightarrow> ('a, 't) mempool" where
  "remove_all hashes p = fold (\<lambda>h p. snd (remove_transaction h p)) hashes p"

subsection \<open>Eviction\<close>

text \<open>\<open>Iterator::min\<close>\<close>

fun iter_min :: "'k::linorder list \<Rightarrow> 'k option" where
  "iter_min [] = None"
| "iter_min (x # xs) = Some (fold min xs x)"

definition evictable :: "('a, 't) mempool \<Rightarrow> ('a, 't) transaction \<Rightarrow> bytes \<Rightarrow> bool" where
  "evictable p new_tx h =
     (case bt_get (transactions p) h of
        None \<Rightarrow> False
      | Some entry \<Rightarrow> tx_from (pending_tx entry) \<noteq> tx_from new_tx)"

fun lowest_victim :: "('a, 't) mempool \<Rightarrow> ('a, 't) transaction \<Rightarrow> (u64 \<times> (bytes, unit) btree_map) list \<Rightarrow> bytes option" where
  "lowest_victim p new_tx [] = None"
| "lowest_victim p new_tx ((fee, hashes) # rest) =
     (if tx_fee new_tx \<le> fee then None
      else case iter_min (filter (evictable p new_tx) (bt_keys hashes)) of
        Some hash \<Rightarrow> Some hash
      | None \<Rightarrow> lowest_victim p new_tx rest)"

definition evict_lowest_fee :: "('a, 't) transaction \<Rightarrow> ('a, 't) mempool \<Rightarrow> bool \<times> ('a, 't) mempool" where
  "evict_lowest_fee new_tx p =
     (case lowest_victim p new_tx (bt_entries (by_fee p)) of
        None \<Rightarrow> (False, p)
      | Some hash \<Rightarrow> (True, snd (remove_transaction hash p)))"

text \<open>The inner loop says whether it broke out of the outer one.\<close>

fun pick_in_bucket :: "('a, 't) mempool \<Rightarrow> ('a, 't) transaction \<Rightarrow> u64 \<Rightarrow> bytes list \<Rightarrow> bytes list \<times> u64
    \<Rightarrow> bool \<times> bytes list \<times> u64" where
  "pick_in_bucket p new_tx needed [] acc = (False, acc)"
| "pick_in_bucket p new_tx needed (hash # hashes) (victims, freed) =
     (case bt_get (transactions p) hash of
        None \<Rightarrow> pick_in_bucket p new_tx needed hashes (victims, freed)
      | Some entry \<Rightarrow>
          if tx_from (pending_tx entry) = tx_from new_tx
          then pick_in_bucket p new_tx needed hashes (victims, freed)
          else let freed = sat_add freed (charged entry); victims = victims @ [hash]
            in if freed \<ge> needed then (True, victims, freed)
               else pick_in_bucket p new_tx needed hashes (victims, freed))"

fun pick_victims :: "('a, 't) mempool \<Rightarrow> ('a, 't) transaction \<Rightarrow> u64 \<Rightarrow> (u64 \<times> (bytes, unit) btree_map) list
    \<Rightarrow> bytes list \<times> u64 \<Rightarrow> bytes list \<times> u64" where
  "pick_victims p new_tx needed [] acc = acc"
| "pick_victims p new_tx needed ((fee, hashes) # rest) acc =
     (if tx_fee new_tx \<le> fee then acc
      else case pick_in_bucket p new_tx needed (bt_keys hashes) acc of
        (True, acc) \<Rightarrow> acc
      | (False, acc) \<Rightarrow> pick_victims p new_tx needed rest acc)"

definition evict_until_bytes_fit ::
  "('a, 't) transaction \<Rightarrow> u64 \<Rightarrow> ('a, 't) mempool \<Rightarrow> bool \<times> ('a, 't) mempool" where
  "evict_until_bytes_fit new_tx needed p =
     (let (victims, freed) = pick_victims p new_tx needed (bt_entries (by_fee p)) ([], 0)
      in if freed < needed then (False, p) else (True, remove_all victims p))"

subsection \<open>Admission\<close>

definition find_tx_by_sender_nonce :: "address \<Rightarrow> u64 \<Rightarrow> ('a, 't) mempool \<Rightarrow> bytes option" where
  "find_tx_by_sender_nonce sender nonce p =
     (case bt_get (by_sender p) sender of None \<Rightarrow> None | Some nonces \<Rightarrow> bt_get nonces nonce)"

text \<open>The replacement rule: the fee must rise by the configured percentage, rounded up, and by at least one.\<close>

definition min_new_fee :: "u64 \<Rightarrow> u64 \<Rightarrow> u64" where
  "min_new_fee fee bump_percent =
     (let bump = div_ceil (ucast fee * ucast bump_percent) 100
      in sat_add fee (narrow_or_max (max bump 1)))"

text \<open>\<open>self.by_sender.entry(k).or_default().insert(j, v)\<close>\<close>

definition index_insert :: "'k::linorder \<Rightarrow> 'j::linorder \<Rightarrow> 'v \<Rightarrow> ('k, ('j, 'v) btree_map) btree_map
    \<Rightarrow> ('k, ('j, 'v) btree_map) btree_map" where
  "index_insert k j v m =
     bt_insert k (bt_insert j v (case bt_get m k of None \<Rightarrow> bt_empty | Some inner \<Rightarrow> inner)) m"

text \<open>The four writes of an admission.\<close>

definition store_transaction :: "u128 \<Rightarrow> u64 \<Rightarrow> ('a, 't) transaction \<Rightarrow> ('a, 't) mempool \<Rightarrow> ('a, 't) mempool" where
  "store_transaction now incoming tx p =
     p\<lparr> by_sender := index_insert (tx_from tx) (tx_nonce tx) (tx_hash tx) (by_sender p),
        by_fee := index_insert (tx_fee tx) (tx_hash tx) () (by_fee p),
        resident_bytes := sat_add (resident_bytes p) incoming,
        transactions := bt_insert (tx_hash tx) \<lparr> pending_tx = tx, added_at = now, charged = incoming \<rparr> (transactions p) \<rparr>"

text \<open>The checks that refuse before anything is evicted, with the hash the submission would replace.\<close>

definition admission_checks ::
  "(('a, 't) transaction \<Rightarrow> bool) \<Rightarrow> ('a, 't) transaction \<Rightarrow> ('a, 't) mempool \<Rightarrow> mempool_error + bytes option" where
  "admission_checks verify tx p =
     (if \<not> verify tx then Inl (InvalidTransaction ''Invalid transaction signature'')
      else if bt_contains (transactions p) (tx_hash tx) then Inl DuplicateTransaction
      else if tx_fee tx < min_fee (pool_config p) then Inl FeeTooLow
      else
        let sender_count = (case bt_get (by_sender p) (tx_from tx) of None \<Rightarrow> 0 | Some nonces \<Rightarrow> bt_len nonces)
        in case find_tx_by_sender_nonce (tx_from tx) (tx_nonce tx) p of
             Some existing_hash \<Rightarrow>
               (case bt_get (transactions p) existing_hash of
                  None \<Rightarrow> Inl (InvalidTransaction ''replacement target vanished from the pool'')
                | Some existing \<Rightarrow>
                    if tx_fee tx < min_new_fee (tx_fee (pending_tx existing)) (rbf_bump_percent (pool_config p))
                    then Inl RbfFeeTooLow
                    else Inr (Some existing_hash))
           | None \<Rightarrow>
               if sender_count \<ge> unat (max_per_sender (pool_config p)) then Inl SenderLimitReached
               else Inr None)"

definition make_room_by_count ::
  "bytes option \<Rightarrow> ('a, 't) transaction \<Rightarrow> ('a, 't) mempool \<Rightarrow> bool \<times> ('a, 't) mempool" where
  "make_room_by_count existing_hash tx p =
     (if existing_hash = None \<and> bt_len (transactions p) \<ge> unat (max_size (pool_config p))
      then evict_lowest_fee tx p else (True, p))"

definition projected_bytes :: "bytes option \<Rightarrow> u64 \<Rightarrow> ('a, 't) mempool \<Rightarrow> u64" where
  "projected_bytes existing_hash incoming p =
     (let freed = (case existing_hash of
                     None \<Rightarrow> 0
                   | Some h \<Rightarrow> (case bt_get (transactions p) h of None \<Rightarrow> 0 | Some entry \<Rightarrow> charged entry))
      in sat_add (sat_sub (resident_bytes p) freed) incoming)"

definition make_room_by_bytes ::
  "bytes option \<Rightarrow> u64 \<Rightarrow> ('a, 't) transaction \<Rightarrow> ('a, 't) mempool \<Rightarrow> bool \<times> ('a, 't) mempool" where
  "make_room_by_bytes existing_hash incoming tx p =
     (let projected = projected_bytes existing_hash incoming p
      in if projected > max_pool_bytes (pool_config p)
         then evict_until_bytes_fit tx (projected - max_pool_bytes (pool_config p)) p
         else (True, p))"

definition add_transaction ::
  "(('a, 't) transaction \<Rightarrow> bool) \<Rightarrow> (('a, 't) transaction \<Rightarrow> u64) \<Rightarrow> u128 \<Rightarrow> ('a, 't) transaction
     \<Rightarrow> ('a, 't) mempool \<Rightarrow> (mempool_error, unit, ('a, 't) mempool) outcome" where
  "add_transaction verify encoded_len now tx p =
     (case admission_checks verify tx p of
        Inl e \<Rightarrow> (Inl e, p)
      | Inr existing_hash \<Rightarrow>
      (case make_room_by_count existing_hash tx p of
        (False, p) \<Rightarrow> (Inl PoolFull, p)
      | (True, p) \<Rightarrow>
      (let incoming = encoded_len tx in
       case make_room_by_bytes existing_hash incoming tx p of
        (False, p) \<Rightarrow> (Inl PoolBytesFull, p)
      | (True, p) \<Rightarrow>
          let p = (case existing_hash of None \<Rightarrow> p | Some h \<Rightarrow> snd (remove_transaction h p))
          in (Inr (), store_transaction now incoming tx p))))"

subsection \<open>Block selection, expiry and queries\<close>

fun take_sorted :: "('a, 't) mempool \<Rightarrow> nat \<Rightarrow> bytes list \<Rightarrow> ('a, 't) transaction list \<Rightarrow> ('a, 't) transaction list" where
  "take_sorted p limit [] result = result"
| "take_sorted p limit (hash # hashes) result =
     (if length result \<ge> limit then result
      else case bt_get (transactions p) hash of
        None \<Rightarrow> take_sorted p limit hashes result
      | Some pending \<Rightarrow> take_sorted p limit hashes (result @ [pending_tx pending]))"

definition get_sorted_transactions :: "u64 \<Rightarrow> ('a, 't) mempool \<Rightarrow> ('a, 't) transaction list" where
  "get_sorted_transactions limit p =
     take_sorted p (unat limit) (concat (map (bt_keys \<circ> snd) (rev (bt_entries (by_fee p))))) []"

definition cleanup_expired :: "u128 \<Rightarrow> ('a, 't) mempool \<Rightarrow> nat \<times> ('a, 't) mempool" where
  "cleanup_expired now p =
     (let ttl_ms = ucast (tx_ttl_secs (pool_config p)) * 1000;
          expired = map fst (filter (\<lambda>(_, e). sat_sub now (added_at e) > ttl_ms) (bt_entries (transactions p)))
      in (length expired, remove_all expired p))"

definition pool_len :: "('a, 't) mempool \<Rightarrow> nat" where
  "pool_len p = bt_len (transactions p)"

definition sender_count :: "('a, 't) mempool \<Rightarrow> nat" where
  "sender_count p = bt_len (by_sender p)"

definition pool_is_empty :: "('a, 't) mempool \<Rightarrow> bool" where
  "pool_is_empty p = (bt_len (transactions p) = 0)"

definition pool_get :: "bytes \<Rightarrow> ('a, 't) mempool \<Rightarrow> ('a, 't) transaction option" where
  "pool_get hash p = map_option pending_tx (bt_get (transactions p) hash)"

definition sender_transactions :: "address \<Rightarrow> ('a, 't) mempool \<Rightarrow> ('a, 't) transaction list" where
  "sender_transactions sender p =
     (case bt_get (by_sender p) sender of
        None \<Rightarrow> []
      | Some nonces \<Rightarrow> map (pending_tx \<circ> the) (filter (\<lambda>e. e \<noteq> None) (map (bt_get (transactions p)) (bt_values nonces))))"

definition drain :: "('a, 't) mempool \<Rightarrow> ('a, 't) transaction list \<times> ('a, 't) mempool" where
  "drain p =
     (map pending_tx (bt_values (transactions p)),
      p\<lparr> transactions := bt_empty, by_sender := bt_empty, by_fee := bt_empty, resident_bytes := 0 \<rparr>)"

definition set_min_fee :: "u64 \<Rightarrow> ('a, 't) mempool \<Rightarrow> ('a, 't) mempool" where
  "set_min_fee fee p = p\<lparr> pool_config := (pool_config p)\<lparr> min_fee := fee \<rparr> \<rparr>"

end
