(* ===== verification/Mempool_Inv.thy ===== *)
theory Mempool_Inv
  imports Mempool "HOL-Library.Sublist"
begin

text \<open>
  The invariant of the transaction pool: the two indexes hold exactly the pooled transactions, the byte
  counter is the sum of the charges, and the three limits hold. Every operation keeps it.
\<close>

subsection \<open>Two-level indexes\<close>

definition index_get :: "('k::linorder, ('j::linorder, 'v) btree_map) btree_map \<Rightarrow> 'k \<Rightarrow> 'j \<Rightarrow> 'v option" where
  "index_get m k j = (case bt_get m k of None \<Rightarrow> None | Some inner \<Rightarrow> bt_get inner j)"

definition no_empty_bucket :: "('k::linorder, ('j::linorder, 'v) btree_map) btree_map \<Rightarrow> bool" where
  "no_empty_bucket m \<longleftrightarrow> (\<forall>k inner. bt_get m k = Some inner \<longrightarrow> bt_len inner \<noteq> 0)"

lemma bt_len_0_iff: "bt_len m = 0 \<longleftrightarrow> (\<forall>k. bt_get m k = None)"
proof -
  have "bt_len m = 0 \<longleftrightarrow> set (bt_keys m) = {}" by (simp add: bt_len_def bt_keys_def)
  then show ?thesis by (auto simp: in_bt_keys_iff set_eq_iff)
qed

lemma bt_len_as_sum: "bt_len m = (\<Sum>(k, v)\<leftarrow>bt_entries m. 1)"
  unfolding bt_len_def by (induction "bt_entries m") (auto simp: case_prod_unfold sum_list_triv)

lemma bt_len_remove: "bt_len (bt_remove k m) + (if bt_get m k = None then 0 else 1) = bt_len m"
  using bt.sum_remove [of "\<lambda>_ _. 1" k m] by (auto simp: bt_len_as_sum split: option.splits)

lemma bt_len_remove_le: "bt_len (bt_remove k m) \<le> bt_len m"
  using bt_len_remove [of k m] by linarith

lemma bt_len_insert: "bt_len (bt_insert k v m) = bt_len m + (if bt_get m k = None then 1 else 0)"
  using bt.sum_insert [of "\<lambda>_ _. 1" k v m] by (auto simp: bt_len_as_sum split: option.splits)

lemma index_get_empty [simp]: "index_get bt_empty k j = None"
  by (simp add: index_get_def)

lemma index_get_insert [simp]:
  "index_get (index_insert k j v m) k' j' = (if k' = k \<and> j' = j then Some v else index_get m k' j')"
  by (auto simp: index_get_def index_insert_def split: option.splits)

lemma index_get_unindex [simp]:
  "index_get (unindex k j m) k' j' = (if k' = k \<and> j' = j then None else index_get m k' j')"
proof (cases "bt_get m k")
  case (Some inner)
  then show ?thesis
    using bt_len_0_iff [of "bt_remove j inner"] by (auto simp: index_get_def unindex_def split: option.splits if_splits)
qed (auto simp: index_get_def unindex_def)

lemma no_empty_bucket_simps [simp]:
  "no_empty_bucket bt_empty"
  "no_empty_bucket m \<Longrightarrow> no_empty_bucket (index_insert k j v m)"
  "no_empty_bucket m \<Longrightarrow> no_empty_bucket (unindex k j m)"
  by (auto simp: no_empty_bucket_def index_insert_def unindex_def bt_len_insert split: option.splits if_splits)

definition bucket_len :: "('k::linorder, ('j::linorder, 'v) btree_map) btree_map \<Rightarrow> 'k \<Rightarrow> nat" where
  "bucket_len m k = (case bt_get m k of None \<Rightarrow> 0 | Some inner \<Rightarrow> bt_len inner)"

lemma bucket_len_empty [simp]: "bucket_len bt_empty k = 0"
  by (simp add: bucket_len_def)

lemma bucket_len_insert:
  "bucket_len (index_insert k j v m) k' = bucket_len m k' + (if k' = k \<and> index_get m k j = None then 1 else 0)"
  by (auto simp: bucket_len_def index_insert_def index_get_def bt_len_insert bt_len_0_iff split: option.splits)

lemma bucket_len_unindex:
  "bucket_len (unindex k j m) k' + (if k' = k \<and> index_get m k j \<noteq> None then 1 else 0) = bucket_len m k'"
proof (cases "bt_get m k")
  case (Some inner)
  then show ?thesis
    using bt_len_remove [of j inner] by (auto simp: bucket_len_def unindex_def index_get_def split: option.splits if_splits)
qed (auto simp: bucket_len_def unindex_def index_get_def)

lemma bucket_len_unindex_le: "bucket_len (unindex k j m) k' \<le> bucket_len m k'"
  using bucket_len_unindex [of k j m k'] by linarith

subsection \<open>The invariant\<close>

definition charge :: "('a, 't) mempool \<Rightarrow> bytes \<Rightarrow> nat" where
  "charge p h = (case bt_get (transactions p) h of None \<Rightarrow> 0 | Some e \<Rightarrow> unat (charged e))"

definition charged_sum :: "('a, 't) mempool \<Rightarrow> nat" where
  "charged_sum p = (\<Sum>(h, e)\<leftarrow>bt_entries (transactions p). unat (charged e))"

definition pool_ok :: "('a, 't) mempool \<Rightarrow> bool" where
  "pool_ok p \<longleftrightarrow>
     (\<forall>h e. bt_get (transactions p) h = Some e \<longrightarrow> tx_hash (pending_tx e) = h)
   \<and> (\<forall>s n h. index_get (by_sender p) s n = Some h
        \<longleftrightarrow> (\<exists>e. bt_get (transactions p) h = Some e \<and> tx_from (pending_tx e) = s \<and> tx_nonce (pending_tx e) = n))
   \<and> (\<forall>f h. index_get (by_fee p) f h = Some ()
        \<longleftrightarrow> (\<exists>e. bt_get (transactions p) h = Some e \<and> tx_fee (pending_tx e) = f))
   \<and> no_empty_bucket (by_sender p) \<and> no_empty_bucket (by_fee p)
   \<and> unat (resident_bytes p) = charged_sum p"

definition pool_bounded :: "('a, 't) mempool \<Rightarrow> bool" where
  "pool_bounded p \<longleftrightarrow>
     bt_len (transactions p) \<le> unat (max_size (pool_config p))
   \<and> (\<forall>s. bucket_len (by_sender p) s \<le> unat (max_per_sender (pool_config p)))
   \<and> resident_bytes p \<le> max_pool_bytes (pool_config p)"

lemma pool_okD:
  assumes "pool_ok p"
  shows "bt_get (transactions p) h = Some e \<Longrightarrow> tx_hash (pending_tx e) = h"
    "index_get (by_sender p) s n = Some h
        \<longleftrightarrow> (\<exists>e. bt_get (transactions p) h = Some e \<and> tx_from (pending_tx e) = s \<and> tx_nonce (pending_tx e) = n)"
    "index_get (by_fee p) f h = Some ()
        \<longleftrightarrow> (\<exists>e. bt_get (transactions p) h = Some e \<and> tx_fee (pending_tx e) = f)"
    "no_empty_bucket (by_sender p)" "no_empty_bucket (by_fee p)"
    "unat (resident_bytes p) = charged_sum p"
  using assms unfolding pool_ok_def by blast+

lemma pool_ok_new: "pool_ok (mempool_new cfg)" and pool_bounded_new: "pool_bounded (mempool_new cfg)"
  by (simp_all add: pool_ok_def pool_bounded_def mempool_new_def charged_sum_def bt_len_def)

subsection \<open>Removal\<close>

lemma remove_transaction_get [simp]:
  "bt_get (transactions (snd (remove_transaction h p))) h' = (if h' = h then None else bt_get (transactions p) h')"
  by (auto simp: remove_transaction_def split: option.splits)

lemma remove_transaction_config [simp]: "pool_config (snd (remove_transaction h p)) = pool_config p"
  by (simp add: remove_transaction_def split: option.splits)

lemma charged_sum_remove: "charged_sum (snd (remove_transaction h p)) + charge p h = charged_sum p"
  using bt.sum_remove [of "\<lambda>_ e. unat (charged e)" h "transactions p"]
  by (auto simp: charged_sum_def charge_def remove_transaction_def split: option.splits)

lemma pool_ok_remove:
  assumes ok: "pool_ok p"
  shows "pool_ok (snd (remove_transaction h p))"
proof (cases "bt_get (transactions p) h")
  case None
  then show ?thesis using ok by (simp add: remove_transaction_def)
next
  case (Some e)
  let ?p = "snd (remove_transaction h p)" and ?t = "pending_tx e"
  have p: "by_sender ?p = unindex (tx_from ?t) (tx_nonce ?t) (by_sender p)"
    "by_fee ?p = unindex (tx_fee ?t) h (by_fee p)" "resident_bytes ?p = sat_sub (resident_bytes p) (charged e)"
    using Some by (simp_all add: remove_transaction_def)
  have here: "index_get (by_sender p) (tx_from ?t) (tx_nonce ?t) = Some h" using pool_okD(2) [OF ok] Some by blast
  have "index_get (by_sender ?p) s n = Some h'
      \<longleftrightarrow> (\<exists>x. bt_get (transactions ?p) h' = Some x \<and> tx_from (pending_tx x) = s \<and> tx_nonce (pending_tx x) = n)" for s n h'
    using pool_okD(2) [OF ok, of s n h'] here Some unfolding p by (auto split: if_splits)
  moreover have "index_get (by_fee ?p) f h' = Some ()
      \<longleftrightarrow> (\<exists>x. bt_get (transactions ?p) h' = Some x \<and> tx_fee (pending_tx x) = f)" for f h'
    using pool_okD(3) [OF ok, of f h'] Some unfolding p by (auto split: if_splits)
  moreover have "unat (resident_bytes ?p) = charged_sum ?p"
    using charged_sum_remove [of h p] pool_okD(6) [OF ok] Some unfolding p by (simp add: unat_sat_sub charge_def)
  ultimately show ?thesis
    using pool_okD(1,4,5) [OF ok] unfolding pool_ok_def by (auto simp: p split: if_splits)
qed

lemma remove_transaction_len:
  "bt_len (transactions (snd (remove_transaction h p))) + (if bt_get (transactions p) h = None then 0 else 1)
   = bt_len (transactions p)"
  using bt_len_remove [of h "transactions p"] by (auto simp: remove_transaction_def split: option.splits)

lemma remove_transaction_bucket:
  "bucket_len (by_sender (snd (remove_transaction h p))) s \<le> bucket_len (by_sender p) s"
  by (simp add: remove_transaction_def bucket_len_unindex_le split: option.splits)

lemma remove_transaction_bytes: "resident_bytes (snd (remove_transaction h p)) \<le> resident_bytes p"
  by (simp add: remove_transaction_def word_le_nat_alt unat_sat_sub split: option.splits)

lemma pool_bounded_remove: "pool_bounded p \<Longrightarrow> pool_bounded (snd (remove_transaction h p))"
  using remove_transaction_len [of h p] remove_transaction_bucket [of h p] remove_transaction_bytes [of h p]
  unfolding pool_bounded_def remove_transaction_config by (auto intro: order_trans)

lemma remove_all_simps [simp]:
  "remove_all [] p = p" "remove_all (h # hs) p = remove_all hs (snd (remove_transaction h p))"
  by (simp_all add: remove_all_def)

lemma remove_all_get [simp]:
  "bt_get (transactions (remove_all hs p)) h = (if h \<in> set hs then None else bt_get (transactions p) h)"
  by (induction hs arbitrary: p) auto

lemma remove_all_config [simp]: "pool_config (remove_all hs p) = pool_config p"
  by (induction hs arbitrary: p) auto

lemma remove_all_keeps: "pool_ok p \<Longrightarrow> pool_ok (remove_all hs p)" "pool_bounded p \<Longrightarrow> pool_bounded (remove_all hs p)"
  by (induction hs arbitrary: p) (simp_all add: pool_ok_remove pool_bounded_remove)

lemma charged_sum_remove_all:
  "distinct hs \<Longrightarrow> charged_sum (remove_all hs p) + (\<Sum>h\<leftarrow>hs. charge p h) = charged_sum p"
proof (induction hs arbitrary: p)
  case (Cons h hs)
  have "map (charge (snd (remove_transaction h p))) hs = map (charge p) hs"
    using Cons.prems by (auto simp: charge_def)
  then have "charged_sum (remove_all hs (snd (remove_transaction h p))) + (\<Sum>h\<leftarrow>hs. charge p h)
      = charged_sum (snd (remove_transaction h p))"
    using Cons.IH [of "snd (remove_transaction h p)"] Cons.prems by (simp only: distinct.simps simp_thms)
  then show ?case using charged_sum_remove [of h p] by simp
qed simp

lemma remove_all_len: "bt_len (transactions (remove_all hs p)) \<le> bt_len (transactions p)"
proof (induction hs arbitrary: p)
  case (Cons h hs)
  show ?case using Cons [of "snd (remove_transaction h p)"] remove_transaction_len [of h p] by simp
qed simp

lemma remove_all_bucket: "bucket_len (by_sender (remove_all hs p)) s \<le> bucket_len (by_sender p) s"
proof (induction hs arbitrary: p)
  case (Cons h hs)
  show ?case using Cons [of "snd (remove_transaction h p)"] remove_transaction_bucket [of h p s] by simp
qed simp

subsection \<open>Eviction\<close>

text \<open>What an eviction may take: a strictly cheaper transaction of another sender.\<close>

definition outbid :: "('a, 't) mempool \<Rightarrow> ('a, 't) transaction \<Rightarrow> bytes \<Rightarrow> bool" where
  "outbid p tx h \<longleftrightarrow> (\<exists>e. bt_get (transactions p) h = Some e
     \<and> tx_fee (pending_tx e) < tx_fee tx \<and> tx_from (pending_tx e) \<noteq> tx_from tx)"

lemma in_fee_bucket:
  assumes "pool_ok p" "(fee, hashes) \<in> set (bt_entries (by_fee p))" "h \<in> set (bt_keys hashes)"
  shows "\<exists>e. bt_get (transactions p) h = Some e \<and> tx_fee (pending_tx e) = fee"
proof -
  have "index_get (by_fee p) fee h = Some ()"
    using assms(2,3) by (auto simp: index_get_def bt.in_entries_iff in_bt_keys_iff)
  then show ?thesis using pool_okD(3) [OF assms(1)] by blast
qed

lemma bucket_outbid:
  assumes "pool_ok p" "(fee, hashes) \<in> set (bt_entries (by_fee p))" "h \<in> set (bt_keys hashes)"
    and "fee < tx_fee tx" "evictable p tx h"
  shows "outbid p tx h"
  using in_fee_bucket [OF assms(1-3)] assms(4,5) by (auto simp: outbid_def evictable_def)

lemma iter_min_in: "iter_min xs = Some x \<Longrightarrow> x \<in> set xs"
proof (cases xs)
  case (Cons y ys)
  have "fold min ys y \<in> set (y # ys)" by (induction ys arbitrary: y) (auto simp: min_def)
  then show "iter_min xs = Some x \<Longrightarrow> x \<in> set xs" using Cons by auto
qed simp

lemma lowest_victim_in:
  "lowest_victim p tx es = Some h \<Longrightarrow>
   \<exists>(fee, hashes) \<in> set es. fee < tx_fee tx \<and> h \<in> set (bt_keys hashes) \<and> evictable p tx h"
  by (induction p tx es rule: lowest_victim.induct)
     (force dest: iter_min_in simp: not_le split: if_splits option.splits)+

lemma evict_lowest_fee_effect:
  assumes "pool_ok p" "evict_lowest_fee tx p = (b, q)"
  shows "if b then \<exists>h. outbid p tx h \<and> q = snd (remove_transaction h p) else q = p"
  using assms(2) lowest_victim_in [of p tx "bt_entries (by_fee p)"] bucket_outbid [OF assms(1)]
  by (fastforce simp: evict_lowest_fee_def split: option.splits)

lemma pick_in_bucket_effect:
  "pick_in_bucket p tx needed hs (vs, freed) = (b, vs', freed') \<Longrightarrow>
   \<exists>ws. vs' = vs @ ws \<and> subseq ws hs \<and> (\<forall>w \<in> set ws. evictable p tx w)
      \<and> unat freed' \<le> unat freed + (\<Sum>w\<leftarrow>ws. charge p w)"
proof (induction hs arbitrary: vs freed)
  case (Cons h hs)
  show ?case
  proof (cases "evictable p tx h")
    case False
    then have "pick_in_bucket p tx needed hs (vs, freed) = (b, vs', freed')"
      using Cons.prems by (auto simp: evictable_def split: option.splits)
    then show ?thesis using Cons.IH by blast
  next
    case True
    then obtain e where e: "bt_get (transactions p) h = Some e" "tx_from (pending_tx e) \<noteq> tx_from tx"
      by (auto simp: evictable_def split: option.splits)
    let ?f = "sat_add freed (charged e)"
    have f: "unat ?f \<le> unat freed + charge p h" using e by (simp add: unat_sat_add charge_def)
    show ?thesis
    proof (cases "?f \<ge> needed")
      case stop: True
      then show ?thesis using Cons.prems e True f by (intro exI [of _ "[h]"]) (auto simp: Let_def)
    next
      case False
      then have "pick_in_bucket p tx needed hs (vs @ [h], ?f) = (b, vs', freed')"
        using Cons.prems e by (simp add: Let_def)
      from Cons.IH [OF this] obtain ws where "vs' = vs @ h # ws" "subseq ws hs" "\<forall>w \<in> set ws. evictable p tx w"
        "unat freed' \<le> unat ?f + (\<Sum>w\<leftarrow>ws. charge p w)" by auto
      then show ?thesis using True f by (intro exI [of _ "h # ws"]) auto
    qed
  qed
qed simp

lemma pick_victims_effect:
  "pick_victims p tx needed es (vs, freed) = (vs', freed') \<Longrightarrow>
   \<exists>ws. vs' = vs @ ws \<and> subseq ws (concat (map (\<lambda>b. bt_keys (snd b)) (filter (\<lambda>(fee, _). fee < tx_fee tx) es)))
      \<and> (\<forall>w \<in> set ws. evictable p tx w) \<and> unat freed' \<le> unat freed + (\<Sum>w\<leftarrow>ws. charge p w)"
proof (induction es arbitrary: vs freed)
  case (Cons b es)
  obtain fee hashes where b: "b = (fee, hashes)" by fastforce
  show ?case
  proof (cases "tx_fee tx \<le> fee")
    case True
    then show ?thesis using Cons.prems b by (intro exI [of _ "[]"]) auto
  next
    case False
    obtain c us g where c: "pick_in_bucket p tx needed (bt_keys hashes) (vs, freed) = (c, us, g)" by (metis prod_cases3)
    from pick_in_bucket_effect [OF c] obtain ws where ws: "us = vs @ ws" "subseq ws (bt_keys hashes)"
      "\<forall>w \<in> set ws. evictable p tx w" "unat g \<le> unat freed + (\<Sum>w\<leftarrow>ws. charge p w)" by blast
    show ?thesis
    proof (cases c)
      case True
      then show ?thesis using Cons.prems b False c ws by (intro exI [of _ ws]) (auto intro: list_emb_append2)
    next
      case go: False
      then have "pick_victims p tx needed es (us, g) = (vs', freed')" using Cons.prems b False c by simp
      from Cons.IH [OF this] obtain xs where "vs' = us @ xs"
        "subseq xs (concat (map (\<lambda>b. bt_keys (snd b)) (filter (\<lambda>(fee, _). fee < tx_fee tx) es)))"
        "\<forall>w \<in> set xs. evictable p tx w" "unat freed' \<le> unat g + (\<Sum>w\<leftarrow>xs. charge p w)" by blast
      then show ?thesis using ws b False by (intro exI [of _ "ws @ xs"]) (auto intro: list_emb_append_mono)
    qed
  qed
qed simp

text \<open>No hash is in two buckets.\<close>

lemma distinct_buckets:
  assumes "distinct (map fst es)" "\<And>b h. b \<in> set es \<Longrightarrow> h \<in> set (bt_keys (snd b)) \<Longrightarrow> fee h = fst b"
  shows "distinct (concat (map (\<lambda>b. bt_keys (snd b)) es))"
  using assms
proof (induction es)
  case (Cons b es)
  have "distinct (bt_keys (snd b))" using bt.entries_distinct by (simp add: bt_keys_def)
  moreover have "h \<notin> set (bt_keys (snd c))" if "h \<in> set (bt_keys (snd b))" "c \<in> set es" for h c
  proof
    assume "h \<in> set (bt_keys (snd c))"
    then have "fst c = fst b" using Cons.prems(2) [of b h] Cons.prems(2) [of c h] that by simp
    then show False using Cons.prems(1) that(2) by (metis distinct.simps(2) image_eqI list.map(2) list.set_map)
  qed
  ultimately show ?case using Cons by auto
qed simp

lemma fee_buckets_distinct:
  assumes "pool_ok p"
  shows "distinct (concat (map (\<lambda>b. bt_keys (snd b)) (filter P (bt_entries (by_fee p)))))"
proof (rule distinct_buckets [where fee = "\<lambda>h. tx_fee (pending_tx (the (bt_get (transactions p) h)))"])
  show "distinct (map fst (filter P (bt_entries (by_fee p))))" by (rule distinct_map_filter [OF bt.entries_distinct])
next
  fix b h assume "b \<in> set (filter P (bt_entries (by_fee p)))" "h \<in> set (bt_keys (snd b))"
  then show "tx_fee (pending_tx (the (bt_get (transactions p) h))) = fst b"
    using in_fee_bucket [OF assms, of "fst b" "snd b" h] by auto
qed

text \<open>A round of evictions: distinct outbid transactions leave the pool.\<close>

definition evicts :: "('a, 't) transaction \<Rightarrow> bytes list \<Rightarrow> ('a, 't) mempool \<Rightarrow> bool" where
  "evicts tx ws p \<longleftrightarrow> distinct ws \<and> (\<forall>w \<in> set ws. outbid p tx w)"

lemma subseq_distinct: "subseq xs ys \<Longrightarrow> distinct ys \<Longrightarrow> distinct xs"
  by (auto simp: subseq_conv_nths intro: distinct_nthsI)

lemma subseq_set: "subseq xs ys \<Longrightarrow> x \<in> set xs \<Longrightarrow> x \<in> set ys"
  by (auto dest: list_emb_set)

lemma evict_until_bytes_fit_effect:
  assumes ok: "pool_ok p" and run: "evict_until_bytes_fit tx needed p = (b, q)"
  shows "if b then \<exists>ws. evicts tx ws p \<and> q = remove_all ws p \<and> unat needed \<le> (\<Sum>w\<leftarrow>ws. charge p w) else q = p"
proof -
  obtain ws freed where v: "pick_victims p tx needed (bt_entries (by_fee p)) ([], 0) = (ws, freed)" by fastforce
  let ?es = "filter (\<lambda>(fee, _). fee < tx_fee tx) (bt_entries (by_fee p))"
  have ws: "subseq ws (concat (map (\<lambda>b. bt_keys (snd b)) ?es))" "\<forall>w \<in> set ws. evictable p tx w"
    "unat freed \<le> (\<Sum>w\<leftarrow>ws. charge p w)"
    using pick_victims_effect [OF v] by auto
  have "distinct ws"
    by (rule subseq_distinct [OF ws(1) fee_buckets_distinct [OF ok]])
  moreover have "outbid p tx w" if "w \<in> set ws" for w
  proof -
    have "w \<in> set (concat (map (\<lambda>b. bt_keys (snd b)) ?es))" by (rule subseq_set [OF ws(1) that])
    then obtain fee hashes where "(fee, hashes) \<in> set (bt_entries (by_fee p))" "fee < tx_fee tx" "w \<in> set (bt_keys hashes)"
      by auto
    then show ?thesis using bucket_outbid [OF ok] ws(2) that by blast
  qed
  ultimately show ?thesis
    using run ws(3) unfolding evict_until_bytes_fit_def v Let_def prod.case evicts_def
    by (cases "freed < needed") (auto simp: not_less word_le_nat_alt)
qed

subsection \<open>Admission\<close>

lemma admission_checks_ok:
  assumes "pool_ok p" "admission_checks verify tx p = Inr ex"
  shows "verify tx" "bt_get (transactions p) (tx_hash tx) = None" "min_fee (pool_config p) \<le> tx_fee tx"
    "ex = index_get (by_sender p) (tx_from tx) (tx_nonce tx)"
    "ex = None \<Longrightarrow> bucket_len (by_sender p) (tx_from tx) < unat (max_per_sender (pool_config p))"
    "ex = Some h \<Longrightarrow> \<exists>e. bt_get (transactions p) h = Some e \<and> tx_from (pending_tx e) = tx_from tx
        \<and> tx_nonce (pending_tx e) = tx_nonce tx
        \<and> min_new_fee (tx_fee (pending_tx e)) (rbf_bump_percent (pool_config p)) \<le> tx_fee tx"
proof -
  have f: "find_tx_by_sender_nonce a n p = index_get (by_sender p) a n" for a n
    by (simp add: find_tx_by_sender_nonce_def index_get_def)
  note d = assms(2) [unfolded admission_checks_def f Let_def bucket_len_def [symmetric]]
  show "verify tx" "bt_get (transactions p) (tx_hash tx) = None" "min_fee (pool_config p) \<le> tx_fee tx"
    "ex = index_get (by_sender p) (tx_from tx) (tx_nonce tx)"
    "ex = None \<Longrightarrow> bucket_len (by_sender p) (tx_from tx) < unat (max_per_sender (pool_config p))"
    using d by (auto simp: bt_contains_def split: if_splits option.splits)
  show "\<exists>e. bt_get (transactions p) h = Some e \<and> tx_from (pending_tx e) = tx_from tx
        \<and> tx_nonce (pending_tx e) = tx_nonce tx
        \<and> min_new_fee (tx_fee (pending_tx e)) (rbf_bump_percent (pool_config p)) \<le> tx_fee tx" if "ex = Some h"
    using d that pool_okD(2) [OF assms(1), of "tx_from tx" "tx_nonce tx" h] by (auto split: if_splits option.splits)
qed

lemma make_room_by_count_effect:
  assumes ok: "pool_ok p" and run: "make_room_by_count ex tx p = (b, q)"
  shows "if b then \<exists>ws. evicts tx ws p \<and> q = remove_all ws p \<and> length ws \<le> 1 \<and>
           (ex = None \<longrightarrow> (bt_len (transactions p) \<ge> unat (max_size (pool_config p)) \<longleftrightarrow> ws \<noteq> [])) else q = p"
proof (cases "ex = None \<and> bt_len (transactions p) \<ge> unat (max_size (pool_config p))")
  case True
  then have "evict_lowest_fee tx p = (b, q)" using run by (simp add: make_room_by_count_def)
  note e = evict_lowest_fee_effect [OF ok this]
  show ?thesis
  proof (cases b)
    case b: True
    with e obtain h where "outbid p tx h" "q = snd (remove_transaction h p)" by auto
    then show ?thesis using b True by (auto simp: evicts_def intro!: exI [of _ "[h]"])
  qed (use e in simp)
next
  case False
  then show ?thesis using run by (auto simp: make_room_by_count_def evicts_def intro!: exI [of _ "[]"])
qed

lemma make_room_by_bytes_effect:
  assumes ok: "pool_ok p" and run: "make_room_by_bytes ex incoming tx p = (b, q)"
  shows "if b then \<exists>ws. evicts tx ws p \<and> q = remove_all ws p
           \<and> unat (projected_bytes ex incoming p) \<le> unat (max_pool_bytes (pool_config p)) + (\<Sum>w\<leftarrow>ws. charge p w)
         else q = p"
proof (cases "projected_bytes ex incoming p > max_pool_bytes (pool_config p)")
  case True
  then have run': "evict_until_bytes_fit tx (projected_bytes ex incoming p - max_pool_bytes (pool_config p)) p = (b, q)"
    using run by (simp add: make_room_by_bytes_def)
  have "unat (projected_bytes ex incoming p - max_pool_bytes (pool_config p))
      = unat (projected_bytes ex incoming p) - unat (max_pool_bytes (pool_config p))"
    using True by (simp add: unat_sub)
  then show ?thesis using evict_until_bytes_fit_effect [OF ok run'] by fastforce
next
  case False
  then show ?thesis
    using run by (auto simp: make_room_by_bytes_def Let_def evicts_def not_less word_le_nat_alt word_less_nat_alt intro!: exI [of _ "[]"])
qed

lemma pool_ok_store:
  assumes ok: "pool_ok r" and new: "bt_get (transactions r) (tx_hash tx) = None"
    and free: "index_get (by_sender r) (tx_from tx) (tx_nonce tx) = None"
    and fits: "charged_sum r + unat incoming < 2 ^ 64"
  shows "pool_ok (store_transaction now incoming tx r)"
    "charged_sum (store_transaction now incoming tx r) = charged_sum r + unat incoming"
proof -
  let ?p = "store_transaction now incoming tx r"
  show sum: "charged_sum ?p = charged_sum r + unat incoming"
    using bt.sum_insert [of "\<lambda>_ e. unat (charged e)" "tx_hash tx" _ "transactions r"] new
    by (simp add: charged_sum_def store_transaction_def)
  have p: "by_sender ?p = index_insert (tx_from tx) (tx_nonce tx) (tx_hash tx) (by_sender r)"
    "by_fee ?p = index_insert (tx_fee tx) (tx_hash tx) () (by_fee r)"
    "resident_bytes ?p = sat_add (resident_bytes r) incoming"
    "bt_get (transactions ?p) h = (if h = tx_hash tx then Some \<lparr> pending_tx = tx, added_at = now, charged = incoming \<rparr>
       else bt_get (transactions r) h)" for h
    by (simp_all add: store_transaction_def)
  have "index_get (by_sender ?p) s n = Some h
      \<longleftrightarrow> (\<exists>x. bt_get (transactions ?p) h = Some x \<and> tx_from (pending_tx x) = s \<and> tx_nonce (pending_tx x) = n)" for s n h
    using pool_okD(2) [OF ok, of s n h] new free unfolding p by (auto split: if_splits)
  moreover have "index_get (by_fee ?p) f h = Some ()
      \<longleftrightarrow> (\<exists>x. bt_get (transactions ?p) h = Some x \<and> tx_fee (pending_tx x) = f)" for f h
    using pool_okD(3) [OF ok, of f h] new unfolding p by (auto split: if_splits)
  moreover have "unat (resident_bytes ?p) = charged_sum ?p"
    using pool_okD(6) [OF ok] fits unfolding p(3) sum by (simp add: unat_sat_add)
  ultimately show "pool_ok ?p"
    using pool_okD(1,4,5) [OF ok] unfolding pool_ok_def by (auto simp: p split: if_splits)
qed

lemma outbid_remove_all: "outbid (remove_all ws p) tx w \<longleftrightarrow> outbid p tx w \<and> w \<notin> set ws"
  by (auto simp: outbid_def)

lemma remove_all_append: "remove_all (vs @ ws) p = remove_all ws (remove_all vs p)"
  by (simp add: remove_all_def)

lemma evicts_append: "evicts tx (vs @ ws) p \<longleftrightarrow> evicts tx vs p \<and> evicts tx ws (remove_all vs p)"
  by (auto simp: evicts_def outbid_remove_all)

lemma evicts_len: "evicts tx ws p \<Longrightarrow> bt_len (transactions (remove_all ws p)) + length ws = bt_len (transactions p)"
proof (induction ws arbitrary: p)
  case (Cons w ws)
  then have "evicts tx ws (snd (remove_transaction w p))" "bt_get (transactions p) w \<noteq> None"
    using evicts_append [of tx "[w]" ws p] by (auto simp: evicts_def outbid_def)
  then show ?case using Cons.IH [of "snd (remove_transaction w p)"] remove_transaction_len [of w p] by (simp split: if_splits)
qed simp

text \<open>An admission evicts, removes what it replaces and stores, with room for the new entry in every limit.\<close>

abbreviation without :: "bytes option \<Rightarrow> ('a, 't) mempool \<Rightarrow> ('a, 't) mempool" where
  "without ex p \<equiv> (case ex of None \<Rightarrow> p | Some h \<Rightarrow> snd (remove_transaction h p))"

lemma add_transaction_accepts:
  assumes ok: "pool_ok p" and run: "add_transaction verify encoded_len now tx p = (Inr (), q)"
  obtains ex vs ws where "admission_checks verify tx p = Inr ex" "evicts tx (vs @ ws) p"
    "q = store_transaction now (encoded_len tx) tx (without ex (remove_all (vs @ ws) p))"
    "ex = None \<Longrightarrow> bt_len (transactions p) \<ge> unat (max_size (pool_config p)) \<Longrightarrow> vs \<noteq> []"
    "unat (projected_bytes ex (encoded_len tx) (remove_all vs p))
       \<le> unat (max_pool_bytes (pool_config p)) + (\<Sum>w\<leftarrow>ws. charge (remove_all vs p) w)"
proof -
  obtain ex where ex: "admission_checks verify tx p = Inr ex"
    using run by (auto simp: add_transaction_def split: sum.splits)
  obtain b p1 where p1: "make_room_by_count ex tx p = (b, p1)" by fastforce
  have b: "b" using run ex p1 by (cases b) (auto simp: add_transaction_def)
  obtain c p2 where p2: "make_room_by_bytes ex (encoded_len tx) tx p1 = (c, p2)" by fastforce
  have c: "c" using run ex p1 b p2 by (cases c) (auto simp: add_transaction_def)
  have q: "q = store_transaction now (encoded_len tx) tx (without ex p2)"
    using run ex p1 p2 b c by (simp add: add_transaction_def)
  obtain vs where vs: "evicts tx vs p" "p1 = remove_all vs p"
    "ex = None \<longrightarrow> (bt_len (transactions p) \<ge> unat (max_size (pool_config p)) \<longleftrightarrow> vs \<noteq> [])"
    using make_room_by_count_effect [OF ok p1] b by auto
  have ok1: "pool_ok p1" unfolding vs(2) by (rule remove_all_keeps(1) [OF ok])
  obtain ws where ws: "evicts tx ws p1" "p2 = remove_all ws p1"
    "unat (projected_bytes ex (encoded_len tx) p1) \<le> unat (max_pool_bytes (pool_config p1)) + (\<Sum>w\<leftarrow>ws. charge p1 w)"
    using make_room_by_bytes_effect [OF ok1 p2] c by auto
  show ?thesis
  proof (rule that [of ex vs ws])
    show "evicts tx (vs @ ws) p" using vs(1,2) ws(1) by (simp add: evicts_append)
    show "q = store_transaction now (encoded_len tx) tx (without ex (remove_all (vs @ ws) p))"
      unfolding q ws(2) vs(2) remove_all_append ..
    show "unat (projected_bytes ex (encoded_len tx) (remove_all vs p))
       \<le> unat (max_pool_bytes (pool_config p)) + (\<Sum>w\<leftarrow>ws. charge (remove_all vs p) w)"
      using ws(3) vs(2) by simp
  qed (use ex vs(3) in simp_all)
qed

text \<open>What is replaced has the sender of the submission, so it is never among the evicted.\<close>

lemma replaced_stays:
  assumes "pool_ok p" "admission_checks verify tx p = Inr (Some h)" "evicts tx ws p"
  shows "h \<notin> set ws" "bt_get (transactions p) h \<noteq> None"
  using admission_checks_ok(6) [OF assms(1,2) refl] assms(3) by (auto simp: evicts_def outbid_def)

lemma cleared_slot:
  assumes ok: "pool_ok p" and ex: "admission_checks verify tx p = Inr ex" and ev: "evicts tx ws p"
  defines "r \<equiv> without ex (remove_all ws p)"
  shows "pool_ok r" "bt_get (transactions r) (tx_hash tx) = None"
    "index_get (by_sender r) (tx_from tx) (tx_nonce tx) = None"
    "pool_config r = pool_config p"
proof -
  show okr: "pool_ok r" using ok by (auto simp: r_def pool_ok_remove remove_all_keeps split: option.splits)
  show "bt_get (transactions r) (tx_hash tx) = None"
    using admission_checks_ok(2) [OF ok ex] by (auto simp: r_def split: option.splits)
  show "pool_config r = pool_config p" by (simp add: r_def split: option.splits)
  show "index_get (by_sender r) (tx_from tx) (tx_nonce tx) = None"
  proof (rule ccontr)
    assume "index_get (by_sender r) (tx_from tx) (tx_nonce tx) \<noteq> None"
    then obtain h e where e: "bt_get (transactions r) h = Some e" "tx_from (pending_tx e) = tx_from tx"
      "tx_nonce (pending_tx e) = tx_nonce tx" using pool_okD(2) [OF okr] by auto
    then have "bt_get (transactions p) h = Some e" by (auto simp: r_def split: option.splits if_splits)
    then have "index_get (by_sender p) (tx_from tx) (tx_nonce tx) = Some h" using pool_okD(2) [OF ok] e by blast
    then have "ex = Some h" using admission_checks_ok(4) [OF ok ex] by simp
    then show False using e(1) by (simp add: r_def)
  qed
qed

lemma charge_le_sum: "charge p h \<le> charged_sum p"
  using charged_sum_remove [of h p] by linarith

lemma admitted_bytes:
  assumes ok: "pool_ok p" and bounded: "pool_bounded p" and ex: "admission_checks verify tx p = Inr ex"
    and ev: "evicts tx (vs @ ws) p" and fits: "unat incoming + unat (max_pool_bytes (pool_config p)) < 2 ^ 64"
    and room: "unat (projected_bytes ex incoming (remove_all vs p))
       \<le> unat (max_pool_bytes (pool_config p)) + (\<Sum>w\<leftarrow>ws. charge (remove_all vs p) w)"
  shows "charged_sum (without ex (remove_all (vs @ ws) p)) + unat incoming \<le> unat (max_pool_bytes (pool_config p))"
proof -
  let ?p1 = "remove_all vs p" and ?m = "unat (max_pool_bytes (pool_config p))"
  let ?old = "case ex of None \<Rightarrow> 0 | Some h \<Rightarrow> charge ?p1 h"
  have ok1: "pool_ok ?p1" "pool_bounded ?p1" using ok bounded by (simp_all add: remove_all_keeps)
  have res: "unat (resident_bytes ?p1) = charged_sum ?p1" "charged_sum ?p1 \<le> ?m"
    using pool_okD(6) [OF ok1(1)] ok1(2) by (simp_all add: pool_bounded_def word_le_nat_alt)
  have ws: "distinct ws" using ev by (simp add: evicts_def)
  have p2: "charged_sum (remove_all ws ?p1) + (\<Sum>w\<leftarrow>ws. charge ?p1 w) = charged_sum ?p1"
    by (rule charged_sum_remove_all [OF ws])
  have old: "?old \<le> charged_sum ?p1" by (cases ex) (simp_all add: charge_le_sum)
  have proj: "unat (projected_bytes ex incoming ?p1) = charged_sum ?p1 - ?old + unat incoming"
    using res fits unfolding projected_bytes_def Let_def unat_sat_add unat_sat_sub
    by (auto simp: charge_def split: option.splits)
  have gone: "charged_sum (without ex (remove_all ws ?p1)) + ?old = charged_sum (remove_all ws ?p1)"
  proof (cases ex)
    case (Some h)
    then have "h \<notin> set ws" using replaced_stays(1) [OF ok _ ev] ex by auto
    then have "charge (remove_all ws ?p1) h = charge ?p1 h" by (simp add: charge_def)
    then show ?thesis using charged_sum_remove [of h "remove_all ws ?p1"] Some by simp
  qed simp
  have "charged_sum (without ex (remove_all ws ?p1)) + unat incoming \<le> ?m"
    using gone p2 room proj old by linarith
  then show ?thesis unfolding remove_all_append .
qed

lemma admitted_counts:
  assumes ok: "pool_ok p" and bounded: "pool_bounded p" and ex: "admission_checks verify tx p = Inr ex"
    and ev: "evicts tx (vs @ ws) p"
    and count: "ex = None \<Longrightarrow> bt_len (transactions p) \<ge> unat (max_size (pool_config p)) \<Longrightarrow> vs \<noteq> []"
  defines "r \<equiv> without ex (remove_all (vs @ ws) p)"
  shows "bt_len (transactions r) < unat (max_size (pool_config p))"
    "bucket_len (by_sender r) (tx_from tx) < unat (max_per_sender (pool_config p))"
    "bucket_len (by_sender r) s \<le> unat (max_per_sender (pool_config p))"
proof -
  let ?q = "remove_all (vs @ ws) p"
  have len: "bt_len (transactions ?q) + length (vs @ ws) = bt_len (transactions p)" by (rule evicts_len [OF ev])
  have b: "bt_len (transactions p) \<le> unat (max_size (pool_config p))"
    "bucket_len (by_sender p) a \<le> unat (max_per_sender (pool_config p))" for a
    using bounded by (simp_all add: pool_bounded_def)
  have q: "bucket_len (by_sender ?q) a \<le> bucket_len (by_sender p) a" for a by (rule remove_all_bucket)
  have rq: "bucket_len (by_sender r) a \<le> bucket_len (by_sender ?q) a" for a
    using remove_transaction_bucket by (cases ex) (auto simp: r_def)
  show "bucket_len (by_sender r) s \<le> unat (max_per_sender (pool_config p))"
    using rq [of s] q [of s] b(2) [of s] by linarith
  have "bt_len (transactions r) < unat (max_size (pool_config p))
      \<and> bucket_len (by_sender r) (tx_from tx) < unat (max_per_sender (pool_config p))"
  proof (cases ex)
    case None
    have "bt_len (transactions ?q) < unat (max_size (pool_config p))"
      using len b(1) count [OF None] by (cases "bt_len (transactions p) \<ge> unat (max_size (pool_config p))"; cases vs) auto
    then show ?thesis
      using None q [of "tx_from tx"] admission_checks_ok(5) [OF ok ex None] by (simp add: r_def)
  next
    case (Some h)
    have stays: "h \<notin> set (vs @ ws)" using replaced_stays(1) [OF ok ex [unfolded Some] ev] .
    obtain e where e: "bt_get (transactions p) h = Some e" "tx_from (pending_tx e) = tx_from tx"
      using admission_checks_ok(6) [OF ok ex Some] by auto
    have g: "bt_get (transactions ?q) h = Some e" using e stays by simp
    have "index_get (by_sender ?q) (tx_from tx) (tx_nonce (pending_tx e)) = Some h"
      using pool_okD(2) [OF remove_all_keeps(1) [OF ok], of "vs @ ws" "tx_from tx"] g e(2) by blast
    then have "bucket_len (by_sender r) (tx_from tx) + 1 = bucket_len (by_sender ?q) (tx_from tx)"
      using bucket_len_unindex [of "tx_from tx" "tx_nonce (pending_tx e)" "by_sender ?q" "tx_from tx"] g e(2) Some
      by (simp add: r_def remove_transaction_def)
    moreover have "bt_len (transactions r) + 1 = bt_len (transactions ?q)"
      using remove_transaction_len [of h ?q] g Some by (simp add: r_def)
    ultimately show ?thesis using len b(1) b(2) [of "tx_from tx"] q [of "tx_from tx"] by linarith
  qed
  then show "bt_len (transactions r) < unat (max_size (pool_config p))"
    "bucket_len (by_sender r) (tx_from tx) < unat (max_per_sender (pool_config p))" by simp_all
qed

lemma add_transaction_keeps:
  assumes ok: "pool_ok p" and bounded: "pool_bounded p"
    and fits: "unat (encoded_len tx) + unat (max_pool_bytes (pool_config p)) < 2 ^ 64"
    and run: "add_transaction verify encoded_len now tx p = (Inr (), q)"
  shows "pool_ok q \<and> pool_bounded q"
proof -
  obtain ex vs ws where ex: "admission_checks verify tx p = Inr ex" and ev: "evicts tx (vs @ ws) p"
    and q: "q = store_transaction now (encoded_len tx) tx (without ex (remove_all (vs @ ws) p))"
    and count: "ex = None \<Longrightarrow> bt_len (transactions p) \<ge> unat (max_size (pool_config p)) \<Longrightarrow> vs \<noteq> []"
    and room: "unat (projected_bytes ex (encoded_len tx) (remove_all vs p))
       \<le> unat (max_pool_bytes (pool_config p)) + (\<Sum>w\<leftarrow>ws. charge (remove_all vs p) w)"
    by (rule add_transaction_accepts [OF ok run]) blast
  define r where "r = without ex (remove_all (vs @ ws) p)"
  note slot = cleared_slot [OF ok ex ev, folded r_def]
  note bytes = admitted_bytes [OF ok bounded ex ev fits room, folded r_def]
  have counts: "bt_len (transactions r) < unat (max_size (pool_config p))"
    "bucket_len (by_sender r) (tx_from tx) < unat (max_per_sender (pool_config p))"
    "bucket_len (by_sender r) s \<le> unat (max_per_sender (pool_config p))" for s
    using admitted_counts [OF ok bounded ex ev] count by (simp_all add: r_def)
  have small: "charged_sum r + unat (encoded_len tx) < 2 ^ 64" using bytes fits by linarith
  note st = pool_ok_store [OF slot(1-3) small, of now, folded q [folded r_def]]
  have "bt_len (transactions q) \<le> unat (max_size (pool_config q))"
    using counts(1) slot(2,4) by (simp add: q r_def [symmetric] store_transaction_def bt_len_insert)
  moreover have "bucket_len (by_sender q) s \<le> unat (max_per_sender (pool_config q))" for s
    using counts(2) counts(3) [of s] slot(4) by (simp add: q r_def [symmetric] store_transaction_def bucket_len_insert)
  moreover have "resident_bytes q \<le> max_pool_bytes (pool_config q)"
    using pool_okD(6) [OF st(1)] st(2) bytes slot(4)
    by (simp add: word_le_nat_alt q r_def [symmetric] store_transaction_def)
  ultimately show ?thesis using st(1) by (simp add: pool_bounded_def)
qed

lemma add_transaction_refuses:
  assumes ok: "pool_ok p" and run: "add_transaction verify encoded_len now tx p = (Inl e, q)"
  shows "q = p \<or> (e = PoolBytesFull \<and> bt_len (transactions p) \<ge> unat (max_size (pool_config p))
    \<and> index_get (by_sender p) (tx_from tx) (tx_nonce tx) = None \<and> (\<exists>h. outbid p tx h \<and> q = snd (remove_transaction h p)))"
proof (cases "admission_checks verify tx p")
  case (Inl a)
  then show ?thesis using run by (simp add: add_transaction_def)
next
  case (Inr ex)
  obtain b p1 where p1: "make_room_by_count ex tx p = (b, p1)" by fastforce
  note one = make_room_by_count_effect [OF ok p1]
  obtain c p2 where p2: "make_room_by_bytes ex (encoded_len tx) tx p1 = (c, p2)" by fastforce
  show ?thesis
  proof (cases b)
    case False
    then show ?thesis using run Inr p1 one by (simp add: add_transaction_def)
  next
    case True
    then obtain ws where ws: "evicts tx ws p" "p1 = remove_all ws p" "length ws \<le> 1"
      "ex = None \<longrightarrow> (bt_len (transactions p) \<ge> unat (max_size (pool_config p)) \<longleftrightarrow> ws \<noteq> [])"
      using one by auto
    have c: "\<not> c" "e = PoolBytesFull" "q = p2" using run Inr p1 True p2 by (cases c; auto simp: add_transaction_def)+
    have "p2 = p1" using make_room_by_bytes_effect [OF _ p2] c ok ws(2) by (simp add: remove_all_keeps)
    moreover have "ex \<noteq> None \<or> bt_len (transactions p) < unat (max_size (pool_config p)) \<Longrightarrow> p1 = p"
      using p1 by (auto simp: make_room_by_count_def split: if_splits)
    ultimately show ?thesis
      using ws c admission_checks_ok(4) [OF ok Inr]
      by (cases ws; cases "index_get (by_sender p) (tx_from tx) (tx_nonce tx)") (auto simp: evicts_def not_le)
  qed
qed

subsection \<open>Reachable pools\<close>

text \<open>
  The operations that change a pool. A submission must fit beside a full pool in the address space,
  which is what the saturating byte counter relies on.
\<close>

inductive pool_step :: "(('a, 't) transaction \<Rightarrow> bool) \<Rightarrow> (('a, 't) transaction \<Rightarrow> u64)
    \<Rightarrow> ('a, 't) mempool \<Rightarrow> ('a, 't) mempool \<Rightarrow> bool" for verify encoded_len where
  pool_add: "unat (encoded_len tx) + unat (max_pool_bytes (pool_config p)) < 2 ^ 64 \<Longrightarrow>
    pool_step verify encoded_len p (snd (add_transaction verify encoded_len now tx p))"
| pool_remove: "pool_step verify encoded_len p (snd (remove_transaction h p))"
| pool_cleanup: "pool_step verify encoded_len p (snd (cleanup_expired now p))"
| pool_drain: "pool_step verify encoded_len p (snd (drain p))"
| pool_set_min_fee: "pool_step verify encoded_len p (set_min_fee fee p)"

lemma add_transaction_safe:
  assumes "pool_ok p" "pool_bounded p" "unat (encoded_len tx) + unat (max_pool_bytes (pool_config p)) < 2 ^ 64"
  shows "pool_ok (snd (add_transaction verify encoded_len now tx p))
    \<and> pool_bounded (snd (add_transaction verify encoded_len now tx p))"
proof (cases "add_transaction verify encoded_len now tx p")
  case (Pair r q)
  show ?thesis
  proof (cases r)
    case (Inl e)
    with Pair add_transaction_refuses [OF assms(1), of verify encoded_len now tx e q] assms show ?thesis
      by (auto simp: pool_ok_remove pool_bounded_remove)
  next
    case (Inr u)
    with Pair add_transaction_keeps [of p encoded_len tx verify now q] assms show ?thesis by simp
  qed
qed

interpretation pool_safe: inductive_invariant "\<lambda>p. p = mempool_new cfg" "pool_step verify encoded_len"
  "\<lambda>p. pool_ok p \<and> pool_bounded p" for cfg verify encoded_len
proof unfold_locales
  fix p q :: "('a, 'b) mempool"
  assume ok: "pool_ok p \<and> pool_bounded p" and "pool_step verify encoded_len p q"
  from this(2) show "pool_ok q \<and> pool_bounded q"
  proof cases
    case (pool_add tx now)
    with ok show ?thesis by (simp add: add_transaction_safe)
  next
    case (pool_cleanup now)
    with ok show ?thesis by (simp add: cleanup_expired_def Let_def remove_all_keeps)
  next
    case pool_drain
    with ok show ?thesis by (simp add: drain_def pool_ok_def pool_bounded_def charged_sum_def bt_len_def)
  next
    case (pool_set_min_fee fee)
    with ok show ?thesis by (simp add: set_min_fee_def pool_ok_def pool_bounded_def charged_sum_def)
  qed (use ok in \<open>simp add: pool_ok_remove pool_bounded_remove\<close>)
qed (simp add: pool_ok_new pool_bounded_new)

end
