(* ===== verification/Mempool_Theorems.thy ===== *)
theory Mempool_Theorems
  imports Mempool_Inv
begin

text \<open>
  The properties of the transaction pool: the invariant of every reachable pool, the canonical order in
  which blocks take transactions, and what accepted and refused submissions do to other entries.
\<close>

subsection \<open>A sample pool\<close>

text \<open>Two entries that fill a small pool by count and by bytes.\<close>

definition sample_tx :: "u8 \<Rightarrow> u64 \<Rightarrow> nat \<Rightarrow> (unit, unit) transaction" where
  "sample_tx a fee n =
     \<lparr> tx_from = [a], tx_to = [], tx_amount = 0, tx_fee = fee, tx_max_fee = fee, tx_priority_fee = 0, tx_nonce = 0,
       tx_data = replicate n 0, tx_timestamp = 0, tx_hash = [a], tx_signature = None, tx_signer_public_key = [],
       tx_authorization = None, tx_chain_id = 1, tx_signature_version = 5, tx_type = () \<rparr>"

definition sample_len :: "(unit, unit) transaction \<Rightarrow> u64" where
  "sample_len tx = of_nat (length (tx_data tx))"

definition sample_config :: mempool_config where
  "sample_config =
     \<lparr> max_size = 2, max_per_sender = 1, min_fee = 1, tx_ttl_secs = 3600, rbf_bump_percent = 10, max_pool_bytes = 100 \<rparr>"

definition sample_entry :: "u8 \<Rightarrow> u64 \<Rightarrow> nat \<Rightarrow> (unit, unit) mempool \<Rightarrow> (unit, unit) mempool" where
  "sample_entry a fee n = store_transaction 0 (of_nat n) (sample_tx a fee n)"

definition sample_pool :: "(unit, unit) mempool" where
  "sample_pool = sample_entry 3 9 90 (sample_entry 1 5 10 (mempool_new sample_config))"

lemma sample_tx_simps [simp]:
  "tx_from (sample_tx a fee n) = [a]" "tx_fee (sample_tx a fee n) = fee" "tx_nonce (sample_tx a fee n) = 0"
  "tx_hash (sample_tx a fee n) = [a]" "sample_len (sample_tx a fee n) = of_nat n"
  by (simp_all add: sample_tx_def sample_len_def)

lemma sample_config_simps [simp]:
  "max_size sample_config = 2" "max_per_sender sample_config = 1" "min_fee sample_config = 1"
  "rbf_bump_percent sample_config = 10" "max_pool_bytes sample_config = 100"
  by (simp_all add: sample_config_def)

lemmas pool_eval = add_transaction_def admission_checks_def find_tx_by_sender_nonce_def make_room_by_count_def
  make_room_by_bytes_def projected_bytes_def Let_def bt_contains_def index_insert_def bt_len_def store_transaction_def
  mempool_new_def sat_add_def sat_sub_def

lemma first_entry:
  "add_transaction (\<lambda>_. True) sample_len 0 (sample_tx 1 5 10) (mempool_new sample_config)
   = (Inr (), sample_entry 1 5 10 (mempool_new sample_config))"
  by (simp add: sample_entry_def pool_eval)

lemma second_entry:
  "add_transaction (\<lambda>_. True) sample_len 0 (sample_tx 3 9 90) (sample_entry 1 5 10 (mempool_new sample_config))
   = (Inr (), sample_pool)"
  by (simp add: sample_entry_def sample_pool_def pool_eval)

lemma sample_pool_fields:
  "transactions sample_pool = bt_insert [3] \<lparr> pending_tx = sample_tx 3 9 90, added_at = 0, charged = 90 \<rparr>
     (bt_insert [1] \<lparr> pending_tx = sample_tx 1 5 10, added_at = 0, charged = 10 \<rparr> bt_empty)"
  "by_fee sample_pool = bt_insert 9 (bt_insert [3] () bt_empty) (bt_insert 5 (bt_insert [1] () bt_empty) bt_empty)"
  "by_sender sample_pool = bt_insert [3] (bt_insert 0 [3] bt_empty) (bt_insert [1] (bt_insert 0 [1] bt_empty) bt_empty)"
  "resident_bytes sample_pool = 100" "pool_config sample_pool = sample_config"
  by (simp_all add: sample_pool_def sample_entry_def pool_eval)

lemma sample_refused:
  "fst (add_transaction (\<lambda>_. True) sample_len 0 (sample_tx 2 6 50) sample_pool) = Inl PoolBytesFull"
  by (simp add: pool_eval sample_pool_fields evict_lowest_fee_def evictable_def bt_keys_def remove_transaction_def
     unindex_def evict_until_bytes_fit_def)

lemma sample_outbid_accepted:
  "fst (add_transaction (\<lambda>_. True) sample_len 0 (sample_tx 2 10 50) sample_pool) = Inr ()"
  by (simp add: pool_eval sample_pool_fields evict_lowest_fee_def evictable_def bt_keys_def remove_transaction_def
     unindex_def evict_until_bytes_fit_def)
lemma sample_pool_reached: "reach (\<lambda>p. p = mempool_new sample_config) (pool_step (\<lambda>_. True) sample_len) sample_pool"
proof -
  have "pool_step (\<lambda>_. True) sample_len (mempool_new sample_config) (sample_entry 1 5 10 (mempool_new sample_config))"
    using pool_add [of sample_len "sample_tx 1 5 10" "mempool_new sample_config" "\<lambda>_. True" 0]
    by (simp add: first_entry) (simp add: mempool_new_def)
  moreover have "pool_step (\<lambda>_. True) sample_len (sample_entry 1 5 10 (mempool_new sample_config)) sample_pool"
    using pool_add [of sample_len "sample_tx 3 9 90" "sample_entry 1 5 10 (mempool_new sample_config)" "\<lambda>_. True" 0]
    by (simp add: second_entry) (simp add: sample_entry_def store_transaction_def mempool_new_def)
  ultimately show ?thesis by (intro reach_step [OF reach_step [OF reach_init]]) simp_all
qed

subsection \<open>The indexes agree\<close>

text \<open>
  C14: In every pool that submissions, removals, expiry, drains and changes of the fee floor reach, the
  sender index and the fee index name exactly the pooled transactions, no bucket is empty, a sender has
  at most one transaction of a nonce, the byte counter is the sum of the charged sizes, and the pool is
  within its limits on entries, on entries of a sender and on bytes.
\<close>

theorem pool_indexes_agree:
  assumes "reach (\<lambda>p. p = mempool_new cfg) (pool_step verify encoded_len) p"
  shows "(index_get (by_sender p) s n = Some h \<longleftrightarrow>
      (\<exists>e. bt_get (transactions p) h = Some e \<and> tx_from (pending_tx e) = s \<and> tx_nonce (pending_tx e) = n))
    \<and> (index_get (by_fee p) f h = Some () \<longleftrightarrow> (\<exists>e. bt_get (transactions p) h = Some e \<and> tx_fee (pending_tx e) = f))
    \<and> no_empty_bucket (by_sender p) \<and> no_empty_bucket (by_fee p)
    \<and> unat (resident_bytes p) = (\<Sum>(h, e)\<leftarrow>bt_entries (transactions p). unat (charged e))
    \<and> pool_len p \<le> unat (max_size (pool_config p))
    \<and> bucket_len (by_sender p) s \<le> unat (max_per_sender (pool_config p))
    \<and> resident_bytes p \<le> max_pool_bytes (pool_config p)"
proof -
  have ok: "pool_ok p" and bounded: "pool_bounded p" using pool_safe.inv_reach [OF assms] by simp_all
  show ?thesis
    using pool_okD(2-5) [OF ok] pool_okD(6) [OF ok, unfolded charged_sum_def] bounded
    unfolding pool_bounded_def pool_len_def by blast
qed

theorem pool_indexes_agree_witness:
  "index_get (by_sender sample_pool) [3] 0 = Some [3] \<and> unat (resident_bytes sample_pool) = 100"
  using pool_indexes_agree [OF sample_pool_reached, of "[3]" 0 "[3]" 9] by (simp add: sample_pool_fields)

subsection \<open>The order of a block\<close>

lemma take_sorted_take:
  "\<forall>h \<in> set hs. bt_get (transactions p) h \<noteq> None \<Longrightarrow> length acc \<le> n \<Longrightarrow>
   take_sorted p n hs acc = take n (acc @ map (\<lambda>h. pending_tx (the (bt_get (transactions p) h))) hs)"
  by (induction p n hs acc rule: take_sorted.induct) (auto simp: not_le)

lemma sorted_buckets:
  assumes "keys_increasing es" "\<And>b h. b \<in> set es \<Longrightarrow> h \<in> set (bt_keys (snd b)) \<Longrightarrow> fee h = fst b"
  shows "sorted (map (\<lambda>h. (- uint (fee h), h)) (concat (map (\<lambda>b. bt_keys (snd b)) (rev es))))"
  using assms
proof (induction es)
  case (Cons b es)
  let ?key = "\<lambda>h. (- uint (fee h), h)"
  have inc: "sorted (bt_keys (snd b))"
    using bt.entries_increasing strict_sorted_imp_sorted by (fastforce simp: bt_keys_def)
  have eq: "map ?key (bt_keys (snd b)) = map (Pair (- uint (fst b))) (bt_keys (snd b))"
    using Cons.prems(2) [of b] by simp
  have one: "sorted (map ?key (bt_keys (snd b)))" unfolding eq using inc by (simp add: sorted_map)
  have "?key h \<le> ?key g" if "c \<in> set es" "h \<in> set (bt_keys (snd c))" "g \<in> set (bt_keys (snd b))" for c h g
  proof -
    have "fst b < fst c" using Cons.prems(1) that(1) by simp
    then have "fee g < fee h" using Cons.prems(2) [of b g] Cons.prems(2) [of c h] that by simp
    then show ?thesis by (simp add: word_less_def)
  qed
  then show ?case using Cons one by (auto simp: sorted_append)
qed simp

text \<open>
  C21: The transactions a block takes from a reachable pool are the pooled ones sorted by falling fee and
  then by rising hash, cut at the limit: a function of the pooled transactions alone, so two nodes with
  the same pool propose the same body.
\<close>

theorem block_order_is_canonical:
  assumes "reach (\<lambda>p. p = mempool_new cfg) (pool_step verify encoded_len) p"
  shows "get_sorted_transactions limit p
    = take (unat limit) (sort_key (\<lambda>t. (- uint (tx_fee t), tx_hash t)) (map pending_tx (bt_values (transactions p))))"
proof -
  have ok: "pool_ok p" using pool_safe.inv_reach [OF assms] by simp
  let ?es = "bt_entries (by_fee p)" and ?tx = "\<lambda>h. pending_tx (the (bt_get (transactions p) h))"
  let ?L = "concat (map (\<lambda>b. bt_keys (snd b)) (rev ?es))" and ?key = "\<lambda>t. (- uint (tx_fee t), tx_hash t)"
  have L: "h \<in> set ?L \<longleftrightarrow> bt_get (transactions p) h \<noteq> None" for h
  proof
    assume "bt_get (transactions p) h \<noteq> None"
    then obtain f where "index_get (by_fee p) f h = Some ()" using pool_okD(3) [OF ok] by blast
    then show "h \<in> set ?L"
      by (force simp: index_get_def bt.in_entries_iff [symmetric] in_bt_keys_iff split: option.splits)
  qed (use in_fee_bucket [OF ok] in fastforce)
  have hash: "tx_hash (?tx h) = h" if "h \<in> set ?L" for h using that L pool_okD(1) [OF ok] by fastforce
  have fee: "tx_fee (?tx h) = fst b" if "b \<in> set ?es" "h \<in> set (bt_keys (snd b))" for b h
    using in_fee_bucket [OF ok, of "fst b" "snd b" h] that by auto
  let ?K = "bt_keys (transactions p)"
  have "map (?key \<circ> ?tx) ?L = map (\<lambda>h. (- uint (tx_fee (?tx h)), h)) ?L"
    by (rule map_cong [OF refl]) (simp add: hash del: set_concat)
  moreover have "sorted (map (\<lambda>h. (- uint (tx_fee (?tx h)), h)) ?L)" by (rule sorted_buckets [OF bt.entries_increasing fee])
  ultimately have sorted: "sorted (map ?key (map ?tx ?L))" by (simp only: map_map)
  have dL: "distinct ?L"
    by (rule distinct_buckets [of _ "\<lambda>h. tx_fee (?tx h)"]) (use bt.entries_distinct [of "by_fee p"] fee in \<open>simp_all add: rev_map [symmetric]\<close>)
  have dK: "distinct ?K" using bt.entries_distinct by (simp add: bt_keys_def)
  have KL: "set ?K = set ?L" using L by (auto simp: in_bt_keys_iff simp del: set_concat)
  have inj: "inj_on ?tx (set ?L)" by (rule inj_onI) (metis hash)
  have injk: "inj_on ?key (?tx ` set ?L)" by (rule inj_onI) (auto simp: hash simp del: set_concat)
  have vals: "map pending_tx (bt_values (transactions p)) = map ?tx ?K"
    by (auto simp: bt_values_def bt_keys_def bt.in_entries_iff)
  have "map ?tx ?L = sort_key ?key (map ?tx ?K)"
    by (rule map_sorted_distinct_set_unique [of ?key])
       (use sorted dL dK KL inj injk in \<open>auto simp: distinct_map intro: comp_inj_on simp del: set_concat\<close>)
  moreover have "get_sorted_transactions limit p = take (unat limit) (map ?tx ?L)"
    using take_sorted_take [of ?L p "[]" "unat limit"] L by (simp add: get_sorted_transactions_def comp_def del: set_concat)
  ultimately show ?thesis unfolding vals by simp
qed

theorem block_order_is_canonical_witness: "get_sorted_transactions 1 sample_pool = [sample_tx 3 9 90]"
  unfolding block_order_is_canonical [OF sample_pool_reached] by (simp add: sample_pool_fields bt_values_def sort_key_def)

subsection \<open>Submissions and the entries of others\<close>

text \<open>The fee of a replacement is higher, except that nothing is above the largest fee.\<close>

lemma narrow_or_max_pos: "0 < x \<Longrightarrow> 0 < narrow_or_max x"
  by (auto simp: narrow_or_max_def word_less_nat_alt narrow_exact unat_max_word simp del: unat_gt_0)

lemma min_new_fee_greater: "fee < min_new_fee fee pct \<or> fee = - 1"
proof -
  let ?b = "narrow_or_max (max (div_ceil (ucast fee * ucast pct) 100) 1)"
  have "0 < max (div_ceil (ucast fee * ucast pct) 100) (1 :: u128)" by (rule less_le_trans [of _ 1]) simp_all
  then have "0 < unat ?b" using narrow_or_max_pos by (simp add: word_less_nat_alt)
  then have "unat fee < unat (min_new_fee fee pct) \<or> unat fee = 2 ^ 64 - 1"
    using unat_le_max [of fee] by (auto simp: min_new_fee_def unat_sat_add Let_def)
  then show ?thesis using unat_max_word [where 'a = 64] by (auto simp: word_less_nat_alt word_unat_eq_iff)
qed

text \<open>
  C22: An accepted submission was verified and pays the fee floor, and is in the pool afterwards. Every
  entry it displaced either belongs to another sender and pays a strictly lower fee, or is the entry of
  the same sender and nonce with a lower fee (or both fees are the largest there is). No other entry
  appears or changes.
\<close>

theorem accepted_submission_outbids:
  assumes "reach (\<lambda>p. p = mempool_new cfg) (pool_step verify encoded_len) p"
    and "add_transaction verify encoded_len now tx p = (Inr (), q)"
  shows "verify tx \<and> min_fee (pool_config p) \<le> tx_fee tx \<and> pool_get (tx_hash tx) p = None \<and> pool_get (tx_hash tx) q = Some tx
    \<and> (h \<noteq> tx_hash tx \<longrightarrow> pool_get h q = pool_get h p \<or>
        (pool_get h q = None \<and> (\<exists>t. pool_get h p = Some t \<and>
          (if tx_from t = tx_from tx then tx_nonce t = tx_nonce tx \<and> (tx_fee t < tx_fee tx \<or> tx_fee t = - 1)
           else tx_fee t < tx_fee tx))))"
proof -
  have ok: "pool_ok p" using pool_safe.inv_reach [OF assms(1)] by simp
  obtain ex vs ws where ex: "admission_checks verify tx p = Inr ex" and ev: "evicts tx (vs @ ws) p"
    and q: "q = store_transaction now (encoded_len tx) tx (without ex (remove_all (vs @ ws) p))"
    by (rule add_transaction_accepts [OF ok assms(2)]) blast
  let ?r = "without ex (remove_all (vs @ ws) p)"
  have get: "bt_get (transactions q) h = (if h = tx_hash tx
      then Some \<lparr> pending_tx = tx, added_at = now, charged = encoded_len tx \<rparr> else bt_get (transactions ?r) h)" for h
    by (simp add: q store_transaction_def)
  have gone: "tx_from t \<noteq> tx_from tx \<and> tx_fee t < tx_fee tx" if "pool_get h p = Some t" "h \<in> set (vs @ ws)" for t
  proof -
    have "outbid p tx h" using ev that(2) by (simp add: evicts_def)
    then show ?thesis using that(1) by (auto simp: outbid_def pool_get_def)
  qed
  have old: "ex = Some h \<Longrightarrow> \<exists>t. pool_get h p = Some t \<and> tx_from t = tx_from tx \<and> tx_nonce t = tx_nonce tx
      \<and> (tx_fee t < tx_fee tx \<or> tx_fee t = - 1)"
    using admission_checks_ok(6) [OF ok ex] min_new_fee_greater
    by (fastforce simp: pool_get_def intro: less_le_trans)
  have "pool_get h q = pool_get h p \<or> pool_get h q = None \<and> (\<exists>t. pool_get h p = Some t \<and>
          (if tx_from t = tx_from tx then tx_nonce t = tx_nonce tx \<and> (tx_fee t < tx_fee tx \<or> tx_fee t = - 1)
           else tx_fee t < tx_fee tx))" if h: "h \<noteq> tx_hash tx"
  proof (cases "ex = Some h \<or> h \<in> set (vs @ ws) \<and> pool_get h p \<noteq> None")
    case True
    then have "pool_get h q = None" using h get [of h] by (auto simp: pool_get_def split: option.splits)
    then show ?thesis using True old gone by fastforce
  next
    case False
    then show ?thesis using h get [of h] by (auto simp: pool_get_def split: option.splits)
  qed
  then show ?thesis
    using admission_checks_ok(1-3) [OF ok ex] get [of "tx_hash tx"] by (auto simp: pool_get_def)
qed

theorem accepted_submission_outbids_witness:
  "let q = snd (add_transaction (\<lambda>_. True) sample_len 0 (sample_tx 2 10 50) sample_pool)
   in pool_get [2] q = Some (sample_tx 2 10 50) \<and> pool_get [4] q = None"
proof -
  let ?run = "add_transaction (\<lambda>_. True) sample_len 0 (sample_tx 2 10 50) sample_pool"
  have run: "?run = (Inr (), snd ?run)" using sample_outbid_accepted by (metis prod.collapse)
  have "pool_get [4] sample_pool = None" by (simp add: pool_get_def sample_pool_fields)
  then show ?thesis using accepted_submission_outbids [OF sample_pool_reached run, of "[4]"] by (simp add: Let_def)
qed

text \<open>
  C18: A refused submission leaves the pool as it was, with exactly one exception: refused for its
  bytes by a pool that is full by count, a submission that replaces nothing has already deleted a
  cheaper transaction of another sender.
\<close>

theorem refused_submission_can_evict:
  assumes "reach (\<lambda>p. p = mempool_new cfg) (pool_step verify encoded_len) p"
    and "add_transaction verify encoded_len now tx p = (Inl e, q)"
  shows "if e = PoolBytesFull \<and> pool_len p = unat (max_size (pool_config p))
        \<and> find_tx_by_sender_nonce (tx_from tx) (tx_nonce tx) p = None
      then \<exists>h t. pool_get h p = Some t \<and> tx_from t \<noteq> tx_from tx \<and> tx_fee t < tx_fee tx
        \<and> pool_get h q = None \<and> q = snd (remove_transaction h p)
      else q = p"
proof -
  have ok: "pool_ok p" and bounded: "pool_bounded p" using pool_safe.inv_reach [OF assms(1)] by simp_all
  show ?thesis
  proof (cases "e = PoolBytesFull \<and> pool_len p = unat (max_size (pool_config p))
      \<and> find_tx_by_sender_nonce (tx_from tx) (tx_nonce tx) p = None")
    case True
    then obtain ex where ex: "admission_checks verify tx p = Inr ex"
      using assms(2) by (auto simp: add_transaction_def admission_checks_def Let_def split: if_splits option.splits)
    then have None: "ex = None" using True by (auto simp: admission_checks_def Let_def split: if_splits)
    obtain b p1 where p1: "make_room_by_count ex tx p = (b, p1)" by fastforce
    have b: b using assms(2) ex p1 True by (cases b) (auto simp: add_transaction_def)
    then obtain h where h: "outbid p tx h" "p1 = snd (remove_transaction h p)"
      using p1 None True evict_lowest_fee_effect [OF ok, of tx b p1] by (auto simp: make_room_by_count_def pool_len_def)
    have ok1: "pool_ok p1" unfolding h(2) by (rule pool_ok_remove [OF ok])
    obtain c p2 where p2: "make_room_by_bytes ex (encoded_len tx) tx p1 = (c, p2)" by fastforce
    have "q = p1" using assms(2) ex p1 b p2 make_room_by_bytes_effect [OF ok1 p2]
      by (cases c) (auto simp: add_transaction_def)
    then show ?thesis unfolding if_P [OF True] using h by (auto simp: outbid_def pool_get_def)
  next
    case False
    then show ?thesis
      unfolding if_not_P [OF False] using add_transaction_refuses [OF ok assms(2)] bounded
      by (auto simp: pool_bounded_def pool_len_def find_tx_by_sender_nonce_def index_get_def)
  qed
qed

theorem refused_submission_can_evict_witness:
  "fst (add_transaction (\<lambda>_. True) sample_len 0 (sample_tx 2 6 50) sample_pool) = Inl PoolBytesFull
   \<and> (\<exists>h t. pool_get h sample_pool = Some t \<and> tx_from t \<noteq> [2]
        \<and> pool_get h (snd (add_transaction (\<lambda>_. True) sample_len 0 (sample_tx 2 6 50) sample_pool)) = None)"
proof -
  let ?run = "add_transaction (\<lambda>_. True) sample_len 0 (sample_tx 2 6 50) sample_pool"
  have run: "?run = (Inl PoolBytesFull, snd ?run)" using sample_refused by (metis prod.collapse)
  have "pool_len sample_pool = unat (max_size (pool_config sample_pool))
      \<and> find_tx_by_sender_nonce [2] 0 sample_pool = None"
    by (simp add: pool_len_def find_tx_by_sender_nonce_def sample_pool_fields bt_len_def)
  then show ?thesis using refused_submission_can_evict [OF sample_pool_reached run] sample_refused by auto
qed

end
