(* ===== verification/Governance.thy ===== *)
theory Governance
  imports BTree_Map Registry
begin

text \<open>
  On-chain governance: the constitution with its hard guardrails (\<^verbatim>\<open>src/core/constitution.rs\<close>), proposals
  with stake-weighted votes, quorum and timelock (\<^verbatim>\<open>src/core/governance.rs\<close>), and the part of the epoch
  transition that closes votes and applies registry parameters (\<^verbatim>\<open>src/core/account.rs\<close>). The arithmetic
  that the release profile checks for overflow is plain here where an overflow would need \<open>2 ^ 64\<close>
  proposals. Quotes around a printed value are kept, the escaping inside them is not.
\<close>

subsection \<open>The constitution\<close>

datatype constitution_key = AiReadRequiresPollenGrant | NoGovernanceReadOverride
  | PermissionlessCoreNoAdminWhitelist | PoaIslandIsolation | NoPrivateKeyCustody | EvidenceApisNoPlaintext
  | MaxEmergencyHaltEpochs | MinConstitutionProposalEpochs

fun is_hard_guardrail :: "constitution_key \<Rightarrow> bool" where
  "is_hard_guardrail MaxEmergencyHaltEpochs = False"
| "is_hard_guardrail MinConstitutionProposalEpochs = False"
| "is_hard_guardrail _ = True"

fun constitution_tag :: "constitution_key \<Rightarrow> u8" where
  "constitution_tag AiReadRequiresPollenGrant = 1"
| "constitution_tag NoGovernanceReadOverride = 2"
| "constitution_tag PermissionlessCoreNoAdminWhitelist = 3"
| "constitution_tag PoaIslandIsolation = 4"
| "constitution_tag NoPrivateKeyCustody = 5"
| "constitution_tag EvidenceApisNoPlaintext = 6"
| "constitution_tag MaxEmergencyHaltEpochs = 7"
| "constitution_tag MinConstitutionProposalEpochs = 8"

text \<open>The derived order of the keys is the order of their declaration, which is the order of the tags.\<close>

lemma constitution_tag_inj: "constitution_tag a = constitution_tag b \<longleftrightarrow> a = b"
  by (cases a; cases b) simp_all

instantiation constitution_key :: linorder
begin

definition less_eq_constitution_key :: "constitution_key \<Rightarrow> constitution_key \<Rightarrow> bool" where
  "less_eq_constitution_key a b \<longleftrightarrow> constitution_tag a \<le> constitution_tag b"

definition less_constitution_key :: "constitution_key \<Rightarrow> constitution_key \<Rightarrow> bool" where
  "less_constitution_key a b \<longleftrightarrow> constitution_tag a < constitution_tag b"

instance
  by standard (auto simp: less_eq_constitution_key_def less_constitution_key_def constitution_tag_inj [symmetric])

end

text \<open>The name the derived \<open>Debug\<close> prints.\<close>

fun constitution_debug :: "constitution_key \<Rightarrow> string" where
  "constitution_debug AiReadRequiresPollenGrant = ''AiReadRequiresPollenGrant''"
| "constitution_debug NoGovernanceReadOverride = ''NoGovernanceReadOverride''"
| "constitution_debug PermissionlessCoreNoAdminWhitelist = ''PermissionlessCoreNoAdminWhitelist''"
| "constitution_debug PoaIslandIsolation = ''PoaIslandIsolation''"
| "constitution_debug NoPrivateKeyCustody = ''NoPrivateKeyCustody''"
| "constitution_debug EvidenceApisNoPlaintext = ''EvidenceApisNoPlaintext''"
| "constitution_debug MaxEmergencyHaltEpochs = ''MaxEmergencyHaltEpochs''"
| "constitution_debug MinConstitutionProposalEpochs = ''MinConstitutionProposalEpochs''"

datatype constitution_value = ConstBool bool | ConstU64 u64 | ConstHash hash32

record constitution_parameter =
  const_key :: constitution_key
  const_value :: constitution_value
  effective_epoch :: u64
  rationale_hash :: hash32

definition hard_default :: "constitution_key \<Rightarrow> constitution_parameter" where
  "hard_default key =
     \<lparr> const_key = key, const_value = ConstBool True, effective_epoch = 0, rationale_hash = replicate 32 0 \<rparr>"

definition validate_value :: "constitution_parameter \<Rightarrow> string + unit" where
  "validate_value p =
     (case const_key p of
        MaxEmergencyHaltEpochs \<Rightarrow>
          (case const_value p of
             ConstU64 value \<Rightarrow>
               if 1 \<le> value \<and> value \<le> 10080 then Inr ()
               else Inl ''MaxEmergencyHaltEpochs must be between 1 and 10080 epochs''
           | _ \<Rightarrow> Inl ''MaxEmergencyHaltEpochs must be U64'')
      | MinConstitutionProposalEpochs \<Rightarrow>
          (case const_value p of
             ConstU64 value \<Rightarrow>
               if 10 \<le> value \<and> value \<le> 100000 then Inr ()
               else Inl ''MinConstitutionProposalEpochs must be between 10 and 100000 epochs''
           | _ \<Rightarrow> Inl ''MinConstitutionProposalEpochs must be U64'')
      | key \<Rightarrow>
          (case const_value p of
             ConstBool True \<Rightarrow> Inr ()
           | ConstBool False \<Rightarrow> Inl (''hard constitution guardrail '' @ constitution_debug key @ '' cannot be disabled'')
           | _ \<Rightarrow> Inl (''hard constitution guardrail '' @ constitution_debug key @ '' must be Bool(true)'')))"

definition validate_update :: "constitution_parameter \<Rightarrow> string + unit" where
  "validate_update p =
     (case validate_value p of
        Inl e \<Rightarrow> Inl e
      | Inr _ \<Rightarrow>
          if is_hard_guardrail (const_key p)
          then Inl (''hard constitution guardrail '' @ constitution_debug (const_key p) @ '' cannot be changed by governance'')
          else if rationale_hash p = replicate 32 0 then Inl ''constitution update rationale_hash cannot be zero''
          else Inr ())"

definition constitution_hash_into :: "constitution_parameter \<Rightarrow> bytes" where
  "constitution_hash_into p =
     [constitution_tag (const_key p)]
     @ (case const_value p of
          ConstBool b \<Rightarrow> [1, if b then 1 else 0]
        | ConstU64 v \<Rightarrow> 2 # le_bytes 8 v
        | ConstHash h \<Rightarrow> 3 # h)
     @ le_bytes 8 (effective_epoch p) @ rationale_hash p"

type_synonym constitution_registry = "(constitution_key, constitution_parameter) btree_map"

definition hard_guardrails :: "constitution_key list" where
  "hard_guardrails = [AiReadRequiresPollenGrant, NoGovernanceReadOverride, PermissionlessCoreNoAdminWhitelist,
     PoaIslandIsolation, NoPrivateKeyCustody, EvidenceApisNoPlaintext]"

definition constitution_new :: constitution_registry where
  "constitution_new =
     bt_insert MinConstitutionProposalEpochs
       \<lparr> const_key = MinConstitutionProposalEpochs, const_value = ConstU64 10, effective_epoch = 0,
         rationale_hash = replicate 32 0 \<rparr>
     (bt_insert MaxEmergencyHaltEpochs
       \<lparr> const_key = MaxEmergencyHaltEpochs, const_value = ConstU64 1440, effective_epoch = 0,
         rationale_hash = replicate 32 0 \<rparr>
     (fold (\<lambda>key. bt_insert key (hard_default key)) hard_guardrails bt_empty))"

fun check_guardrails :: "constitution_key list \<Rightarrow> constitution_registry \<Rightarrow> string + unit" where
  "check_guardrails [] r = Inr ()"
| "check_guardrails (key # keys) r =
     (case bt_get r key of
        None \<Rightarrow> Inl (''missing hard constitution guardrail '' @ constitution_debug key)
      | Some p \<Rightarrow> (case validate_value p of Inl e \<Rightarrow> Inl e | Inr _ \<Rightarrow> check_guardrails keys r))"

definition assert_hard_guardrails :: "constitution_registry \<Rightarrow> string + unit" where
  "assert_hard_guardrails r = check_guardrails hard_guardrails r"

definition set_parameter :: "constitution_parameter \<Rightarrow> constitution_registry \<Rightarrow> (string, unit, constitution_registry) outcome" where
  "set_parameter p r =
     (case validate_update p of
        Inl e \<Rightarrow> (Inl e, r)
      | Inr _ \<Rightarrow> let r = bt_insert (const_key p) p r in (assert_hard_guardrails r, r))"

definition constitution_get :: "constitution_key \<Rightarrow> constitution_registry \<Rightarrow> constitution_parameter option" where
  "constitution_get key r = bt_get r key"

definition has_non_default_updates :: "constitution_registry \<Rightarrow> bool" where
  "has_non_default_updates r = (bt_entries r \<noteq> bt_entries constitution_new)"

definition constitution_root :: "hasher \<Rightarrow> constitution_registry \<Rightarrow> hash32" where
  "constitution_root H r = H (ascii ''BDLM_CONSTITUTION_REGISTRY_V1'' @ concat (map constitution_hash_into (bt_values r)))"

subsection \<open>Encryption policies\<close>

record encryption_policy =
  enc_version :: u32
  hpke_suite_id :: "16 word"
  min_public_key_bytes :: "16 word"
  max_grant_duration_blocks :: u64
  deprecated_after_block :: "u64 option"
  enc_active :: bool

definition policy_validate :: "encryption_policy \<Rightarrow> string + unit" where
  "policy_validate p =
     (if enc_version p = 0 then Inl ''EncryptionPolicy version must be >= 1''
      else if hpke_suite_id p = 0 then Inl ''EncryptionPolicy hpke_suite_id must be non-zero''
      else if min_public_key_bytes p < 32 then Inl ''EncryptionPolicy min_public_key_bytes must be >= 32''
      else if max_grant_duration_blocks p = 0 then Inl ''EncryptionPolicy max_grant_duration_blocks must be >= 1''
      else if deprecated_after_block p = Some 0 then Inl ''EncryptionPolicy deprecated_after_block cannot be zero''
      else Inr ())"

subsection \<open>Parameter updates\<close>

text \<open>\<open>str::parse::<u64>\<close>\<close>

definition char_digit :: "char \<Rightarrow> nat option" where
  "char_digit c =
     (let n = (of_char c :: nat) in if 48 \<le> n \<and> n \<le> 57 then Some (n - 48) else None)"

fun parse_digits :: "nat \<Rightarrow> string \<Rightarrow> string + u64" where
  "parse_digits result [] = Inr (of_nat result)"
| "parse_digits result (c # cs) =
     (case char_digit c of
        None \<Rightarrow> Inl ''invalid digit found in string''
      | Some d \<Rightarrow>
          if result * 10 + d \<ge> 2 ^ 64 then Inl ''number too large to fit in target type''
          else parse_digits (result * 10 + d) cs)"

definition parse_u64 :: "string \<Rightarrow> string + u64" where
  "parse_u64 s =
     (case s of
        [] \<Rightarrow> Inl ''cannot parse integer from empty string''
      | c # cs \<Rightarrow>
          if cs = [] \<and> (c = CHR ''+'' \<or> c = CHR ''-'') then Inl ''invalid digit found in string''
          else if c = CHR ''+'' then parse_digits 0 cs
          else parse_digits 0 s)"

definition parse_governance_bool :: "string \<Rightarrow> string \<Rightarrow> string + bool" where
  "parse_governance_bool key value =
     (if value = ''true'' then Inr True
      else if value = ''false'' then Inr False
      else Inl (''invalid '' @ key @ '': expected true or false, got '' @ [CHR 0x22] @ value @ [CHR 0x22]))"

definition GOVERNANCE_PARAMETER_WHITELIST :: "string list" where
  "GOVERNANCE_PARAMETER_WHITELIST =
     [''min_stake'', ''unbonding_epochs'', ''double_sign_slash_ratio_fixed'', ''liveness_slash_ratio_fixed'',
      ''malicious_slash_ratio_fixed'', ''bridge_relayer_fee_ppm'', ''bridge_relayer_min_fee'',
      ''max_invalid_votes_per_epoch'', ''transfer_fee_ppm'', ''swap_fee_ppm'', ''bridge_fee_ppm'',
      ''ai_model_register_fee'', ''liveness_slashing_enabled'']"

definition is_governance_parameter_whitelisted :: "string \<Rightarrow> bool" where
  "is_governance_parameter_whitelisted key = (key \<in> set GOVERNANCE_PARAMETER_WHITELIST)"

text \<open>The arms of the two matches: the write of a numeric parameter, by name.\<close>

definition numeric_parameter :: "string \<Rightarrow> (u64 \<Rightarrow> registry_params \<Rightarrow> registry_params) option" where
  "numeric_parameter key =
     (if key = ''min_stake'' then Some (\<lambda>v p. p\<lparr> min_stake := v \<rparr>)
      else if key = ''unbonding_epochs'' then Some (\<lambda>v p. p\<lparr> unbonding_epochs := v \<rparr>)
      else if key = ''double_sign_slash_ratio_fixed'' then Some (\<lambda>v p. p\<lparr> double_sign_slash_ratio_fixed := v \<rparr>)
      else if key = ''liveness_slash_ratio_fixed'' then Some (\<lambda>v p. p\<lparr> liveness_slash_ratio_fixed := v \<rparr>)
      else if key = ''malicious_slash_ratio_fixed'' then Some (\<lambda>v p. p\<lparr> malicious_slash_ratio_fixed := v \<rparr>)
      else if key = ''bridge_relayer_fee_ppm'' then Some (\<lambda>v p. p\<lparr> bridge_relayer_fee_ppm := v \<rparr>)
      else if key = ''bridge_relayer_min_fee'' then Some (\<lambda>v p. p\<lparr> bridge_relayer_min_fee := v \<rparr>)
      else if key = ''max_invalid_votes_per_epoch'' then Some (\<lambda>v p. p\<lparr> max_invalid_votes_per_epoch := v \<rparr>)
      else if key = ''transfer_fee_ppm'' then Some (\<lambda>v p. p\<lparr> transfer_fee_ppm := v \<rparr>)
      else if key = ''swap_fee_ppm'' then Some (\<lambda>v p. p\<lparr> swap_fee_ppm := v \<rparr>)
      else if key = ''bridge_fee_ppm'' then Some (\<lambda>v p. p\<lparr> bridge_fee_ppm := v \<rparr>)
      else if key = ''ai_model_register_fee'' then Some (\<lambda>v p. p\<lparr> ai_model_register_fee := v \<rparr>)
      else None)"

definition write_parameter :: "string \<Rightarrow> string \<Rightarrow> string \<Rightarrow> registry_params \<Rightarrow> string + registry_params" where
  "write_parameter unknown key value params =
     (case numeric_parameter key of
        Some upd \<Rightarrow>
          (case parse_u64 value of
             Inl e \<Rightarrow> Inl (''invalid '' @ key @ '': '' @ e)
           | Inr v \<Rightarrow> Inr (upd v params))
      | None \<Rightarrow>
          if key = ''liveness_slashing_enabled''
          then (case parse_governance_bool key value of
                  Inl e \<Rightarrow> Inl e
                | Inr b \<Rightarrow> Inr (params\<lparr> liveness_slashing_enabled := b \<rparr>))
          else Inl (unknown @ key))"

definition validate_governance_parameter_update :: "string \<Rightarrow> string \<Rightarrow> string + unit" where
  "validate_governance_parameter_update key value =
     (if \<not> is_governance_parameter_whitelisted key then Inl (''governance parameter is not whitelisted: '' @ key)
      else case write_parameter ''governance parameter has no validator: '' key value params_default of
             Inl e \<Rightarrow> Inl e
           | Inr params \<Rightarrow> params_validate params)"

definition apply_registry_parameter_update ::
  "string \<Rightarrow> string \<Rightarrow> registry \<Rightarrow> (string, unit, registry) outcome" where
  "apply_registry_parameter_update key value r =
     (case write_parameter ''unknown registry parameter: '' key value (reg_params r) of
        Inl e \<Rightarrow> (Inl e, r)
      | Inr params \<Rightarrow>
          (case params_validate params of
             Inl e \<Rightarrow> (Inl e, r)
           | Inr _ \<Rightarrow> (Inr (), set_params params r)))"

subsection \<open>Proposals\<close>

definition GOVERNANCE_PARAMETER_ACTIVATION_DELAY_EPOCHS :: u64 where
  "GOVERNANCE_PARAMETER_ACTIVATION_DELAY_EPOCHS = 10"

definition GOVERNANCE_POLICY_ACTIVATION_DELAY_EPOCHS :: u64 where
  "GOVERNANCE_POLICY_ACTIVATION_DELAY_EPOCHS = 20"

definition GOVERNANCE_TARGETED_ACTION_DELAY_EPOCHS :: u64 where
  "GOVERNANCE_TARGETED_ACTION_DELAY_EPOCHS = 5"

datatype proposal_type =
  ChangeBaseFee u64 | ChangeBlockReward u64
| SlashValidator address hash32
| ParameterUpdate string string
| WhitelistVerifier address | DewhitelistVerifier address
| SetEncryptionPolicy encryption_policy
| SetConstitutionParameter constitution_parameter
| VerifyHubApp u64 address "hash32 option" hash32
| UnfreezeConsensusDomain u32 hash32 hash32

fun activation_delay_epochs :: "proposal_type \<Rightarrow> u64" where
  "activation_delay_epochs (ChangeBaseFee _) = GOVERNANCE_PARAMETER_ACTIVATION_DELAY_EPOCHS"
| "activation_delay_epochs (ChangeBlockReward _) = GOVERNANCE_PARAMETER_ACTIVATION_DELAY_EPOCHS"
| "activation_delay_epochs (ParameterUpdate _ _) = GOVERNANCE_PARAMETER_ACTIVATION_DELAY_EPOCHS"
| "activation_delay_epochs (VerifyHubApp _ _ _ _) = GOVERNANCE_POLICY_ACTIVATION_DELAY_EPOCHS"
| "activation_delay_epochs (SetEncryptionPolicy _) = GOVERNANCE_POLICY_ACTIVATION_DELAY_EPOCHS"
| "activation_delay_epochs (SetConstitutionParameter _) = GOVERNANCE_POLICY_ACTIVATION_DELAY_EPOCHS"
| "activation_delay_epochs (UnfreezeConsensusDomain _ _ _) = GOVERNANCE_POLICY_ACTIVATION_DELAY_EPOCHS"
| "activation_delay_epochs (SlashValidator _ _) = GOVERNANCE_TARGETED_ACTION_DELAY_EPOCHS"
| "activation_delay_epochs (WhitelistVerifier _) = GOVERNANCE_TARGETED_ACTION_DELAY_EPOCHS"
| "activation_delay_epochs (DewhitelistVerifier _) = GOVERNANCE_TARGETED_ACTION_DELAY_EPOCHS"

datatype proposal_status = ProposalActive | ProposalPassed | ProposalFailed | ProposalExecuted

record proposal =
  prop_id :: u64
  proposer :: address
  p_type :: proposal_type
  start_epoch :: u64
  end_epoch :: u64
  votes_for :: u64
  votes_against :: u64
  prop_status :: proposal_status
  voters :: "(address, bool) btree_map"
  voter_weights :: "(address, u64) btree_map"
  prop_activation_epoch :: "u64 option"

definition proposal_new :: "u64 \<Rightarrow> address \<Rightarrow> proposal_type \<Rightarrow> u64 \<Rightarrow> u64 \<Rightarrow> proposal" where
  "proposal_new i who t start duration =
     \<lparr> prop_id = i, proposer = who, p_type = t, start_epoch = start, end_epoch = start + duration,
       votes_for = 0, votes_against = 0, prop_status = ProposalActive, voters = bt_empty, voter_weights = bt_empty,
       prop_activation_epoch = None \<rparr>"

definition activation_epoch :: "proposal \<Rightarrow> u64" where
  "activation_epoch p = (case prop_activation_epoch p of None \<Rightarrow> end_epoch p | Some e \<Rightarrow> e)"

definition activation_ready :: "u64 \<Rightarrow> proposal \<Rightarrow> bool" where
  "activation_ready current_epoch p = (current_epoch \<ge> activation_epoch p)"

definition add_vote :: "address \<Rightarrow> u64 \<Rightarrow> bool \<Rightarrow> u64 \<Rightarrow> proposal \<Rightarrow> (string, unit, proposal) outcome" where
  "add_vote voter stake vote_for current_epoch p =
     (if prop_status p \<noteq> ProposalActive then (Inl ''Proposal is not active'', p)
      else if current_epoch \<ge> end_epoch p then (Inl ''Voting period has ended'', p)
      else if bt_contains (voters p) voter then (Inl ''Already voted'', p)
      else
        let p = (if vote_for then p\<lparr> votes_for := sat_add (votes_for p) stake \<rparr>
                 else p\<lparr> votes_against := sat_add (votes_against p) stake \<rparr>)
        in (Inr (), p\<lparr> voters := bt_insert voter vote_for (voters p),
                       voter_weights := bt_insert voter stake (voter_weights p) \<rparr>))"

definition vote_weight_of :: "address \<Rightarrow> proposal \<Rightarrow> u64" where
  "vote_weight_of voter p = (case bt_get (voter_weights p) voter of None \<Rightarrow> 0 | Some w \<Rightarrow> w)"

definition reduce_vote_weight :: "address \<Rightarrow> u64 \<Rightarrow> proposal \<Rightarrow> proposal" where
  "reduce_vote_weight voter reduction p =
     (case bt_get (voters p) voter of
        None \<Rightarrow> p
      | Some vote_for \<Rightarrow>
          let current = (case bt_get (voter_weights p) voter of None \<Rightarrow> 0 | Some w \<Rightarrow> w);
              applied = min current reduction
          in if applied = 0 then p
             else
               let p = (if vote_for then p\<lparr> votes_for := sat_sub (votes_for p) applied \<rparr>
                        else p\<lparr> votes_against := sat_sub (votes_against p) applied \<rparr>)
               in p\<lparr> voter_weights := bt_insert voter (sat_sub current applied) (voter_weights p) \<rparr>)"

definition finalize :: "u64 \<Rightarrow> u64 \<Rightarrow> u64 \<Rightarrow> proposal \<Rightarrow> proposal" where
  "finalize stake_total quorum_pct current_epoch p =
     (if prop_status p \<noteq> ProposalActive then p
      else if current_epoch < end_epoch p then p
      else
        let total_votes = ucast (votes_for p) + ucast (votes_against p) :: u128;
            quorum_threshold = ucast stake_total * ucast quorum_pct;
            reached_quorum = (total_votes * 100 \<ge> quorum_threshold)
        in if reached_quorum \<and> votes_for p > votes_against p
           then p\<lparr> prop_status := ProposalPassed \<rparr> else p\<lparr> prop_status := ProposalFailed \<rparr>)"

subsection \<open>The governance state\<close>

record governance_state =
  proposals :: "proposal list"
  next_proposal_id :: u64
  constitution :: constitution_registry
  proposer_epoch_count :: "(address \<times> u64, u64) btree_map"

definition governance_default :: governance_state where
  "governance_default =
     \<lparr> proposals = [], next_proposal_id = 0, constitution = constitution_new, proposer_epoch_count = bt_empty \<rparr>"

definition governance_has_non_default_state :: "governance_state \<Rightarrow> bool" where
  "governance_has_non_default_state g =
     (proposals g \<noteq> [] \<or> next_proposal_id g \<noteq> 0 \<or> bt_len (proposer_epoch_count g) \<noteq> 0
      \<or> has_non_default_updates (constitution g))"

definition GOVERNANCE_SERIALIZE_FAILED :: bytes where
  "GOVERNANCE_SERIALIZE_FAILED = ascii ''budlum/serialize-failed/governance''"

text \<open>The serializers are \<open>bincode::serialize\<close> on the two collections.\<close>

definition governance_root :: "hasher \<Rightarrow> (proposal list \<Rightarrow> bytes option)
    \<Rightarrow> (((address \<times> u64) \<times> u64) list \<Rightarrow> bytes option) \<Rightarrow> governance_state \<Rightarrow> hash32" where
  "governance_root H ser_proposals ser_counts g =
     H (ascii ''BDLM_GOVERNANCE_STATE_V1'' @ le_bytes 8 (next_proposal_id g)
        @ (case ser_proposals (proposals g) of None \<Rightarrow> GOVERNANCE_SERIALIZE_FAILED | Some b \<Rightarrow> b)
        @ constitution_root H (constitution g)
        @ (case ser_counts (bt_entries (proposer_epoch_count g)) of None \<Rightarrow> GOVERNANCE_SERIALIZE_FAILED | Some b \<Rightarrow> b))"

definition check_proposal_type :: "proposal_type \<Rightarrow> string + unit" where
  "check_proposal_type t =
     (case t of
        ParameterUpdate key value \<Rightarrow> validate_governance_parameter_update key value
      | SetEncryptionPolicy policy \<Rightarrow> policy_validate policy
      | SetConstitutionParameter parameter \<Rightarrow> validate_update parameter
      | UnfreezeConsensusDomain domain_id expected_validator_set_hash justification_hash \<Rightarrow>
          if domain_id = 0 then Inl ''UnfreezeConsensusDomain domain_id 0 is reserved''
          else if expected_validator_set_hash = replicate 32 0
            then Inl ''UnfreezeConsensusDomain expected_validator_set_hash must be non-zero''
          else if justification_hash = replicate 32 0
            then Inl ''UnfreezeConsensusDomain justification_hash must be non-zero''
          else Inr ()
      | _ \<Rightarrow> Inr ())"

definition MIN_PROPOSAL_DURATION :: u64 where "MIN_PROPOSAL_DURATION = 10"
definition MAX_PROPOSAL_DURATION :: u64 where "MAX_PROPOSAL_DURATION = 100000"
definition MAX_ACTIVE_PROPOSALS :: nat where "MAX_ACTIVE_PROPOSALS = 100"

definition active_proposals :: "governance_state \<Rightarrow> proposal list" where
  "active_proposals g = filter (\<lambda>p. prop_status p = ProposalActive) (proposals g)"

definition create_proposal ::
  "address \<Rightarrow> proposal_type \<Rightarrow> u64 \<Rightarrow> u64 \<Rightarrow> governance_state \<Rightarrow> (string, u64, governance_state) outcome" where
  "create_proposal who t current_epoch duration g =
     (case check_proposal_type t of
        Inl e \<Rightarrow> (Inl e, g)
      | Inr _ \<Rightarrow>
      if \<not> (MIN_PROPOSAL_DURATION \<le> duration \<and> duration \<le> MAX_PROPOSAL_DURATION)
      then (Inl ''Proposal duration must be between 10 and 100000 epochs'', g)
      else if length (active_proposals g) \<ge> MAX_ACTIVE_PROPOSALS then (Inl ''Too many active proposals'', g)
      else
        let g = g\<lparr> proposer_epoch_count := bt_retain (\<lambda>(_, epoch) _. epoch \<ge> current_epoch) (proposer_epoch_count g) \<rparr>
        in case checked_add current_epoch duration of
             None \<Rightarrow> (Inl ''Proposal end_epoch overflow'', g)
           | Some ending \<Rightarrow>
           (let i = next_proposal_id g; proposal = proposal_new i who t current_epoch duration
            in case checked_add ending (activation_delay_epochs (p_type proposal)) of
                 None \<Rightarrow> (Inl ''Proposal activation_epoch overflow'', g)
               | Some activation \<Rightarrow>
                   let key = (who, current_epoch);
                       count = (case bt_get (proposer_epoch_count g) key of None \<Rightarrow> 0 | Some n \<Rightarrow> n)
                   in (Inr i,
                       g\<lparr> proposals := proposals g @ [proposal\<lparr> prop_activation_epoch := Some activation \<rparr>],
                          next_proposal_id := next_proposal_id g + 1,
                          proposer_epoch_count := bt_insert key (count + 1) (proposer_epoch_count g) \<rparr>)))"

text \<open>A write through the reference to the first proposal with the identifier.\<close>

fun modify_first :: "('x \<Rightarrow> bool) \<Rightarrow> ('x \<Rightarrow> 'x) \<Rightarrow> 'x list \<Rightarrow> 'x list" where
  "modify_first P f [] = []"
| "modify_first P f (x # xs) = (if P x then f x # xs else x # modify_first P f xs)"

definition find_proposal :: "u64 \<Rightarrow> governance_state \<Rightarrow> proposal option" where
  "find_proposal i g = find (\<lambda>p. prop_id p = i) (proposals g)"

definition put_proposal :: "u64 \<Rightarrow> proposal \<Rightarrow> governance_state \<Rightarrow> governance_state" where
  "put_proposal i p g = g\<lparr> proposals := modify_first (\<lambda>p. prop_id p = i) (\<lambda>_. p) (proposals g) \<rparr>"

definition proposal_fee_multiplier :: "address \<Rightarrow> u64 \<Rightarrow> governance_state \<Rightarrow> u64" where
  "proposal_fee_multiplier who current_epoch g =
     (let count = (case bt_get (proposer_epoch_count g) (who, current_epoch) of None \<Rightarrow> 0 | Some n \<Rightarrow> n)
      in if unat count < 2 ^ 32 \<and> unat count < 64 then push_bit (unat count) 1 else - 1)"

definition cancel_proposal :: "u64 \<Rightarrow> address \<Rightarrow> governance_state \<Rightarrow> (string, unit, governance_state) outcome" where
  "cancel_proposal i caller g =
     (case find_proposal i g of
        None \<Rightarrow> (Inl (''Proposal '' @ decimal (unat i) @ '' not found''), g)
      | Some p \<Rightarrow>
          if proposer p \<noteq> caller then (Inl ''Only the proposer can cancel the proposal'', g)
          else if prop_status p \<noteq> ProposalActive then (Inl ''Proposal is not active'', g)
          else (Inr (), put_proposal i (p\<lparr> prop_status := ProposalFailed \<rparr>) g))"

datatype governance_action = ActWhitelistVerifier address | ActDewhitelistVerifier address
  | ActSetEncryptionPolicy encryption_policy | ActSetConstitutionParameter constitution_parameter
  | ActVerifyHubApp u64 | ActUnfreezeConsensusDomain u32 hash32 hash32

fun proposal_action :: "proposal_type \<Rightarrow> governance_action option" where
  "proposal_action (WhitelistVerifier a) = Some (ActWhitelistVerifier a)"
| "proposal_action (DewhitelistVerifier a) = Some (ActDewhitelistVerifier a)"
| "proposal_action (SetEncryptionPolicy policy) = Some (ActSetEncryptionPolicy policy)"
| "proposal_action (SetConstitutionParameter parameter) = Some (ActSetConstitutionParameter parameter)"
| "proposal_action (UnfreezeConsensusDomain d v j) = Some (ActUnfreezeConsensusDomain d v j)"
| "proposal_action _ = None"

text \<open>The loop over the proposals, with the actions collected so far.\<close>

fun execute_passed_loop :: "u64 \<Rightarrow> proposal list \<Rightarrow> governance_action list \<times> proposal list" where
  "execute_passed_loop current_epoch [] = ([], [])"
| "execute_passed_loop current_epoch (p # ps) =
     (let (actions, qs) = execute_passed_loop current_epoch ps
      in if prop_status p \<noteq> ProposalPassed \<or> \<not> activation_ready current_epoch p then (actions, p # qs)
         else case proposal_action (p_type p) of
                None \<Rightarrow> (actions, p # qs)
              | Some a \<Rightarrow> (a # actions, p\<lparr> prop_status := ProposalExecuted \<rparr> # qs))"

definition execute_passed_proposals :: "u64 \<Rightarrow> governance_state \<Rightarrow> governance_action list \<times> governance_state" where
  "execute_passed_proposals current_epoch g =
     (let (actions, ps) = execute_passed_loop current_epoch (proposals g) in (actions, g\<lparr> proposals := ps \<rparr>))"

subsection \<open>Votes, unstaking and the epoch transition\<close>

text \<open>The vote of a transaction: an unknown identifier is ignored.\<close>

definition cast_vote :: "u64 \<Rightarrow> address \<Rightarrow> u64 \<Rightarrow> bool \<Rightarrow> u64 \<Rightarrow> governance_state \<Rightarrow> (string, unit, governance_state) outcome" where
  "cast_vote i voter stake vote_for current_epoch g =
     (case find_proposal i g of
        None \<Rightarrow> (Inr (), g)
      | Some p \<Rightarrow> (case add_vote voter stake vote_for current_epoch p of (r, p) \<Rightarrow> (r, put_proposal i p g)))"

text \<open>An unstaking transaction takes the weight back from the votes on active proposals.\<close>

definition unstake_votes :: "address \<Rightarrow> u64 \<Rightarrow> governance_state \<Rightarrow> governance_state" where
  "unstake_votes voter amount g =
     g\<lparr> proposals := map (\<lambda>p. if prop_status p = ProposalActive then reduce_vote_weight voter amount p else p) (proposals g) \<rparr>"

text \<open>
  The governance half of \<open>advance_epoch\<close>: votes whose window is over are counted, and every passed
  proposal whose delay is over is handed to \<open>execute_proposal\<close> and marked.
\<close>

definition close_votes :: "u64 \<Rightarrow> u64 \<Rightarrow> proposal list \<Rightarrow> proposal list" where
  "close_votes stake_total current_epoch ps =
     map (\<lambda>p. if prop_status p = ProposalActive \<and> current_epoch \<ge> end_epoch p
               then finalize stake_total 33 current_epoch p else p) ps"

text \<open>What \<open>execute_proposal\<close> changes of the governance state; a refusal is only logged.\<close>

definition execute_in_governance :: "proposal \<Rightarrow> governance_state \<Rightarrow> governance_state" where
  "execute_in_governance q g =
     (case p_type q of
        SetConstitutionParameter parameter \<Rightarrow> g\<lparr> constitution := snd (set_parameter parameter (constitution g)) \<rparr>
      | _ \<Rightarrow> g)"

definition mark_executed :: "u64 \<Rightarrow> governance_state \<Rightarrow> governance_state" where
  "mark_executed i g =
     (case find_proposal i g of
        None \<Rightarrow> g
      | Some p \<Rightarrow> put_proposal i (p\<lparr> prop_status := ProposalExecuted \<rparr>) g)"

definition advance_epoch_governance :: "u64 \<Rightarrow> u64 \<Rightarrow> governance_state \<Rightarrow> proposal list \<times> governance_state" where
  "advance_epoch_governance stake_total current_epoch g =
     (let ps = close_votes stake_total current_epoch (proposals g);
          to_execute = filter (\<lambda>p. prop_status p = ProposalPassed \<and> activation_ready current_epoch p) ps
      in (to_execute,
          fold (\<lambda>q g. mark_executed (prop_id q) (execute_in_governance q g)) to_execute (g\<lparr> proposals := ps \<rparr>)))"

end
