(* ===== verification/Governance_Theorems.thy ===== *)
theory Governance_Theorems
  imports Governance
begin

text \<open>
  The properties of governance: a vote decides by the recorded weights, nothing executes before its
  delay is over, the hard guardrails of the constitution stand in every reachable state, and a parameter
  update that was accepted as a proposal is accepted when it is applied.
\<close>

subsection \<open>The invariant of a proposal\<close>

text \<open>The weight recorded for the voters of one side.\<close>

definition side_weight :: "bool \<Rightarrow> proposal \<Rightarrow> nat" where
  "side_weight side p = (\<Sum>(v, w)\<leftarrow>bt_entries (voter_weights p). if bt_get (voters p) v = Some side then unat w else 0)"

definition tally_ok :: "proposal \<Rightarrow> bool" where
  "tally_ok p \<longleftrightarrow> unat (votes_for p) = side_weight True p \<and> unat (votes_against p) = side_weight False p
     \<and> (\<forall>v. bt_get (voters p) v = None \<longleftrightarrow> bt_get (voter_weights p) v = None)"

definition timing_ok :: "u64 \<Rightarrow> proposal \<Rightarrow> bool" where
  "timing_ok epoch p \<longleftrightarrow> (\<exists>a. prop_activation_epoch p = Some a
       \<and> unat a = unat (end_epoch p) + unat (activation_delay_epochs (p_type p)))
     \<and> unat (start_epoch p) + 10 \<le> unat (end_epoch p)
     \<and> (prop_status p = ProposalExecuted \<longrightarrow> activation_epoch p \<le> epoch)"

definition prop_ok :: "u64 \<Rightarrow> proposal \<Rightarrow> bool" where
  "prop_ok epoch p \<longleftrightarrow> check_proposal_type (p_type p) = Inr () \<and> timing_ok epoch p \<and> tally_ok p
     \<and> (prop_status p = ProposalPassed \<or> prop_status p = ProposalExecuted \<longrightarrow> votes_against p < votes_for p)"

text \<open>How a proposal may change: its terms stay, votes are never withdrawn, its status moves forward.\<close>

fun status_rank :: "proposal_status \<Rightarrow> nat" where
  "status_rank ProposalActive = 0" | "status_rank ProposalPassed = 1"
| "status_rank ProposalFailed = 2" | "status_rank ProposalExecuted = 2"

definition same_terms :: "proposal \<Rightarrow> proposal \<Rightarrow> bool" where
  "same_terms p q \<longleftrightarrow> prop_id q = prop_id p \<and> proposer q = proposer p \<and> p_type q = p_type p \<and> start_epoch q = start_epoch p
     \<and> end_epoch q = end_epoch p \<and> prop_activation_epoch q = prop_activation_epoch p"

definition evolves :: "proposal \<Rightarrow> proposal \<Rightarrow> bool" where
  "evolves p q \<longleftrightarrow> same_terms p q
     \<and> (\<forall>v b. bt_get (voters p) v = Some b \<longrightarrow> bt_get (voters q) v = Some b)
     \<and> (prop_status q = prop_status p \<or> status_rank (prop_status p) < status_rank (prop_status q))"

lemma evolves_refl [simp]: "evolves p p"
  by (simp add: evolves_def same_terms_def)

lemma evolves_trans: "evolves p q \<Longrightarrow> evolves q r \<Longrightarrow> evolves p r"
  by (auto simp: evolves_def same_terms_def)

lemma timing_ok_later: "timing_ok e p \<Longrightarrow> e \<le> e' \<Longrightarrow> timing_ok e' p"
  by (auto simp: timing_ok_def)

lemma side_weight_vote:
  assumes "tally_ok p" "bt_get (voters p) voter = None"
  shows "side_weight side (p\<lparr> voters := bt_insert voter b (voters p), voter_weights := bt_insert voter w (voter_weights p) \<rparr>)
    = side_weight side p + (if b = side then unat w else 0)"
proof -
  let ?f = "\<lambda>vs v w. if bt_get vs v = Some side then unat w else (0 :: nat)"
  let ?vs = "bt_insert voter b (voters p)"
  have new: "bt_get (voter_weights p) voter = None" using assms by (simp add: tally_ok_def)
  have "(\<Sum>(v, w)\<leftarrow>bt_entries (voter_weights p). ?f ?vs v w) = (\<Sum>(v, w)\<leftarrow>bt_entries (voter_weights p). ?f (voters p) v w)"
    using new by (intro arg_cong [where f = sum_list] map_cong) (auto simp: bt.in_entries_iff)
  then show ?thesis
    using bt.sum_insert [of "?f ?vs" voter w "voter_weights p"] new by (auto simp: side_weight_def)
qed

lemma side_weight_reduce:
  assumes "bt_get (voters p) voter = Some b" "bt_get (voter_weights p) voter = Some w"
  shows "side_weight side (p\<lparr> voter_weights := bt_insert voter w' (voter_weights p) \<rparr>) + (if b = side then unat w else 0)
    = side_weight side p + (if b = side then unat w' else 0)"
  using bt.sum_insert [of "\<lambda>v w. if bt_get (voters p) v = Some side then unat w else 0" voter w' "voter_weights p"] assms
  by (simp add: side_weight_def)

lemma side_weight_cong:
  "voters p = voters q \<Longrightarrow> voter_weights p = voter_weights q \<Longrightarrow> side_weight side p = side_weight side q"
  by (simp add: side_weight_def)

subsection \<open>Single changes\<close>

lemma add_vote_changes:
  assumes ok: "prop_ok e p" and fits: "unat (votes_for p) + unat stake < 2 ^ 64" "unat (votes_against p) + unat stake < 2 ^ 64"
  shows "evolves p (snd (add_vote voter stake b e p))" "prop_ok e (snd (add_vote voter stake b e p))"
proof -
  let ?q = "snd (add_vote voter stake b e p)"
  consider (same) "?q = p" | (vote) "bt_get (voters p) voter = None" "prop_status p = ProposalActive"
    "?q = p\<lparr> votes_for := (if b then sat_add (votes_for p) stake else votes_for p),
              votes_against := (if b then votes_against p else sat_add (votes_against p) stake),
              voters := bt_insert voter b (voters p), voter_weights := bt_insert voter stake (voter_weights p) \<rparr>"
    by (cases "prop_status p = ProposalActive \<and> \<not> e \<ge> end_epoch p \<and> bt_get (voters p) voter = None"; cases b)
       (auto simp: add_vote_def bt_contains_def Let_def)
  then have "evolves p ?q \<and> prop_ok e ?q"
  proof cases
    case vote
    have t: "tally_ok p" using ok by (simp add: prop_ok_def)
    have w: "side_weight side ?q = side_weight side p + (if b = side then unat stake else 0)" for side
      using side_weight_vote [OF t vote(1), where side = side and b = b and w = stake] unfolding vote(3) by (simp add: side_weight_def)
    have "tally_ok ?q" unfolding tally_ok_def w using t fits vote(1)
      by (auto simp: vote(3) tally_ok_def unat_sat_add)
    then show ?thesis
      using ok vote(1,2) by (auto simp: vote(3) prop_ok_def timing_ok_def activation_epoch_def evolves_def same_terms_def)
  qed (use ok in simp)
  then show "evolves p ?q" "prop_ok e ?q" by simp_all
qed

lemma reduce_vote_weight_changes:
  assumes ok: "prop_ok e p" and active: "prop_status p = ProposalActive"
  shows "evolves p (reduce_vote_weight voter r p)" "prop_ok e (reduce_vote_weight voter r p)"
proof -
  let ?q = "reduce_vote_weight voter r p"
  have t: "tally_ok p" using ok by (simp add: prop_ok_def)
  have "evolves p ?q \<and> prop_ok e ?q"
  proof (cases "bt_get (voters p) voter")
    case None
    then show ?thesis using ok by (simp add: reduce_vote_weight_def)
  next
    case (Some b)
    then obtain w where w: "bt_get (voter_weights p) voter = Some w" using t by (metis not_Some_eq tally_ok_def)
    let ?a = "min w r"
    have q: "?q = p\<lparr> votes_for := (if b then sat_sub (votes_for p) ?a else votes_for p),
        votes_against := (if b then votes_against p else sat_sub (votes_against p) ?a),
        voter_weights := bt_insert voter (sat_sub w ?a) (voter_weights p) \<rparr>" if "?a \<noteq> 0"
      using that Some w by (simp add: reduce_vote_weight_def Let_def)
    have le: "unat ?a \<le> unat w" by (simp add: min_def word_le_nat_alt)
    have "tally_ok ?q" if a: "?a \<noteq> 0"
    proof -
      have "side_weight side ?q + (if b = side then unat ?a else 0) = side_weight side p" for side
        using side_weight_reduce [OF Some w, of side "sat_sub w ?a"] le unfolding q [OF a]
        by (simp add: side_weight_def unat_sat_sub split: if_splits)
      from this [of True] this [of False] show ?thesis
        using t w Some unfolding tally_ok_def by (auto simp: q [OF a] unat_sat_sub split: if_splits)
    qed
    then have "tally_ok ?q \<and> evolves p ?q \<and> timing_ok e ?q \<and> p_type ?q = p_type p \<and> prop_status ?q = ProposalActive"
      if a: "?a \<noteq> 0"
      using ok a active by (auto simp: q [OF a] prop_ok_def timing_ok_def activation_epoch_def evolves_def same_terms_def)
    moreover have "?q = p" if "?a = 0" using that Some w by (simp add: reduce_vote_weight_def)
    ultimately show ?thesis using ok by (cases "?a = 0") (auto simp: prop_ok_def)
  qed
  then show "evolves p ?q" "prop_ok e ?q" by simp_all
qed

lemma status_change:
  assumes ok: "prop_ok e p" and rank: "status_rank (prop_status p) < status_rank st"
    and ex: "st = ProposalExecuted \<Longrightarrow> prop_status p = ProposalPassed \<and> activation_ready e p"
    and majority: "st = ProposalPassed \<Longrightarrow> votes_against p < votes_for p"
  shows "evolves p (p\<lparr> prop_status := st \<rparr>)" "prop_ok e (p\<lparr> prop_status := st \<rparr>)"
  using assms by (auto simp: evolves_def same_terms_def prop_ok_def timing_ok_def activation_epoch_def activation_ready_def
      tally_ok_def side_weight_def)

lemma finalize_changes:
  assumes "prop_ok e p"
  shows "evolves p (finalize stake pct e p)" "prop_ok e (finalize stake pct e p)"
  using assms status_change [OF assms, of ProposalPassed] status_change [OF assms, of ProposalFailed]
  by (auto simp: finalize_def Let_def)

subsection \<open>Lists of proposals\<close>

text \<open>Every proposal of the list evolves and keeps its invariant; the list keeps its order and length.\<close>

definition list_evolves :: "u64 \<Rightarrow> proposal list \<Rightarrow> proposal list \<Rightarrow> bool" where
  "list_evolves e ps qs \<longleftrightarrow> list_all2 (\<lambda>p q. prop_ok e p \<longrightarrow> evolves p q \<and> prop_ok e q) ps qs"

lemma list_evolves_map: "(\<And>p. p \<in> set ps \<Longrightarrow> prop_ok e p \<Longrightarrow> evolves p (f p) \<and> prop_ok e (f p)) \<Longrightarrow> list_evolves e ps (map f ps)"
  by (auto simp: list_evolves_def list_all2_conv_all_nth)

lemma list_evolves_refl [simp]: "list_evolves e ps ps"
  using list_evolves_map [of ps e "\<lambda>p. p"] by simp

lemma list_evolves_modify_first:
  "(\<And>p. find P ps = Some p \<Longrightarrow> prop_ok e p \<Longrightarrow> evolves p q \<and> prop_ok e q) \<Longrightarrow> list_evolves e ps (modify_first P (\<lambda>_. q) ps)"
proof (induction ps)
  case (Cons p ps)
  have "list_all2 (\<lambda>p q. prop_ok e p \<longrightarrow> evolves p q \<and> prop_ok e q) ps ps"
    by (rule list_evolves_refl [unfolded list_evolves_def])
  then show ?case using Cons by (auto simp: list_evolves_def)
qed (simp add: list_evolves_def)

lemma put_proposal_evolves:
  "(\<And>p. find_proposal i g = Some p \<Longrightarrow> prop_ok e p \<Longrightarrow> evolves p q \<and> prop_ok e q)
   \<Longrightarrow> list_evolves e (proposals g) (proposals (put_proposal i q g))"
  using list_evolves_modify_first [of "\<lambda>p. prop_id p = i" "proposals g" e q] by (simp add: put_proposal_def find_proposal_def)

lemma cast_vote_evolves:
  assumes "\<And>p. find_proposal i g = Some p \<Longrightarrow>
      unat (votes_for p) + unat stake < 2 ^ 64 \<and> unat (votes_against p) + unat stake < 2 ^ 64"
  shows "list_evolves e (proposals g) (proposals (snd (cast_vote i voter stake b e g)))"
proof (cases "find_proposal i g")
  case (Some p)
  then have "snd (cast_vote i voter stake b e g) = put_proposal i (snd (add_vote voter stake b e p)) g"
    by (simp add: cast_vote_def split: prod.splits)
  then show ?thesis
    using Some assms [OF Some] add_vote_changes [of e p stake voter b] by (auto intro!: put_proposal_evolves)
qed (simp add: cast_vote_def)

lemma unstake_votes_evolves: "list_evolves e (proposals g) (proposals (unstake_votes voter amount g))"
  unfolding unstake_votes_def using reduce_vote_weight_changes by (auto intro!: list_evolves_map)

lemma cancel_proposal_evolves: "list_evolves e (proposals g) (proposals (snd (cancel_proposal i caller g)))"
proof (cases "find_proposal i g")
  case (Some p)
  then show ?thesis
    using status_change [of e p ProposalFailed] by (auto simp: cancel_proposal_def intro!: put_proposal_evolves)
qed (simp add: cancel_proposal_def)

lemma execute_passed_loop_evolves: "list_evolves e ps (snd (execute_passed_loop e ps))"
proof (induction ps)
  case (Cons p ps)
  then show ?case
    using status_change [of e p ProposalExecuted]
    by (auto simp: list_evolves_def case_prod_unfold Let_def split: option.splits)
qed (simp add: list_evolves_def)

lemma execute_passed_evolves: "list_evolves e (proposals g) (proposals (snd (execute_passed_proposals e g)))"
  using execute_passed_loop_evolves [of e "proposals g"] by (simp add: execute_passed_proposals_def case_prod_unfold Let_def)

lemma list_evolves_trans: "list_evolves e ps qs \<Longrightarrow> list_evolves e qs rs \<Longrightarrow> list_evolves e ps rs"
  unfolding list_evolves_def by (erule list_all2_trans [rotated], assumption) (blast intro: evolves_trans)

text \<open>With distinct identifiers a write through an identifier reaches one proposal.\<close>

lemma map_other_id: "i \<notin> prop_id ` set ps \<Longrightarrow> map (\<lambda>p. if prop_id p = i then f p else p) ps = ps"
  by (rule map_idI) auto

lemma modify_first_distinct:
  "distinct (map prop_id ps) \<Longrightarrow> find (\<lambda>p. prop_id p = i) ps = Some p \<Longrightarrow>
   modify_first (\<lambda>p. prop_id p = i) (\<lambda>_. f p) ps = map (\<lambda>p. if prop_id p = i then f p else p) ps"
  by (induction ps) (auto simp: map_other_id split: if_splits)

lemma find_None_id: "find (\<lambda>p. prop_id p = i) ps = None \<Longrightarrow> map (\<lambda>p. if prop_id p = i then f p else p) ps = ps"
  by (rule map_other_id) (auto simp: find_None_iff)

lemma mark_executed_proposals:
  assumes "distinct (map prop_id (proposals g))"
  shows "proposals (mark_executed i g)
    = map (\<lambda>p. if prop_id p = i then p\<lparr> prop_status := ProposalExecuted \<rparr> else p) (proposals g)"
  using modify_first_distinct [OF assms, of i _ "\<lambda>p. p\<lparr> prop_status := ProposalExecuted \<rparr>"]
    find_None_id [of i "proposals g" "\<lambda>p. p\<lparr> prop_status := ProposalExecuted \<rparr>"]
  by (auto simp: mark_executed_def find_proposal_def put_proposal_def split: option.splits)

lemma execute_in_governance_proposals [simp]: "proposals (execute_in_governance q g) = proposals g"
  "next_proposal_id (execute_in_governance q g) = next_proposal_id g"
  by (simp_all add: execute_in_governance_def split: proposal_type.splits)

lemma mark_executed_frame [simp]: "next_proposal_id (mark_executed i g) = next_proposal_id g"
  "constitution (mark_executed i g) = constitution g"
  by (simp_all add: mark_executed_def put_proposal_def split: option.splits)

lemma mark_all_proposals:
  "distinct (map prop_id (proposals g)) \<Longrightarrow>
   proposals (fold (\<lambda>q g. mark_executed (prop_id q) (execute_in_governance q g)) qs g)
   = map (\<lambda>p. if prop_id p \<in> prop_id ` set qs then p\<lparr> prop_status := ProposalExecuted \<rparr> else p) (proposals g)"
proof (induction qs arbitrary: g)
  case (Cons q qs)
  let ?g = "mark_executed (prop_id q) (execute_in_governance q g)"
  have g: "proposals ?g = map (\<lambda>p. if prop_id p = prop_id q then p\<lparr> prop_status := ProposalExecuted \<rparr> else p) (proposals g)"
    using mark_executed_proposals [of "execute_in_governance q g"] Cons.prems by simp
  have "map prop_id (proposals ?g) = map prop_id (proposals g)" unfolding g by simp
  with Cons.prems have "distinct (map prop_id (proposals ?g))" by metis
  from Cons.IH [OF this] show ?case by (simp add: g)
qed (simp add: map_idI)

lemma advance_epoch_evolves:
  assumes ids: "distinct (map prop_id (proposals g))"
  shows "list_evolves e (proposals g) (proposals (snd (advance_epoch_governance stake e g)))"
proof -
  let ?ps = "close_votes stake e (proposals g)"
  let ?due = "\<lambda>p. prop_status p = ProposalPassed \<and> activation_ready e p"
  have closed: "list_evolves e (proposals g) ?ps"
    unfolding close_votes_def using finalize_changes by (auto intro!: list_evolves_map)
  have "prop_id (finalize a b c p) = prop_id p" for a b c p by (simp add: finalize_def Let_def)
  then have "map prop_id ?ps = map prop_id (proposals g)" by (simp add: close_votes_def)
  with ids have d: "distinct (map prop_id ?ps)" by simp
  then have "proposals (snd (advance_epoch_governance stake e g))
      = map (\<lambda>p. if prop_id p \<in> prop_id ` set (filter ?due ?ps) then p\<lparr> prop_status := ProposalExecuted \<rparr> else p) ?ps"
    using mark_all_proposals [of "g\<lparr> proposals := ?ps \<rparr>" "filter ?due ?ps"] by (simp add: advance_epoch_governance_def Let_def)
  also have "\<dots> = map (\<lambda>p. if ?due p then p\<lparr> prop_status := ProposalExecuted \<rparr> else p) ?ps"
    using d by (auto simp: distinct_map inj_on_def image_iff)
  finally have r: "proposals (snd (advance_epoch_governance stake e g))
      = map (\<lambda>p. if ?due p then p\<lparr> prop_status := ProposalExecuted \<rparr> else p) ?ps" .
  have "list_evolves e ?ps (proposals (snd (advance_epoch_governance stake e g)))"
    unfolding r using status_change [of e _ ProposalExecuted] by (auto intro!: list_evolves_map)
  then show ?thesis by (rule list_evolves_trans [OF closed])
qed

subsection \<open>The guardrails\<close>

definition guardrails_stand :: "constitution_registry \<Rightarrow> bool" where
  "guardrails_stand c \<longleftrightarrow> (\<forall>key. is_hard_guardrail key \<longrightarrow> bt_get c key = Some (hard_default key))"

lemma hard_guardrails_iff: "key \<in> set hard_guardrails \<longleftrightarrow> is_hard_guardrail key"
  by (cases key) (simp_all add: hard_guardrails_def)

lemma hard_default_valid: "is_hard_guardrail key \<Longrightarrow> validate_value (hard_default key) = Inr ()"
  by (cases key) (simp_all add: validate_value_def hard_default_def)

lemma guardrails_checked:
  assumes "guardrails_stand c"
  shows "assert_hard_guardrails c = Inr ()"
proof -
  have "check_guardrails keys c = Inr ()" if "set keys \<subseteq> set hard_guardrails" for keys
    using that assms hard_guardrails_iff hard_default_valid
    by (induction keys) (auto simp: guardrails_stand_def)
  then show ?thesis by (simp add: assert_hard_guardrails_def)
qed

lemma validate_update_soft: "validate_update p = Inr () \<Longrightarrow> \<not> is_hard_guardrail (const_key p)"
  by (auto simp: validate_update_def split: sum.splits)

lemma set_parameter_keeps:
  assumes "guardrails_stand c"
  shows "guardrails_stand (snd (set_parameter p c))"
  using assms validate_update_soft [of p]
  by (auto simp: set_parameter_def guardrails_stand_def Let_def split: sum.splits)

lemma set_parameter_accepts:
  assumes "guardrails_stand c" "validate_update p = Inr ()"
  shows "set_parameter p c = (Inr (), bt_insert (const_key p) p c)"
proof -
  have "guardrails_stand (bt_insert (const_key p) p c)"
    using set_parameter_keeps [OF assms(1), of p] assms(2) by (simp add: set_parameter_def Let_def)
  then show ?thesis using assms(2) by (simp add: set_parameter_def Let_def guardrails_checked)
qed

lemma guardrails_new: "guardrails_stand constitution_new"
proof -
  have "bt_get constitution_new key = Some (hard_default key)" if "is_hard_guardrail key" for key
    using that by (cases key) (simp_all add: constitution_new_def hard_guardrails_def)
  then show ?thesis by (simp add: guardrails_stand_def)
qed

subsection \<open>Reachable states\<close>

text \<open>
  The epoch with the governance state, and everything that changes them. A vote must fit the tallies,
  which the stakes of a supply below \<open>2 ^ 64\<close> do; the counter of identifiers must not be exhausted,
  where the release build stops.
\<close>

inductive gov_step :: "u64 \<times> governance_state \<Rightarrow> u64 \<times> governance_state \<Rightarrow> bool" where
  gov_create: "next_proposal_id g < - 1 \<Longrightarrow> gov_step (e, g) (e, snd (create_proposal who t e duration g))"
| gov_vote: "(\<And>p. find_proposal i g = Some p \<Longrightarrow>
      unat (votes_for p) + unat stake < 2 ^ 64 \<and> unat (votes_against p) + unat stake < 2 ^ 64) \<Longrightarrow>
    gov_step (e, g) (e, snd (cast_vote i voter stake b e g))"
| gov_unstake: "gov_step (e, g) (e, unstake_votes voter amount g)"
| gov_cancel: "gov_step (e, g) (e, snd (cancel_proposal i caller g))"
| gov_execute: "gov_step (e, g) (e, snd (execute_passed_proposals e g))"
| gov_epoch: "gov_step (e, g) (sat_add e 1, snd (advance_epoch_governance stake e g))"

definition gov_init :: "u64 \<times> governance_state \<Rightarrow> bool" where
  "gov_init s \<longleftrightarrow> snd s = governance_default"

definition gov_ok :: "u64 \<times> governance_state \<Rightarrow> bool" where
  "gov_ok s \<longleftrightarrow> (case s of (e, g) \<Rightarrow>
     map (unat \<circ> prop_id) (proposals g) = [0..<length (proposals g)]
   \<and> unat (next_proposal_id g) = length (proposals g)
   \<and> (\<forall>p \<in> set (proposals g). prop_ok e p) \<and> guardrails_stand (constitution g))"

lemma gov_ok_distinct: "gov_ok (e, g) \<Longrightarrow> distinct (map prop_id (proposals g))"
proof -
  assume "gov_ok (e, g)"
  then have "distinct (map unat (map prop_id (proposals g)))" by (simp add: gov_ok_def)
  then show ?thesis by (simp only: distinct_map)
qed

lemma gov_ok_evolves:
  assumes ok: "gov_ok (e, g)" and ev: "list_evolves e (proposals g) (proposals h)"
    and frame: "next_proposal_id h = next_proposal_id g" "guardrails_stand (constitution h)"
  shows "gov_ok (e, h)"
proof -
  have l: "length (proposals h) = length (proposals g)" using ev by (simp add: list_evolves_def list_all2_lengthD)
  have each: "evolves (proposals g ! i) (proposals h ! i) \<and> prop_ok e (proposals h ! i)" if "i < length (proposals g)" for i
    using ev ok that by (auto simp: list_evolves_def list_all2_conv_all_nth gov_ok_def)
  have "map (unat \<circ> prop_id) (proposals h) = map (unat \<circ> prop_id) (proposals g)"
    using each l by (intro nth_equalityI) (auto simp: evolves_def same_terms_def)
  moreover have "\<forall>p \<in> set (proposals h). prop_ok e p" using each l by (auto simp: in_set_conv_nth)
  ultimately show ?thesis using ok frame l by (simp add: gov_ok_def)
qed

lemma gov_ok_later: "gov_ok (e, g) \<Longrightarrow> gov_ok (sat_add e 1, g)"
  using sat_add_mono_left [of e 1] by (auto simp: gov_ok_def prop_ok_def intro: timing_ok_later)

lemma create_proposal_cases:
  obtains (refused) msg c where "create_proposal who t e duration g = (Inl msg, g\<lparr> proposer_epoch_count := c \<rparr>)"
  | (created) p c where "create_proposal who t e duration g
      = (Inr (next_proposal_id g), g\<lparr> proposals := proposals g @ [p], next_proposal_id := next_proposal_id g + 1, proposer_epoch_count := c \<rparr>)"
      "prop_id p = next_proposal_id g" "prop_ok e p" "p_type p = t" "prop_status p = ProposalActive"
proof (cases "check_proposal_type t")
  case (Inl m)
  then show thesis by (intro refused [of m "proposer_epoch_count g"]) (simp add: create_proposal_def)
next
  case (Inr u)
  show thesis
  proof (cases "MIN_PROPOSAL_DURATION \<le> duration \<and> duration \<le> MAX_PROPOSAL_DURATION \<and> length (active_proposals g) < MAX_ACTIVE_PROPOSALS")
    case False
    then have "\<exists>m. create_proposal who t e duration g = (Inl m, g)"
      using Inr by (auto simp: create_proposal_def not_less)
    then obtain m where "create_proposal who t e duration g = (Inl m, g)" ..
    then show thesis by (intro refused [of m "proposer_epoch_count g"]) simp
  next
    case True
    let ?c = "bt_retain (\<lambda>(_, epoch) _. epoch \<ge> e) (proposer_epoch_count g)"
    show thesis
    proof (cases "checked_add e duration")
      case None
      then show thesis using Inr True by (intro refused [of _ ?c]) (simp add: create_proposal_def Let_def)
    next
      case (Some ending)
      show thesis
      proof (cases "checked_add ending (activation_delay_epochs t)")
        case None
        then show thesis using Inr True Some by (intro refused [of _ ?c]) (simp add: create_proposal_def Let_def proposal_new_def)
      next
        case a: (Some activation)
        let ?p = "(proposal_new (next_proposal_id g) who t e duration)\<lparr> prop_activation_epoch := Some activation \<rparr>"
        have "unat e + unat duration < 2 ^ 64" "ending = e + duration" "unat activation = unat ending + unat (activation_delay_epochs t)"
          using Some a by (auto simp: checked_add_Some unat_word_ariths)
        moreover have "10 \<le> unat duration" using True by (simp add: MIN_PROPOSAL_DURATION_def word_le_nat_alt)
        ultimately have "prop_ok e ?p"
          using Inr by (simp add: prop_ok_def timing_ok_def tally_ok_def side_weight_def proposal_new_def unat_word_ariths)
        then show thesis
          using Inr True Some a
          by (intro created [where p = ?p]) (auto simp: create_proposal_def Let_def proposal_new_def)
      qed
    qed
  qed
qed

lemma create_proposal_ok:
  assumes ok: "gov_ok (e, g)" and room: "next_proposal_id g < - 1"
  shows "gov_ok (e, snd (create_proposal who t e duration g))"
proof (rule create_proposal_cases [of who t e duration g])
  fix p c
  assume run: "create_proposal who t e duration g
      = (Inr (next_proposal_id g), g\<lparr> proposals := proposals g @ [p], next_proposal_id := next_proposal_id g + 1, proposer_epoch_count := c \<rparr>)"
    and p: "prop_id p = next_proposal_id g" "prop_ok e p"
  have "unat (next_proposal_id g) + 1 < 2 ^ 64"
    using room unat_max_word [where 'a = 64] by (simp add: word_less_nat_alt)
  then have "unat (next_proposal_id g + 1) = unat (next_proposal_id g) + 1" by (simp add: unat_word_ariths)
  then show ?thesis using ok p by (simp add: run gov_ok_def)
qed (use ok in \<open>simp add: gov_ok_def\<close>)

lemma advance_epoch_constitution:
  "guardrails_stand (constitution g) \<Longrightarrow> guardrails_stand (constitution (snd (advance_epoch_governance stake e g)))
   \<and> next_proposal_id (snd (advance_epoch_governance stake e g)) = next_proposal_id g"
proof -
  have one: "guardrails_stand (constitution h) \<Longrightarrow> guardrails_stand (constitution (execute_in_governance q h))" for q h
    by (simp add: execute_in_governance_def set_parameter_keeps split: proposal_type.splits)
  have "guardrails_stand (constitution h) \<Longrightarrow>
      guardrails_stand (constitution (fold (\<lambda>q g. mark_executed (prop_id q) (execute_in_governance q g)) qs h))
      \<and> next_proposal_id (fold (\<lambda>q g. mark_executed (prop_id q) (execute_in_governance q g)) qs h) = next_proposal_id h" for qs h
    by (induction qs arbitrary: h) (simp_all add: one)
  then show "guardrails_stand (constitution g) \<Longrightarrow> ?thesis" by (simp add: advance_epoch_governance_def Let_def)
qed

lemma proposal_writes_frame [simp]:
  "next_proposal_id (snd (cast_vote i voter stake b e g)) = next_proposal_id g"
  "constitution (snd (cast_vote i voter stake b e g)) = constitution g"
  "next_proposal_id (unstake_votes voter amount g) = next_proposal_id g"
  "constitution (unstake_votes voter amount g) = constitution g"
  "next_proposal_id (snd (cancel_proposal i caller g)) = next_proposal_id g"
  "constitution (snd (cancel_proposal i caller g)) = constitution g"
  "next_proposal_id (snd (execute_passed_proposals e g)) = next_proposal_id g"
  "constitution (snd (execute_passed_proposals e g)) = constitution g"
  by (simp_all add: cast_vote_def unstake_votes_def cancel_proposal_def execute_passed_proposals_def put_proposal_def
      case_prod_unfold Let_def split: option.splits)

lemma gov_ok_guardrails: "gov_ok (e, g) \<Longrightarrow> guardrails_stand (constitution g)"
  by (simp add: gov_ok_def)

interpretation gov_safe: inductive_invariant gov_init gov_step gov_ok
proof unfold_locales
  fix s assume "gov_init s"
  then show "gov_ok s" by (auto simp: gov_init_def gov_ok_def governance_default_def guardrails_new split: prod.splits)
next
  fix s t assume ok: "gov_ok s" and "gov_step s t"
  from this(2) show "gov_ok t"
  proof cases
    case (gov_create g e who t duration)
    then show ?thesis using ok by (simp add: create_proposal_ok)
  next
    case (gov_vote i g stake e voter b)
    have "list_evolves e (proposals g) (proposals (snd (cast_vote i voter stake b e g)))"
      by (rule cast_vote_evolves) (use gov_vote(3) in simp)
    then show ?thesis using gov_vote ok gov_ok_guardrails by (auto intro!: gov_ok_evolves [of e g])
  next
    case (gov_unstake e g voter amount)
    then show ?thesis using ok gov_ok_guardrails unstake_votes_evolves by (auto intro!: gov_ok_evolves [of e g])
  next
    case (gov_cancel e g i caller)
    then show ?thesis using ok gov_ok_guardrails cancel_proposal_evolves by (auto intro!: gov_ok_evolves [of e g])
  next
    case (gov_execute e g)
    then show ?thesis using ok gov_ok_guardrails execute_passed_evolves by (auto intro!: gov_ok_evolves [of e g])
  next
    case (gov_epoch e g stake)
    have "list_evolves e (proposals g) (proposals (snd (advance_epoch_governance stake e g)))"
      by (rule advance_epoch_evolves [OF gov_ok_distinct]) (use gov_epoch ok in simp)
    then have "gov_ok (e, snd (advance_epoch_governance stake e g))"
      using gov_epoch ok advance_epoch_constitution [of g stake e] gov_ok_guardrails by (auto intro!: gov_ok_evolves [of e g])
    then show ?thesis using gov_epoch by (simp add: gov_ok_later)
  qed
qed

subsection \<open>A sample run\<close>

text \<open>One proposal with one vote for it, which passes after epoch 10 and is executed after epoch 20.\<close>

definition sample_proposal :: "proposal_status \<Rightarrow> proposal" where
  "sample_proposal st =
     \<lparr> prop_id = 0, proposer = [1], p_type = ChangeBaseFee 5, start_epoch = 0, end_epoch = 10, votes_for = 100,
       votes_against = 0, prop_status = st, voters = bt_insert [1] True bt_empty,
       voter_weights = bt_insert [1] 100 bt_empty, prop_activation_epoch = Some 20 \<rparr>"

definition sample_governance :: "proposal_status \<Rightarrow> governance_state" where
  "sample_governance st =
     \<lparr> proposals = [sample_proposal st], next_proposal_id = 1, constitution = constitution_new,
       proposer_epoch_count = bt_insert ([1], 0) 1 bt_empty \<rparr>"

lemma sample_vote: "reach gov_init gov_step (0, sample_governance ProposalActive)"
proof -
  let ?g = "snd (create_proposal [1] (ChangeBaseFee 5) 0 10 governance_default)"
  have g: "?g = \<lparr> proposals = [(proposal_new 0 [1] (ChangeBaseFee 5) 0 10)\<lparr> prop_activation_epoch := Some 20 \<rparr>],
      next_proposal_id = 1, constitution = constitution_new, proposer_epoch_count = bt_insert ([1], 0) 1 bt_empty \<rparr>"
    by (simp add: create_proposal_def governance_default_def check_proposal_type_def active_proposals_def
        MIN_PROPOSAL_DURATION_def MAX_PROPOSAL_DURATION_def MAX_ACTIVE_PROPOSALS_def checked_add_def Let_def proposal_new_def
        GOVERNANCE_PARAMETER_ACTIVATION_DELAY_EPOCHS_def) (rule arg_cong [where f = "bt_insert _ _"], rule bt_map_eqI, simp)
  have v: "snd (cast_vote 0 [1] 100 True 0 ?g) = sample_governance ProposalActive"
    by (simp add: g cast_vote_def find_proposal_def put_proposal_def add_vote_def proposal_new_def bt_contains_def
        sat_add_def Let_def sample_governance_def sample_proposal_def)
  have "gov_step (0, governance_default) (0, ?g)" by (rule gov_create) (simp add: governance_default_def word_less_nat_alt unat_max_word)
  moreover have "gov_step (0, ?g) (0, snd (cast_vote 0 [1] 100 True 0 ?g))"
    by (rule gov_vote) (auto simp: g find_proposal_def proposal_new_def)
  ultimately show ?thesis
    unfolding v by (intro reach_step [OF reach_step [OF reach_init]]) (auto simp: gov_init_def)
qed

lemma idle_epochs:
  assumes "reach gov_init gov_step (e, g)" "unat e + n \<le> limit" "limit < 2 ^ 64"
    and "\<And>x. unat e \<le> unat x \<Longrightarrow> unat x < limit \<Longrightarrow> snd (advance_epoch_governance 100 x g) = g"
  shows "reach gov_init gov_step (e + of_nat n, g)"
  using assms(2)
proof (induction n)
  case (Suc n)
  let ?x = "e + of_nat n"
  have "unat (of_nat n :: u64) = n" using Suc.prems assms(3) by (simp add: unat_of_nat)
  then have x: "unat ?x = unat e + n" using Suc.prems assms(3) by (simp add: unat_word_ariths)
  then have "sat_add ?x 1 = e + of_nat (Suc n)" using Suc.prems assms(3) by (simp add: sat_add_def)
  moreover have "snd (advance_epoch_governance 100 ?x g) = g" using assms(4) x Suc.prems by simp
  ultimately show ?case using reach_step [OF Suc.IH gov_epoch, of 100] Suc.prems by simp
qed (use assms(1) in simp)

lemmas epoch_eval = advance_epoch_governance_def close_votes_def Let_def sample_governance_def sample_proposal_def
  activation_ready_def activation_epoch_def word_le_nat_alt

lemma sample_closed: "reach gov_init gov_step (10, sample_governance ProposalActive)"
  using idle_epochs [OF sample_vote, of 10 10] by (simp add: epoch_eval)

lemma sample_passed: "reach gov_init gov_step (11, sample_governance ProposalPassed)"
proof -
  have "snd (advance_epoch_governance 100 10 (sample_governance ProposalActive)) = sample_governance ProposalPassed"
    by (simp add: epoch_eval finalize_def)
  then show ?thesis using reach_step [OF sample_closed gov_epoch, of 100] by (simp add: sat_add_def)
qed

lemma sample_executed: "reach gov_init gov_step (21, sample_governance ProposalExecuted)"
proof -
  have r: "reach gov_init gov_step (20, sample_governance ProposalPassed)"
    using idle_epochs [OF sample_passed, of 9 20] by (simp add: epoch_eval)
  have "snd (advance_epoch_governance 100 20 (sample_governance ProposalPassed)) = sample_governance ProposalExecuted"
    by (simp add: epoch_eval execute_in_governance_def mark_executed_def find_proposal_def put_proposal_def)
  then show ?thesis using reach_step [OF r gov_epoch, of 100] by (simp add: sat_add_def)
qed

lemma sample_in [simp]: "sample_proposal st \<in> set (proposals (sample_governance st))" "prop_status (sample_proposal st) = st"
  by (simp_all add: sample_governance_def sample_proposal_def)

subsection \<open>Votes and the timelock\<close>

lemma reach_prop_ok: "reach gov_init gov_step (e, g) \<Longrightarrow> p \<in> set (proposals g) \<Longrightarrow> prop_ok e p"
  using gov_safe.inv_reach [of "(e, g)"] by (simp add: gov_ok_def)

lemma finalize_verdict:
  assumes "prop_status p = ProposalActive" "end_epoch p \<le> e"
  shows "prop_status (finalize stake pct e p) =
    (if unat stake * unat pct \<le> (unat (votes_for p) + unat (votes_against p)) * 100 \<and> votes_against p < votes_for p
     then ProposalPassed else ProposalFailed)"
proof -
  let ?v = "ucast (votes_for p) + ucast (votes_against p) :: u128"
  have v: "unat ?v = unat (votes_for p) + unat (votes_against p)" and "unat ?v < 2 ^ 65"
    using unat_lt64 [of "votes_for p"] unat_lt64 [of "votes_against p"] by (simp_all add: unat_word_ariths unat_ucast_up)
  then have "unat ?v * unat (100 :: u128) < 2 ^ LENGTH(128)" by simp
  then have "unat (?v * 100) = unat ?v * unat (100 :: u128)" unfolding unat_word_ariths(2) by (rule mod_less)
  then have "unat (?v * 100) = (unat (votes_for p) + unat (votes_against p)) * 100" unfolding v by simp
  moreover have "\<not> e < end_epoch p" using assms(2) by simp
  ultimately show ?thesis using assms(1) by (simp add: finalize_def Let_def word_le_nat_alt unat_mul_ucast)
qed

text \<open>
  C15: When the window of an active proposal of a reachable state is over, it passes exactly if the
  recorded weights of its voters reach a third (33%) of the total stake and the weight for it exceeds
  the weight against it. Each voter counts once, with the stake it had left.
\<close>

theorem vote_is_decided_by_weight:
  assumes "reach gov_init gov_step (e, g)" "p \<in> set (proposals g)"
    and "prop_status p = ProposalActive" "end_epoch p \<le> e"
  shows "prop_status (finalize stake 33 e p) =
    (if unat stake * 33 \<le> (side_weight True p + side_weight False p) * 100 \<and> side_weight False p < side_weight True p
     then ProposalPassed else ProposalFailed)"
proof -
  have "tally_ok p" using reach_prop_ok [OF assms(1,2)] by (simp add: prop_ok_def)
  then show ?thesis
    unfolding finalize_verdict [OF assms(3,4)] by (simp add: tally_ok_def word_less_nat_alt)
qed

theorem vote_is_decided_by_weight_witness:
  "prop_status (finalize 100 33 10 (sample_proposal ProposalActive)) = ProposalPassed"
  using vote_is_decided_by_weight [OF sample_closed, of "sample_proposal ProposalActive" 100]
  by (simp add: side_weight_def) (simp add: sample_proposal_def)

text \<open>
  C16: Whatever is executed in a reachable state won its vote, was open for at least ten epochs and
  waited out the delay of its kind, which is at least five epochs.
\<close>

theorem governance_is_timelocked:
  assumes "reach gov_init gov_step (e, g)" "p \<in> set (proposals g)" "prop_status p = ProposalExecuted"
  shows "side_weight False p < side_weight True p
    \<and> unat (start_epoch p) + 10 \<le> unat (end_epoch p)
    \<and> unat (end_epoch p) + unat (activation_delay_epochs (p_type p)) \<le> unat e
    \<and> 5 \<le> activation_delay_epochs (p_type p)"
proof -
  have ok: "prop_ok e p" by (rule reach_prop_ok [OF assms(1,2)])
  have "5 \<le> activation_delay_epochs t" for t
    by (cases t) (simp_all add: GOVERNANCE_PARAMETER_ACTIVATION_DELAY_EPOCHS_def
        GOVERNANCE_POLICY_ACTIVATION_DELAY_EPOCHS_def GOVERNANCE_TARGETED_ACTION_DELAY_EPOCHS_def)
  then show ?thesis
    using ok assms(3)
    by (auto simp: prop_ok_def timing_ok_def tally_ok_def activation_epoch_def word_le_nat_alt word_less_nat_alt)
qed

theorem governance_is_timelocked_witness:
  "side_weight True (sample_proposal ProposalExecuted) > 0 \<and> unat (end_epoch (sample_proposal ProposalExecuted)) + 10 \<le> 21"
  using governance_is_timelocked [OF sample_executed sample_in]
  by (simp add: sample_proposal_def GOVERNANCE_PARAMETER_ACTIVATION_DELAY_EPOCHS_def)

text \<open>
  C17: In every reachable state the six hard guardrails of the constitution are the built-in ones, and
  the update of every proposal on the constitution is accepted, so that executing it cannot fail a block.
\<close>

theorem guardrails_stand_forever:
  assumes "reach gov_init gov_step (e, g)"
  shows "(is_hard_guardrail key \<longrightarrow> constitution_get key (constitution g) = Some (hard_default key))
    \<and> (\<forall>p \<in> set (proposals g). \<forall>c. p_type p = SetConstitutionParameter c
         \<longrightarrow> set_parameter c (constitution g) = (Inr (), bt_insert (const_key c) c (constitution g)))"
proof -
  have stand: "guardrails_stand (constitution g)" using gov_safe.inv_reach [OF assms] by (rule gov_ok_guardrails)
  moreover have "validate_update c = Inr ()" if "p \<in> set (proposals g)" "p_type p = SetConstitutionParameter c" for p c
    using reach_prop_ok [OF assms that(1)] that(2) by (simp add: prop_ok_def check_proposal_type_def)
  ultimately show ?thesis by (auto simp: guardrails_stand_def constitution_get_def intro: set_parameter_accepts)
qed

theorem guardrails_stand_forever_witness:
  "constitution_get NoPrivateKeyCustody (constitution (sample_governance ProposalExecuted)) = Some (hard_default NoPrivateKeyCustody)"
  using guardrails_stand_forever [OF sample_executed, of NoPrivateKeyCustody] by simp

lemma gov_step_evolves:
  assumes "gov_ok (e, g)" "gov_step (e, g) (f, h)" "i < length (proposals g)"
  shows "i < length (proposals h) \<and> evolves (proposals g ! i) (proposals h ! i)"
  using assms(2)
proof cases
  case (gov_create who t duration)
  show ?thesis
    by (rule create_proposal_cases [of who t e duration g]) (use gov_create assms(3) in \<open>auto simp: nth_append\<close>)
qed (use assms(1,3) cast_vote_evolves unstake_votes_evolves cancel_proposal_evolves execute_passed_evolves
      advance_epoch_evolves [OF gov_ok_distinct] in
    \<open>fastforce simp: list_evolves_def list_all2_conv_all_nth gov_ok_def\<close>)+

text \<open>
  C23: A proposal of a reachable state stays where it is: identifier, proposer, content and deadlines never
  change, no vote is withdrawn, and its status only moves from active to passed or failed and from passed
  to executed.
\<close>

theorem proposals_only_move_forward:
  assumes "reach gov_init gov_step (e, g)" "gov_step\<^sup>*\<^sup>* (e, g) (f, h)" "i < length (proposals g)"
  shows "i < length (proposals h) \<and> evolves (proposals g ! i) (proposals h ! i)"
proof -
  have ok: "gov_ok (e, g)" by (rule gov_safe.inv_reach [OF assms(1)])
  from assms(2) show ?thesis
  proof (induction "(f, h)" arbitrary: f h rule: rtranclp_induct)
    case base
    then show ?case using assms(3) by simp
  next
    case (step s)
    obtain f' h' where s: "s = (f', h')" by fastforce
    have "gov_ok (f', h')" using gov_safe.inv_steps [OF step(1) ok] s by simp
    then show ?case using step(2,3) s gov_step_evolves evolves_trans by blast
  qed
qed

theorem proposals_only_move_forward_witness:
  "evolves (sample_proposal ProposalActive) (sample_proposal ProposalPassed)"
proof -
  have "snd (advance_epoch_governance 100 10 (sample_governance ProposalActive)) = sample_governance ProposalPassed"
    by (simp add: epoch_eval finalize_def)
  then have "gov_step (10, sample_governance ProposalActive) (11, sample_governance ProposalPassed)"
    using gov_epoch [of 10 "sample_governance ProposalActive" 100] by (simp add: sat_add_def)
  then show ?thesis
    using proposals_only_move_forward [OF sample_closed r_into_rtranclp, of 11 "sample_governance ProposalPassed" 0]
    by (simp add: sample_governance_def)
qed

subsection \<open>Parameter updates\<close>

lemma params_validate_iff:
  "params_validate p = Inr () \<longleftrightarrow> 100 \<le> min_stake p \<and> unbonding_epochs p \<noteq> 0 \<and> unbonding_epochs p \<le> 100000
     \<and> double_sign_slash_ratio_fixed p \<le> FIXED_POINT_SCALE \<and> liveness_slash_ratio_fixed p \<le> FIXED_POINT_SCALE
     \<and> malicious_slash_ratio_fixed p \<le> FIXED_POINT_SCALE \<and> bridge_relayer_fee_ppm p < PPM_DENOMINATOR
     \<and> transfer_fee_ppm p < PPM_DENOMINATOR \<and> swap_fee_ppm p < PPM_DENOMINATOR \<and> bridge_fee_ppm p < PPM_DENOMINATOR
     \<and> max_invalid_votes_per_epoch p \<le> 100000"
  by (auto simp: params_validate_def not_less not_le split: if_splits)

lemma numeric_parameter_valid:
  assumes "numeric_parameter key = Some upd" "params_validate (upd v params_default) = Inr ()" "params_validate p = Inr ()"
  shows "params_validate (upd v p) = Inr ()"
  using assms unfolding numeric_parameter_def params_validate_iff by (auto split: if_splits)

text \<open>
  C24: A parameter update that is accepted as a proposal, where it is judged on the default parameters,
  is accepted whenever it is applied to valid parameters, and leaves them valid.
\<close>

theorem accepted_update_applies:
  assumes "validate_governance_parameter_update key value = Inr ()" "params_validate (reg_params r) = Inr ()"
  shows "\<exists>params. apply_registry_parameter_update key value r = (Inr (), set_params params r) \<and> params_validate params = Inr ()
    \<and> write_parameter ''unknown registry parameter: '' key value (reg_params r) = Inr params"
proof (cases "numeric_parameter key")
  case (Some upd)
  then obtain v where v: "parse_u64 value = Inr v" "params_validate (upd v params_default) = Inr ()"
    using assms(1) by (auto simp: validate_governance_parameter_update_def write_parameter_def split: if_splits sum.splits)
  then show ?thesis
    using Some numeric_parameter_valid [OF Some v(2) assms(2)]
    by (simp add: apply_registry_parameter_update_def write_parameter_def)
next
  case None
  then obtain b where "key = ''liveness_slashing_enabled''" "parse_governance_bool key value = Inr b"
    using assms(1) by (auto simp: validate_governance_parameter_update_def write_parameter_def split: if_splits sum.splits)
  moreover have "params_validate ((reg_params r)\<lparr> liveness_slashing_enabled := b \<rparr>) = Inr ()"
    using assms(2) by (simp add: params_validate_iff)
  ultimately show ?thesis using None by (simp add: apply_registry_parameter_update_def write_parameter_def)
qed

theorem accepted_update_applies_witness:
  "\<exists>params. apply_registry_parameter_update ''min_stake'' ''250'' (registry_with_params params_default)
     = (Inr (), set_params params (registry_with_params params_default)) \<and> min_stake params = 250"
proof -
  have d: "parse_u64 ''250'' = Inr 250" by (simp add: parse_u64_def char_digit_def of_char_Char)
  have p: "params_validate params_default = Inr ()"
    by (simp add: params_validate_iff params_default_def FIXED_POINT_SCALE_def PPM_DENOMINATOR_def UNBONDING_EPOCHS_def)
  have "validate_governance_parameter_update ''min_stake'' ''250'' = Inr ()"
    using d p by (simp add: validate_governance_parameter_update_def is_governance_parameter_whitelisted_def
        GOVERNANCE_PARAMETER_WHITELIST_def write_parameter_def numeric_parameter_def params_validate_iff)
  moreover have "params_validate (reg_params (registry_with_params params_default)) = Inr ()"
    using p by (simp add: registry_with_params_def)
  ultimately show ?thesis
    using accepted_update_applies [of "''min_stake''" "''250''" "registry_with_params params_default"]
    by (auto simp: write_parameter_def numeric_parameter_def d)
qed

end
