(* ===== verification/Note_Registry.thy ===== *)
theory Note_Registry
  imports Relay_Execution Goldilocks Mempool
begin

text \<open>
  Private transfers: the packing of a field element as a note hash (\<^verbatim>\<open>crates/note-packing\<close>), the registry of
  live commitments and spent nullifiers (\<^verbatim>\<open>src/privacy/note_registry.rs\<close>), the submitted transfer
  (\<^verbatim>\<open>src/privacy/submit.rs\<close>) and the two arms of the executor that write the registry. A \<^verbatim>\<open>BTreeSet\<close> is an
  ordered map to units. SHA-256, SHA3-256 and the Ed25519 and ML-DSA-87 libraries are parameters. A length fits a
  machine word here, so the saturating sum of two of them is the sum.
\<close>

subsection \<open>Packing\<close>

type_synonym note_hash = bytes

definition FIELD_BYTES :: nat where
  "FIELD_BYTES = 8"

definition hash_from_field :: "u64 \<Rightarrow> note_hash" where
  "hash_from_field fe = le_bytes 8 fe @ replicate 24 0"

definition field_from_hash :: "note_hash \<Rightarrow> u64" where
  "field_from_hash h = from_le_bytes (take FIELD_BYTES h)"

definition is_packed :: "note_hash \<Rightarrow> bool" where
  "is_packed h = (\<forall>i \<in> set [FIELD_BYTES..<32]. h ! i = 0)"

definition is_canonical_field :: "u64 \<Rightarrow> bool" where
  "is_canonical_field fe = (fe < GOLDILOCKS_P)"

definition is_note_hash :: "note_hash \<Rightarrow> bool" where
  "is_note_hash h = (is_packed h \<and> is_canonical_field (field_from_hash h))"

subsection \<open>The registry\<close>

definition MAX_LIVE_COMMITMENTS :: nat where
  "MAX_LIVE_COMMITMENTS = 65536"

definition MAX_SPENT_NULLIFIERS :: nat where
  "MAX_SPENT_NULLIFIERS = 262144"

record note_registry =
  live_commitments :: "(note_hash, unit) btree_map"
  spent_nullifiers :: "(note_hash, unit) btree_map"

definition note_registry_new :: note_registry where
  "note_registry_new = \<lparr> live_commitments = bt_empty, spent_nullifiers = bt_empty \<rparr>"

definition note_registry_is_empty :: "note_registry \<Rightarrow> bool" where
  "note_registry_is_empty r = (bt_len (live_commitments r) = 0 \<and> bt_len (spent_nullifiers r) = 0)"

definition live_count :: "note_registry \<Rightarrow> nat" where
  "live_count r = bt_len (live_commitments r)"

definition spent_count :: "note_registry \<Rightarrow> nat" where
  "spent_count r = bt_len (spent_nullifiers r)"

definition contains_commitment :: "note_registry \<Rightarrow> note_hash \<Rightarrow> bool" where
  "contains_commitment r c = bt_contains (live_commitments r) c"

definition is_nullifier_spent :: "note_registry \<Rightarrow> note_hash \<Rightarrow> bool" where
  "is_nullifier_spent r n = bt_contains (spent_nullifiers r) n"

definition insert_note :: "note_hash \<Rightarrow> note_registry \<Rightarrow> (string, unit, note_registry) outcome" where
  "insert_note commitment r =
     (if bt_contains (live_commitments r) commitment then (Inl ''note commitment already live'', r)
      else if bt_len (live_commitments r) \<ge> MAX_LIVE_COMMITMENTS
      then (Inl (''live commitment set full ('' @ decimal (bt_len (live_commitments r)) @ ''/''
                 @ decimal MAX_LIVE_COMMITMENTS @ '') - compact or wait for spends''), r)
      else (Inr (), r\<lparr> live_commitments := bt_insert commitment () (live_commitments r) \<rparr>))"

definition derive_nullifier :: "hasher \<Rightarrow> note_hash \<Rightarrow> note_hash \<Rightarrow> note_hash" where
  "derive_nullifier H commitment prf = H (ascii ''BDLM_NULLIFIER_DERIVE_V1'' @ commitment @ prf)"

text \<open>The loops of checks, each with the set of the hashes seen so far.\<close>

fun check_outputs :: "note_registry \<Rightarrow> note_hash list \<Rightarrow> note_hash set \<Rightarrow> string + unit" where
  "check_outputs r [] seen_out = Inr ()"
| "check_outputs r (c # cs) seen_out =
     (if c \<in> seen_out then Inl ''duplicate output commitment''
      else if bt_contains (live_commitments r) c then Inl ''output commitment already live''
      else check_outputs r cs (insert c seen_out))"

fun check_inputs :: "note_registry \<Rightarrow> note_hash list \<Rightarrow> note_hash set \<Rightarrow> string + unit" where
  "check_inputs r [] seen_in = Inr ()"
| "check_inputs r (c # cs) seen_in =
     (if c \<in> seen_in then Inl ''duplicate input commitment''
      else if \<not> bt_contains (live_commitments r) c then Inl ''spend: commitment not in live set''
      else check_inputs r cs (insert c seen_in))"

fun check_derivations :: "hasher \<Rightarrow> nat \<Rightarrow> (note_hash \<times> note_hash) list \<Rightarrow> note_hash list \<Rightarrow> string + unit" where
  "check_derivations H i ((commitment, nullifier) # xs) (prf # prfs) =
     (if nullifier \<noteq> derive_nullifier H commitment prf
      then Inl (''nullifier derivation proof invalid for input '' @ decimal i)
      else check_derivations H (Suc i) xs prfs)"
| "check_derivations H i _ _ = Inr ()"

definition transfer_checks ::
  "hasher \<Rightarrow> note_hash list \<Rightarrow> note_hash list \<Rightarrow> note_hash list \<Rightarrow> note_hash list \<Rightarrow> note_registry \<Rightarrow> string + unit" where
  "transfer_checks H spent_commitments nullifiers output_commitments nullifier_proofs r =
     (if length spent_commitments \<noteq> length nullifiers then Inl ''spent_commitments/nullifiers length mismatch''
      else if nullifier_proofs \<noteq> [] \<and> length nullifier_proofs \<noteq> length nullifiers
        then Inl ''nullifier_proofs length mismatch''
      else if spent_commitments = [] then Inl ''private transfer requires at least one input''
      else if output_commitments = [] then Inl ''private transfer requires at least one output''
      else if list_ex (bt_contains (spent_nullifiers r)) nullifiers
        then Inl ''double-spend: nullifier already spent''
      else case check_outputs r output_commitments {} of
        Inl e \<Rightarrow> Inl e
      | Inr _ \<Rightarrow>
      (case (if nullifier_proofs = [] then Inr ()
             else check_derivations H 0 (zip spent_commitments nullifiers) nullifier_proofs) of
        Inl e \<Rightarrow> Inl e
      | Inr _ \<Rightarrow>
      (case check_inputs r spent_commitments {} of
        Inl e \<Rightarrow> Inl e
      | Inr _ \<Rightarrow>
          if bt_len (spent_nullifiers r) + length nullifiers > MAX_SPENT_NULLIFIERS
          then Inl (''spent nullifier set full ('' @ decimal (bt_len (spent_nullifiers r)) @ ''/''
                    @ decimal MAX_SPENT_NULLIFIERS @ '') - chain must compact before more private transfers'')
          else Inr ())))"

text \<open>The two loops past every refusal.\<close>

definition spend_inputs :: "(note_hash \<times> note_hash) list \<Rightarrow> note_registry \<Rightarrow> note_registry" where
  "spend_inputs pairs r =
     fold (\<lambda>(commitment, nullifier) r.
       r\<lparr> live_commitments := bt_remove commitment (live_commitments r),
          spent_nullifiers := bt_insert nullifier () (spent_nullifiers r) \<rparr>) pairs r"

definition insert_outputs :: "note_hash list \<Rightarrow> note_registry \<Rightarrow> note_registry" where
  "insert_outputs cs r = fold (\<lambda>c r. r\<lparr> live_commitments := bt_insert c () (live_commitments r) \<rparr>) cs r"

definition apply_transfer_with_proofs ::
  "hasher \<Rightarrow> note_hash list \<Rightarrow> note_hash list \<Rightarrow> note_hash list \<Rightarrow> note_hash list \<Rightarrow> note_registry
     \<Rightarrow> (string, unit, note_registry) outcome" where
  "apply_transfer_with_proofs H spent_commitments nullifiers output_commitments nullifier_proofs r =
     (case transfer_checks H spent_commitments nullifiers output_commitments nullifier_proofs r of
        Inl e \<Rightarrow> (Inl e, r)
      | Inr _ \<Rightarrow>
          (Inr (), insert_outputs output_commitments (spend_inputs (zip spent_commitments nullifiers) r)))"

definition apply_transfer ::
  "hasher \<Rightarrow> note_hash list \<Rightarrow> note_hash list \<Rightarrow> note_hash list \<Rightarrow> note_registry \<Rightarrow> (string, unit, note_registry) outcome" where
  "apply_transfer H spent_commitments nullifiers output_commitments r =
     apply_transfer_with_proofs H spent_commitments nullifiers output_commitments [] r"

definition note_state_root :: "hasher \<Rightarrow> note_registry \<Rightarrow> hash32" where
  "note_state_root H r =
     H (ascii ''BDLM_L1_NOTE_REGISTRY_V1'' @ le_bytes 8 (of_nat (bt_len (live_commitments r)) :: u64)
        @ concat (bt_keys (live_commitments r))
        @ le_bytes 8 (of_nat (bt_len (spent_nullifiers r)) :: u64) @ concat (bt_keys (spent_nullifiers r)))"

definition spent_nullifier_count :: "note_registry \<Rightarrow> nat" where
  "spent_nullifier_count r = bt_len (spent_nullifiers r)"

definition prune_spent_nullifiers :: "nat \<Rightarrow> note_registry \<Rightarrow> note_registry" where
  "prune_spent_nullifiers keep_count r = r"

subsection \<open>The submitted transfer\<close>

definition MAX_PRIVATE_IO :: nat where "MAX_PRIVATE_IO = 16"
definition ED25519_AUTH_SIG_LEN :: nat where "ED25519_AUTH_SIG_LEN = 64"
definition ML_DSA_87_AUTH_SIG_LEN :: nat where "ML_DSA_87_AUTH_SIG_LEN = 4627"

record private_transfer_submit =
  pts_spent_commitments :: "note_hash list"
  pts_nullifiers :: "note_hash list"
  pts_output_commitments :: "note_hash list"
  pts_authorization_sig :: bytes
  pts_public_digest :: hash32

definition submit_validate_shape :: "private_transfer_submit \<Rightarrow> string + unit" where
  "submit_validate_shape sub =
     (if pts_spent_commitments sub = [] \<or> pts_nullifiers sub = [] then Inl ''private transfer: empty inputs''
      else if length (pts_spent_commitments sub) \<noteq> length (pts_nullifiers sub)
        then Inl ''private transfer: input arity mismatch''
      else if pts_output_commitments sub = [] then Inl ''private transfer: empty outputs''
      else if length (pts_spent_commitments sub) > MAX_PRIVATE_IO \<or> length (pts_output_commitments sub) > MAX_PRIVATE_IO
        then Inl (''private transfer: exceeds MAX_PRIVATE_IO ('' @ decimal MAX_PRIVATE_IO @ '')'')
      else if list_ex (\<lambda>h. \<not> is_note_hash h) (pts_spent_commitments sub @ pts_nullifiers sub @ pts_output_commitments sub)
        then Inl ''private transfer: a commitment or nullifier is not a packed field element''
      else if length (pts_authorization_sig sub) \<noteq> ED25519_AUTH_SIG_LEN
              \<and> length (pts_authorization_sig sub) \<noteq> ML_DSA_87_AUTH_SIG_LEN
        then Inl (''private transfer: authorization_sig must be '' @ decimal ED25519_AUTH_SIG_LEN
                  @ '' bytes (Ed25519) or '' @ decimal ML_DSA_87_AUTH_SIG_LEN @ '' bytes (ML-DSA-87), got ''
                  @ decimal (length (pts_authorization_sig sub)))
      else Inr ())"

definition compute_public_digest :: "hasher \<Rightarrow> note_hash list \<Rightarrow> note_hash list \<Rightarrow> hash32" where
  "compute_public_digest H3 nullifiers outputs =
     H3 (ascii ''BUDLUM_PRIVATE_TRANSFER_V1'' @ le_bytes 8 (of_nat (length nullifiers) :: u64) @ concat nullifiers
         @ le_bytes 8 (of_nat (length outputs) :: u64) @ concat outputs)"

definition verify_digest_matches :: "hasher \<Rightarrow> private_transfer_submit \<Rightarrow> bool" where
  "verify_digest_matches H3 sub =
     (pts_public_digest sub = compute_public_digest H3 (pts_nullifiers sub) (pts_output_commitments sub))"

subsection \<open>Execution\<close>

text \<open>
  The verifiers of \<^verbatim>\<open>src/crypto/primitives.rs\<close>: the length checks are the program's, decoding the key and the
  signature and checking them is the library's (\<open>lib\<close>, on the message, the signature and the key). ML-DSA-87 is the one
  of the build that has the feature \<^verbatim>\<open>wallet-ml-dsa\<close>.
\<close>

type_synonym signature_library = "bytes \<Rightarrow> bytes \<Rightarrow> bytes \<Rightarrow> string + unit"

definition verify_signature :: "signature_library \<Rightarrow> bytes \<Rightarrow> bytes \<Rightarrow> bytes \<Rightarrow> string + unit" where
  "verify_signature lib message signature public_key =
     (if length signature \<noteq> 64
      then Inl (''Invalid signature length: expected 64, got '' @ decimal (length signature))
      else if length public_key \<noteq> 32
      then Inl (''Invalid public key length: expected 32, got '' @ decimal (length public_key))
      else lib message signature public_key)"

definition ML_DSA_87_PUBLIC_KEY_LEN :: nat where "ML_DSA_87_PUBLIC_KEY_LEN = 2592"

definition verify_ml_dsa_87_signature :: "signature_library \<Rightarrow> bytes \<Rightarrow> bytes \<Rightarrow> bytes \<Rightarrow> string + unit" where
  "verify_ml_dsa_87_signature lib message signature public_key =
     (if length signature \<noteq> ML_DSA_87_AUTH_SIG_LEN
      then Inl (''invalid ML-DSA-87 signature length: expected '' @ decimal ML_DSA_87_AUTH_SIG_LEN @ '', got ''
                @ decimal (length signature))
      else if length public_key \<noteq> ML_DSA_87_PUBLIC_KEY_LEN
      then Inl (''invalid ML-DSA-87 public key length: expected '' @ decimal ML_DSA_87_PUBLIC_KEY_LEN @ '', got ''
                @ decimal (length public_key))
      else lib message signature public_key)"

definition SIGNATURE_VERSION_V5 :: u32 where "SIGNATURE_VERSION_V5 = 5"

definition transfer_authorized ::
  "signature_library \<Rightarrow> signature_library \<Rightarrow> ('a, 't) transaction \<Rightarrow> private_transfer_submit \<Rightarrow> bool" where
  "transfer_authorized ed25519 ml_dsa tx sub =
     ((if tx_signature_version tx = SIGNATURE_VERSION_V5
       then verify_ml_dsa_87_signature ml_dsa (pts_public_digest sub) (pts_authorization_sig sub) (tx_signer_public_key tx)
       else verify_signature ed25519 (pts_public_digest sub) (pts_authorization_sig sub) (tx_from tx)) = Inr ())"

text \<open>\<^verbatim>\<open>Network::Devnet\<close> and \<^verbatim>\<open>Network::Testnet\<close> by their chain ids.\<close>

definition privacy_transfers_enabled :: "u64 \<Rightarrow> bool" where
  "privacy_transfers_enabled chain_id = (chain_id = 45262 \<or> chain_id = 45261)"

text \<open>The fields of the account state the two arms touch: the note registry beside the accounts.\<close>

type_synonym private_state = "note_registry \<times> account_state"

definition execute_note_insert ::
  "('a, 't) transaction \<Rightarrow> note_hash \<Rightarrow> private_state \<Rightarrow> (exec_error, unit, private_state) outcome" where
  "execute_note_insert tx commitment s =
     (if \<not> privacy_transfers_enabled (tx_chain_id tx)
      then (Inl (ExecError ''privacy_mainnet_disabled''
             (Message ''privacy note insertion is disabled on mainnet until full proof verification is wired'')), s)
      else if \<not> is_note_hash commitment
      then (Inl (ExecError ''privacy_note_shape'' (Message ''commitment is not a packed field element'')), s)
      else case insert_note commitment (fst s) of
        (Inl e, r) \<Rightarrow> (Inl (ExecError ''privacy_note_insert'' (Message e)), (r, snd s))
      | (Inr _, r) \<Rightarrow> (case debit_sender (tx_from tx) (tx_fee tx) (snd s) of (res, a) \<Rightarrow> (res, (r, a))))"

definition execute_private_transfer ::
  "hasher \<Rightarrow> hasher \<Rightarrow> signature_library \<Rightarrow> signature_library \<Rightarrow> ('a, 't) transaction \<Rightarrow> private_transfer_submit \<Rightarrow>
   private_state \<Rightarrow> (exec_error, unit, private_state) outcome" where
  "execute_private_transfer H H3 ed25519 ml_dsa tx sub s =
     (if \<not> privacy_transfers_enabled (tx_chain_id tx)
      then (Inl (ExecError ''privacy_mainnet_disabled''
             (Message (''private transfers are disabled on mainnet until ownership, value-conservation, and ''
                       @ ''membership proofs are wired''))), s)
      else case submit_validate_shape sub of
        Inl e \<Rightarrow> (Inl (ExecError ''private_transfer_shape'' (Message e)), s)
      | Inr _ \<Rightarrow>
      if \<not> verify_digest_matches H3 sub
      then (Inl (ExecError ''private_transfer_digest'' (Message ''public_digest does not match nullifiers/outputs'')), s)
      else if \<not> transfer_authorized ed25519 ml_dsa tx sub
      then (Inl (ExecError ''private_transfer_auth'' (Message ''authorization_sig invalid for tx.from'')), s)
      else case apply_transfer H (pts_spent_commitments sub) (pts_nullifiers sub) (pts_output_commitments sub) (fst s) of
        (Inl e, r) \<Rightarrow> (Inl (ExecError ''private_transfer_apply'' (Message e)), (r, snd s))
      | (Inr _, r) \<Rightarrow> (case debit_sender (tx_from tx) (tx_fee tx) (snd s) of (res, a) \<Rightarrow> (res, (r, a))))"

text \<open>
  The two transaction types, and the checks on the sender that come before the branches of both;
  \<open>verify\<close> is \<^verbatim>\<open>Transaction::verify\<close>.
\<close>

datatype private_call = PrivacyNoteInsert note_hash | PrivateTransferSubmit private_transfer_submit

definition execute_private_call ::
  "hasher \<Rightarrow> hasher \<Rightarrow> signature_library \<Rightarrow> signature_library \<Rightarrow> ('a, private_call) transaction \<Rightarrow>
   private_state \<Rightarrow> (exec_error, unit, private_state) outcome" where
  "execute_private_call H H3 ed25519 ml_dsa tx s =
     (case tx_type tx of
        PrivacyNoteInsert commitment \<Rightarrow> execute_note_insert tx commitment s
      | PrivateTransferSubmit sub \<Rightarrow> execute_private_transfer H H3 ed25519 ml_dsa tx sub s)"

definition apply_private_transaction ::
  "hasher \<Rightarrow> hasher \<Rightarrow> signature_library \<Rightarrow> signature_library \<Rightarrow> (('a, private_call) transaction \<Rightarrow> bool) \<Rightarrow>
   ('a, private_call) transaction \<Rightarrow> private_state \<Rightarrow> (exec_error, unit, private_state) outcome" where
  "apply_private_transaction H H3 ed25519 ml_dsa verify tx s =
     (if tx_from tx = zero_address
      then (if verify tx then (Inr (), s)
            else (Inl (ExecError ''zero_address_sender_forbidden'' (Message
              (''the zero address cannot originate transactions outside the canonical genesis '' @ ''transaction''))), s))
      else if burn_reserve_address (snd s) = Some (tx_from tx)
      then (Inl (ExecError ''burn_reserve_locked''
              (Message ''Burn reserve is schedule-controlled and cannot originate transactions'')), s)
      else
        let (sender, a) = get_or_create (tx_from tx) (snd s) in
        if acc_balance sender < sat_add (tx_amount tx) (tx_fee tx)
        then (Inl (ExecError ''insufficient_balance'' (Message ''Insufficient balance'')), (fst s, a))
        else execute_private_call H H3 ed25519 ml_dsa tx (fst s, a))"

end
