(* ===== verification/Note_Theorems.thy ===== *)
theory Note_Theorems
  imports Note_Registry Relay_Theorems
begin

text \<open>
  Properties of private transfers: what the registry holds after an accepted and after a refused
  transaction, that a nullifier is accepted once over any run, and that the registry and the field view of
  it agree.
\<close>

subsection \<open>The registry as two sets\<close>

abbreviation keys_of :: "('k::linorder, 'v) btree_map \<Rightarrow> 'k set" where
  "keys_of m \<equiv> dom (bt_get m)"

lemma keys_of_insert [simp]: "keys_of (bt_insert k v m) = insert k (keys_of m)"
  by (auto simp: dom_def)

lemma keys_of_remove [simp]: "keys_of (bt_remove k m) = keys_of m - {k}"
  by (auto simp: dom_def)

lemma keys_of_empty [simp]: "keys_of bt_empty = {}"
  by (simp add: dom_def)

lemma bt_contains_keys: "bt_contains m k \<longleftrightarrow> k \<in> keys_of m"
  by (auto simp: bt_contains_def)

lemma bt_len_card: "bt_len m = card (keys_of m)"
  using distinct_card [OF bt.entries_distinct [of m]] by (simp add: bt_len_def bt.dom_get)

lemma keys_of_finite [simp]: "finite (keys_of m)"
  by (rule bt.finite_dom_get)

abbreviation live_set :: "note_registry \<Rightarrow> note_hash set" where
  "live_set r \<equiv> keys_of (live_commitments r)"

abbreviation spent_set :: "note_registry \<Rightarrow> note_hash set" where
  "spent_set r \<equiv> keys_of (spent_nullifiers r)"

lemma spend_inputs_sets:
  "live_set (spend_inputs ps r) = live_set r - fst ` set ps"
  "spent_set (spend_inputs ps r) = spent_set r \<union> snd ` set ps"
  unfolding spend_inputs_def by (induction ps arbitrary: r) (auto simp: case_prod_unfold)

lemma insert_outputs_sets:
  "live_set (insert_outputs cs r) = live_set r \<union> set cs" "spent_nullifiers (insert_outputs cs r) = spent_nullifiers r"
  unfolding insert_outputs_def by (induction cs arbitrary: r) auto

lemma check_outputs_ok:
  "check_outputs r cs seen = Inr () \<longleftrightarrow> distinct cs \<and> set cs \<inter> seen = {} \<and> set cs \<inter> live_set r = {}"
  by (induction r cs seen rule: check_outputs.induct) (auto simp: bt_contains_keys)

lemma check_inputs_ok:
  "check_inputs r cs seen = Inr () \<longleftrightarrow> distinct cs \<and> set cs \<inter> seen = {} \<and> set cs \<subseteq> live_set r"
  by (induction r cs seen rule: check_inputs.induct) (auto simp: bt_contains_keys)

lemma transfer_refused: "apply_transfer H ins nulls outs r = (Inl e, t) \<Longrightarrow> t = r"
  by (auto simp: apply_transfer_def apply_transfer_with_proofs_def split: sum.splits)

lemma transfer_accepted:
  assumes "apply_transfer H ins nulls outs r = (Inr (), t)"
  shows "length ins = length nulls" "distinct ins" "distinct outs" "set ins \<subseteq> live_set r" "set outs \<inter> live_set r = {}"
    "set nulls \<inter> spent_set r = {}" "spent_count r + length nulls \<le> MAX_SPENT_NULLIFIERS"
    "live_set t = live_set r - set ins \<union> set outs" "spent_set t = spent_set r \<union> set nulls"
proof -
  have ok: "transfer_checks H ins nulls outs [] r = Inr ()"
    and t: "t = insert_outputs outs (spend_inputs (zip ins nulls) r)"
    using assms by (auto simp: apply_transfer_def apply_transfer_with_proofs_def split: sum.splits)
  from ok show len: "length ins = length nulls" and "distinct ins" "distinct outs" "set ins \<subseteq> live_set r"
    "set outs \<inter> live_set r = {}" "set nulls \<inter> spent_set r = {}" "spent_count r + length nulls \<le> MAX_SPENT_NULLIFIERS"
    by (auto simp: transfer_checks_def check_outputs_ok check_inputs_ok list_ex_iff bt_contains_keys spent_count_def
        split: if_splits sum.splits)
  show "live_set t = live_set r - set ins \<union> set outs" "spent_set t = spent_set r \<union> set nulls"
    using len unfolding t insert_outputs_sets spend_inputs_sets by (simp_all flip: set_map)
qed

subsection \<open>Packing\<close>

lemma field_from_hash_from_field [simp]: "field_from_hash (hash_from_field fe) = fe"
  by (simp add: field_from_hash_def hash_from_field_def FIELD_BYTES_def from_le_bytes_le_bytes take_bit_word_eq_self)

lemma length_hash_from_field [simp]: "length (hash_from_field fe) = 32"
  by (simp add: hash_from_field_def)

lemma hash_from_field_eq_iff [simp]: "hash_from_field a = hash_from_field b \<longleftrightarrow> a = b"
  by (simp add: hash_from_field_def)

lemma is_packed_tail:
  assumes "length h = 32"
  shows "is_packed h \<longleftrightarrow> drop 8 h = replicate 24 0"
proof
  assume "is_packed h"
  then have "h ! i = 0" if "8 \<le> i" "i < 32" for i
    using that unfolding is_packed_def FIELD_BYTES_def set_upt by (meson atLeastLessThan_iff)
  then show "drop 8 h = replicate 24 0" by (intro nth_equalityI) (simp_all add: assms)
next
  assume tail: "drop 8 h = replicate 24 0"
  have "h ! i = 0" if "8 \<le> i" "i < 32" for i
    using that nth_drop [of 8 h "i - 8"] assms unfolding tail by simp
  then show "is_packed h" unfolding is_packed_def FIELD_BYTES_def set_upt by simp
qed

lemma unat_from_le_bytes:
  "8 * length bs \<le> LENGTH('a) \<Longrightarrow>
   unat (from_le_bytes bs :: 'a::len word) = foldr (\<lambda>b n. unat b + 256 * n) bs 0
   \<and> foldr (\<lambda>b n. unat b + 256 * n) bs 0 < 2 ^ (8 * length bs)"
proof (induction bs)
  case (Cons b bs)
  let ?n = "foldr (\<lambda>b n. unat b + 256 * n) bs 0" and ?v = "from_le_bytes bs :: 'a word"
  have v: "unat ?v = ?n" and n: "?n < 2 ^ (8 * length bs)" using Cons by auto
  have b: "unat b < 256" using unsigned_less [of b, where 'a = nat] by simp
  have lt: "unat b + 256 * ?n < 2 ^ (8 * length (b # bs))"
    using b n by (simp add: power_add)
  also have "\<dots> \<le> 2 ^ LENGTH('a)" using Cons.prems by (intro power_increasing) auto
  finally have fits: "unat b + 256 * ?n < 2 ^ LENGTH('a)" .
  have w: "(from_le_bytes (b # bs) :: 'a word) = of_nat (unat b + 256 * ?n)"
    unfolding v [symmetric] by (simp add: push_bit_eq_mult mult.commute)
  have "unat (of_nat (unat b + 256 * ?n) :: 'a word) = unat b + 256 * ?n"
    using fits by (simp only: unat_of_nat mod_less)
  then show ?case using lt unfolding w by simp
qed simp

lemma from_le_bytes_inj:
  assumes "(from_le_bytes as :: 'a::len word) = from_le_bytes bs" "length as = length bs" "8 * length as \<le> LENGTH('a)"
  shows "as = bs"
proof -
  have "foldr (\<lambda>b n. unat b + 256 * n) as 0 = foldr (\<lambda>b n. unat b + 256 * n) bs 0"
    using arg_cong [OF assms(1), of unat] assms(2,3) unat_from_le_bytes [where 'a = 'a] by metis
  from assms(2) this show ?thesis
  proof (induction as bs rule: list_induct2)
    case (Cons x xs y ys)
    have "unat x < 256" "unat y < 256" using unsigned_less [of x, where 'a = nat] unsigned_less [of y, where 'a = nat] by simp_all
    then have "unat x = unat y \<and> foldr (\<lambda>b n. unat b + 256 * n) xs 0 = foldr (\<lambda>b n. unat b + 256 * n) ys 0"
      using arg_cong [OF Cons.prems, of "\<lambda>n. n mod 256"] arg_cong [OF Cons.prems, of "\<lambda>n. n div 256"] by simp
    then show ?case using Cons.IH by (simp add: word_unat_eq_iff)
  qed simp
qed

lemma packed_hash_eqI:
  assumes "is_note_hash h" "is_note_hash k" "length h = 32" "length k = 32" "field_from_hash h = field_from_hash k"
  shows "h = k"
proof -
  have "take 8 h = take 8 k"
    using from_le_bytes_inj [of "take 8 h" "take 8 k", where 'a = 64] assms(3-5) by (simp add: field_from_hash_def FIELD_BYTES_def)
  moreover have "drop 8 h = drop 8 k" using assms(1-4) by (simp add: is_note_hash_def is_packed_tail)
  ultimately show ?thesis by (metis append_take_drop_id)
qed

lemma is_note_hash_from_field [simp]: "is_note_hash (hash_from_field fe) \<longleftrightarrow> fe < GOLDILOCKS_P"
  unfolding is_note_hash_def is_packed_tail [OF length_hash_from_field] is_canonical_field_def field_from_hash_from_field
  by (simp add: hash_from_field_def)

subsection \<open>Whole transactions\<close>

lemma debit_sender_ok:
  "get_or_create from s = (sender, a) \<Longrightarrow> fee \<le> acc_balance sender \<Longrightarrow> fst (debit_sender from fee a) = Inr ()"
  by (auto simp: debit_sender_def get_or_create_def Let_def bt_contains_def split: option.splits if_splits)

lemma le_sat_add: "b \<le> sat_add a b" for a b :: u64
  using unsigned_less [of b, where 'a = nat] by (simp add: word_le_nat_alt unat_sat_add)

text \<open>The registry after a transaction: what the call did to it, or what it was.\<close>

definition call_effect :: "hasher \<Rightarrow> private_call \<Rightarrow> note_registry \<Rightarrow> note_registry" where
  "call_effect H c r =
     (case c of
        PrivacyNoteInsert commitment \<Rightarrow> snd (insert_note commitment r)
      | PrivateTransferSubmit sub \<Rightarrow>
          snd (apply_transfer H (pts_spent_commitments sub) (pts_nullifiers sub) (pts_output_commitments sub) r))"

definition call_shape :: "private_call \<Rightarrow> bool" where
  "call_shape c =
     (case c of PrivacyNoteInsert commitment \<Rightarrow> is_note_hash commitment | PrivateTransferSubmit sub \<Rightarrow> submit_validate_shape sub = Inr ())"

lemma insert_note_refused: "insert_note c r = (Inl e, t) \<Longrightarrow> t = r"
  by (auto simp: insert_note_def split: if_splits)

lemma execute_private_call_registry:
  assumes "get_or_create (tx_from tx) b = (sender, a)" "tx_fee tx \<le> acc_balance sender"
    and "execute_private_call H H3 ed ml tx (r, a) = (res, t)"
  shows "if res = Inr () then call_shape (tx_type tx) \<and> fst t = call_effect H (tx_type tx) r
      \<and> (\<forall>sub. tx_type tx = PrivateTransferSubmit sub \<longrightarrow> fst (apply_transfer H (pts_spent_commitments sub)
            (pts_nullifiers sub) (pts_output_commitments sub) r) = Inr ())
    else fst t = r"
  using assms(3) debit_sender_ok [OF assms(1,2)]
  by (cases "tx_type tx")
    (auto simp: execute_private_call_def execute_note_insert_def execute_private_transfer_def call_effect_def call_shape_def
      dest: insert_note_refused transfer_refused split: if_splits sum.splits prod.splits)

lemma private_transaction_registry:
  assumes "apply_private_transaction H H3 ed ml verify tx s = (res, t)"
  shows "fst t = fst s \<and> (res = Inr () \<longrightarrow> tx_from tx = zero_address) \<or>
    res = Inr () \<and> call_shape (tx_type tx) \<and> fst t = call_effect H (tx_type tx) (fst s)
      \<and> (\<forall>sub. tx_type tx = PrivateTransferSubmit sub \<longrightarrow> fst (apply_transfer H (pts_spent_commitments sub)
            (pts_nullifiers sub) (pts_output_commitments sub) (fst s)) = Inr ())"
proof -
  obtain sender a where g: "get_or_create (tx_from tx) (snd s) = (sender, a)" by fastforce
  consider "fst t = fst s" "res = Inr () \<longrightarrow> tx_from tx = zero_address"
    | "tx_fee tx \<le> acc_balance sender" "execute_private_call H H3 ed ml tx (fst s, a) = (res, t)"
    using assms g le_sat_add [of "tx_fee tx" "tx_amount tx"]
    by (auto simp: apply_private_transaction_def not_less split: if_splits intro: order_trans)
  then show ?thesis
  proof cases
    case 2
    show ?thesis using execute_private_call_registry [OF g 2] by (auto split: if_splits)
  qed blast
qed

text \<open>Arrays have 32 bytes by their type. Between two private transactions the accounts may change in any way.\<close>

definition call_typed :: "private_call \<Rightarrow> bool" where
  "call_typed c =
     (case c of
        PrivacyNoteInsert commitment \<Rightarrow> length commitment = 32
      | PrivateTransferSubmit sub \<Rightarrow>
          (\<forall>h \<in> set (pts_spent_commitments sub @ pts_nullifiers sub @ pts_output_commitments sub). length h = 32))"

inductive note_step :: "hasher \<Rightarrow> hasher \<Rightarrow> signature_library \<Rightarrow> signature_library \<Rightarrow>
    (('a, private_call) transaction \<Rightarrow> bool) \<Rightarrow> private_state \<Rightarrow> private_state \<Rightarrow> bool"
  for H H3 ed ml verify where
  private_transaction: "call_typed (tx_type tx) \<Longrightarrow> apply_private_transaction H H3 ed ml verify tx s = (res, t) \<Longrightarrow>
    note_step H H3 ed ml verify s t"
| other_transaction: "note_step H H3 ed ml verify (r, a) (r, b)"

lemma call_effect_spent: "spent_set r \<subseteq> spent_set (call_effect H c r)"
proof (cases c)
  case (PrivateTransferSubmit sub)
  obtain res t where run: "apply_transfer H (pts_spent_commitments sub) (pts_nullifiers sub) (pts_output_commitments sub) r = (res, t)"
    by fastforce
  then show ?thesis
    using PrivateTransferSubmit transfer_accepted(9) transfer_refused by (cases res) (fastforce simp: call_effect_def)+
qed (auto simp: call_effect_def insert_note_def)

lemma note_step_spent: "note_step H H3 ed ml verify s t \<Longrightarrow> spent_set (fst s) \<subseteq> spent_set (fst t)"
proof (induction rule: note_step.induct)
  case (private_transaction tx s res t)
  then show ?case using private_transaction_registry call_effect_spent by (metis order_refl)
qed simp

lemma note_steps_spent: "(note_step H H3 ed ml verify)\<^sup>*\<^sup>* s t \<Longrightarrow> spent_set (fst s) \<subseteq> spent_set (fst t)"
  by (induction rule: rtranclp_induct) (use note_step_spent in blast)+

subsection \<open>A sample run\<close>

definition note_tx :: "private_call \<Rightarrow> (unit, private_call) transaction" where
  "note_tx c =
     \<lparr> tx_from = replicate 32 7, tx_to = zero_address, tx_amount = 0, tx_fee = 0, tx_max_fee = 0, tx_priority_fee = 0,
       tx_nonce = 0, tx_data = [], tx_timestamp = 0, tx_hash = [], tx_signature = None, tx_signer_public_key = [],
       tx_authorization = None, tx_chain_id = 45262, tx_signature_version = 4, tx_type = c \<rparr>"

abbreviation packed :: "u64 \<Rightarrow> note_hash" where
  "packed \<equiv> hash_from_field"

definition note_submit :: private_transfer_submit where
  "note_submit = \<lparr> pts_spent_commitments = [packed 1], pts_nullifiers = [packed 2], pts_output_commitments = [packed 3],
     pts_authorization_sig = replicate 64 0, pts_public_digest = compute_public_digest id [packed 2] [packed 3] \<rparr>"

abbreviation run_note :: "private_call \<Rightarrow> private_state \<Rightarrow> (exec_error, unit, private_state) outcome" where
  "run_note c \<equiv> apply_private_transaction id id (\<lambda>_ _ _. Inr ()) (\<lambda>_ _ _. Inl []) (\<lambda>_. True) (note_tx c)"

lemma note_tx_fields [simp]:
  "tx_from (note_tx c) = replicate 32 7" "tx_amount (note_tx c) = 0" "tx_fee (note_tx c) = 0" "tx_chain_id (note_tx c) = 45262"
  "tx_signature_version (note_tx c) = 4" "tx_type (note_tx c) = c"
  by (simp_all add: note_tx_def)

lemma run_note_call:
  assumes "burn_reserve_address b = None"
  obtains a where "burn_reserve_address a = None"
    "run_note c (r, b) = execute_private_call id id (\<lambda>_ _ _. Inr ()) (\<lambda>_ _ _. Inl []) (note_tx c) (r, a)"
proof -
  obtain sender a where "get_or_create (replicate 32 7) b = (sender, a)" by fastforce
  moreover from this have "burn_reserve_address a = None" using assms by (auto simp: get_or_create_def Let_def split: if_splits)
  moreover have "replicate 32 7 \<noteq> zero_address" by (simp add: zero_address_def replicate_eq_replicate)
  ultimately show ?thesis
    using that assms by (simp add: apply_private_transaction_def sat_add_def)
qed

lemma debit_nothing: "fst (debit_sender from 0 a) = Inr ()"
  by (auto simp: debit_sender_def split: prod.splits)

lemma note_submit_passes:
  "submit_validate_shape note_submit = Inr ()" "verify_digest_matches id note_submit"
  "transfer_authorized (\<lambda>_ _ _. Inr ()) ml (note_tx c) note_submit"
  by (simp_all add: submit_validate_shape_def note_submit_def verify_digest_matches_def transfer_authorized_def
      verify_signature_def MAX_PRIVATE_IO_def ED25519_AUTH_SIG_LEN_def SIGNATURE_VERSION_V5_def GOLDILOCKS_P_def)

definition note_start :: private_state where
  "note_start = (note_registry_new, sample_account_state (sample_transfer 600 (Locked 2) 2 1))"

definition note_held :: private_state where
  "note_held = snd (run_note (PrivacyNoteInsert (packed 1)) note_start)"

lemma note_inserted:
  "fst note_held = \<lparr> live_commitments = bt_insert (packed 1) () bt_empty, spent_nullifiers = bt_empty \<rparr>"
  "burn_reserve_address (snd note_held) = None"
proof -
  obtain a where a: "burn_reserve_address a = None" "run_note (PrivacyNoteInsert (packed 1)) note_start
      = execute_note_insert (note_tx (PrivacyNoteInsert (packed 1))) (packed 1) (note_registry_new, a)"
    unfolding note_start_def by (rule run_note_call [of _ "PrivacyNoteInsert (packed 1)" note_registry_new])
      (auto simp: sample_account_state_def execute_private_call_def)
  have ins: "insert_note (packed 1) note_registry_new
      = (Inr (), \<lparr> live_commitments = bt_insert (packed 1) () bt_empty, spent_nullifiers = bt_empty \<rparr>)"
    by (simp add: insert_note_def note_registry_new_def bt_contains_def bt_len_card MAX_LIVE_COMMITMENTS_def)
  have "burn_reserve_address (snd (debit_sender x 0 a)) = None" for x
    using a(1) by (auto simp: debit_sender_def get_or_create_def Let_def split: if_splits)
  then show "fst note_held = \<lparr> live_commitments = bt_insert (packed 1) () bt_empty, spent_nullifiers = bt_empty \<rparr>"
    "burn_reserve_address (snd note_held) = None"
    unfolding note_held_def a(2)
    by (simp_all add: execute_note_insert_def privacy_transfers_enabled_def GOLDILOCKS_P_def ins case_prod_unfold)
qed

lemma note_transferred: "fst (run_note (PrivateTransferSubmit note_submit) note_held) = Inr ()"
proof -
  obtain a where a: "run_note (PrivateTransferSubmit note_submit) note_held
      = execute_private_transfer id id (\<lambda>_ _ _. Inr ()) (\<lambda>_ _ _. Inl []) (note_tx (PrivateTransferSubmit note_submit)) note_submit
          (fst note_held, a)"
    using run_note_call [OF note_inserted(2), of "PrivateTransferSubmit note_submit" "fst note_held"]
    by (auto simp: execute_private_call_def)
  have "apply_transfer id [packed 1] [packed 2] [packed 3] (fst note_held) = (Inr (),
      insert_outputs [packed 3] (spend_inputs [(packed 1, packed 2)] (fst note_held)))"
    by (simp add: note_inserted apply_transfer_def apply_transfer_with_proofs_def transfer_checks_def bt_contains_def
        bt_len_card MAX_SPENT_NULLIFIERS_def)
  then show ?thesis
    unfolding a execute_private_transfer_def
    by (simp add: note_submit_passes privacy_transfers_enabled_def case_prod_unfold debit_nothing)
      (simp add: note_submit_def case_prod_unfold debit_nothing)
qed

subsection \<open>Properties\<close>

text \<open>
  C13: Once a private transfer is accepted, no later one that names any of its nullifiers is: whatever
  private and other transactions come in between, it is refused and the registry stays as it is. (A
  transaction of the zero address has no effect at all.)
\<close>

theorem nullifier_is_accepted_once:
  assumes "apply_private_transaction H H3 ed ml verify tx s = (Inr (), t)"
    and "tx_from tx \<noteq> zero_address" "tx_type tx = PrivateTransferSubmit sub"
    and "(note_step H H3 ed ml verify)\<^sup>*\<^sup>* t u"
    and "apply_private_transaction H H3 ed ml verify tx' u = (res, v)"
    and "tx_type tx' = PrivateTransferSubmit sub'" "set (pts_nullifiers sub) \<inter> set (pts_nullifiers sub') \<noteq> {}"
  shows "fst v = fst u \<and> (res = Inr () \<longrightarrow> tx_from tx' = zero_address)"
proof -
  have "apply_transfer H (pts_spent_commitments sub) (pts_nullifiers sub) (pts_output_commitments sub) (fst s) = (Inr (), fst t)"
    using private_transaction_registry [OF assms(1)] assms(2,3) by (simp add: call_effect_def prod_eq_iff)
  then have "set (pts_nullifiers sub) \<subseteq> spent_set (fst u)"
    using transfer_accepted(9) note_steps_spent [OF assms(4)] by blast
  then have "set (pts_nullifiers sub') \<inter> spent_set (fst u) \<noteq> {}" using assms(7) by blast
  then have "fst (apply_transfer H (pts_spent_commitments sub') (pts_nullifiers sub') (pts_output_commitments sub') (fst u)) \<noteq> Inr ()"
    using transfer_accepted(6) by (metis prod.collapse)
  then show ?thesis using private_transaction_registry [OF assms(5)] assms(6) by blast
qed

theorem nullifier_is_accepted_once_witness:
  "fst (run_note (PrivateTransferSubmit note_submit) note_held) = Inr ()
   \<and> fst (run_note (PrivateTransferSubmit note_submit) (snd (run_note (PrivateTransferSubmit note_submit) note_held))) \<noteq> Inr ()"
proof -
  let ?c = "PrivateTransferSubmit note_submit"
  let ?t = "snd (run_note ?c note_held)"
  have "run_note ?c note_held = (Inr (), ?t)" using note_transferred by (metis prod.collapse)
  then have "fst (run_note ?c ?t) = Inr () \<longrightarrow> replicate 32 7 = zero_address"
    using nullifier_is_accepted_once [where tx = "note_tx ?c" and tx' = "note_tx ?c" and t = ?t and u = ?t
        and res = "fst (run_note ?c ?t)" and v = "snd (run_note ?c ?t)"]
    by (simp add: zero_address_def replicate_eq_replicate note_submit_def)
  then show ?thesis using note_transferred by (simp add: zero_address_def replicate_eq_replicate)
qed

subsection \<open>The field view\<close>

definition note_inv :: "note_registry \<Rightarrow> bool" where
  "note_inv r \<longleftrightarrow> (\<forall>h \<in> live_set r \<union> spent_set r. is_note_hash h \<and> length h = 32) \<and> spent_count r \<le> MAX_SPENT_NULLIFIERS"

lemma shaped_hashes:
  "submit_validate_shape sub = Inr () \<Longrightarrow>
   h \<in> set (pts_spent_commitments sub @ pts_nullifiers sub @ pts_output_commitments sub) \<Longrightarrow> is_note_hash h"
  by (auto simp: submit_validate_shape_def list_ex_iff split: if_splits)

lemma card_spent_le: "card (spent_set r \<union> set ns) \<le> spent_count r + length ns"
  using card_Un_le [of "spent_set r" "set ns"] card_length [of ns] by (simp add: spent_count_def bt_len_card)

lemma call_effect_inv:
  assumes "note_inv r" "call_shape c" "call_typed c"
  shows "note_inv (call_effect H c r)"
proof (cases c)
  case (PrivacyNoteInsert commitment)
  then show ?thesis using assms
    by (auto simp: call_effect_def insert_note_def note_inv_def call_shape_def call_typed_def spent_count_def)
next
  case (PrivateTransferSubmit sub)
  obtain res t where run: "apply_transfer H (pts_spent_commitments sub) (pts_nullifiers sub) (pts_output_commitments sub) r = (res, t)"
    by fastforce
  show ?thesis
  proof (cases res)
    case (Inl e)
    then show ?thesis using run transfer_refused [of H _ _ _ r e t] assms(1) PrivateTransferSubmit by (auto simp: call_effect_def)
  next
    case (Inr u)
    then have ok: "apply_transfer H (pts_spent_commitments sub) (pts_nullifiers sub) (pts_output_commitments sub) r = (Inr (), t)"
      using run by simp
    have "spent_count t \<le> MAX_SPENT_NULLIFIERS"
      using transfer_accepted(7,9) [OF ok] card_spent_le [of r "pts_nullifiers sub"] by (simp add: spent_count_def bt_len_card)
    moreover have "is_note_hash h \<and> length h = 32" if "h \<in> live_set t \<union> spent_set t" for h
      using that transfer_accepted(8,9) [OF ok] assms shaped_hashes [of sub h]
      by (auto simp: PrivateTransferSubmit note_inv_def call_shape_def call_typed_def)
    ultimately show ?thesis using ok by (simp add: PrivateTransferSubmit call_effect_def note_inv_def)
  qed
qed

interpretation note_safe: inductive_invariant "\<lambda>s. fst s = note_registry_new" "note_step H H3 ed ml verify" "\<lambda>s. note_inv (fst s)"
  for H H3 ed ml verify
proof unfold_locales
  show "note_inv (fst s)" if "fst s = note_registry_new" for s :: private_state
    by (simp add: that note_inv_def note_registry_new_def spent_count_def bt_len_card)
  show "note_inv (fst t)" if "note_inv (fst s)" "note_step H H3 ed ml verify s t" for s t
    using that(2,1)
  proof (induction rule: note_step.induct)
    case (private_transaction tx s res t)
    then show ?case using private_transaction_registry [OF private_transaction(2)] call_effect_inv by metis
  qed simp
qed

lemma note_held_reached:
  "reach (\<lambda>s. fst s = note_registry_new) (note_step id id (\<lambda>_ _ _. Inr ()) (\<lambda>_ _ _. Inl []) (\<lambda>_ :: (unit, private_call) transaction. True)) note_held"
proof (rule reach_step [where s = note_start])
  show "note_step id id (\<lambda>_ _ _. Inr ()) (\<lambda>_ _ _. Inl []) (\<lambda>_ :: (unit, private_call) transaction. True) note_start note_held"
    unfolding note_held_def
    by (rule private_transaction [where tx = "note_tx (PrivacyNoteInsert (packed 1))"]) (simp add: call_typed_def, rule prod.collapse [symmetric])
qed (rule reach_init, simp add: note_start_def)

text \<open>
  C20: In every reachable state the registry of hashes and the field elements that the virtual machine
  reads from it agree: a hash of the note shape is spent, or live, exactly if some spent, or live, hash
  has its field element, and it is the packing of that element. The spent set stays within its cap.
\<close>

theorem field_view_agrees:
  assumes "reach (\<lambda>s. fst s = note_registry_new) (note_step H H3 ed ml verify) s" "is_note_hash h" "length h = 32"
  shows "(is_nullifier_spent (fst s) h \<longleftrightarrow> (\<exists>k. is_nullifier_spent (fst s) k \<and> field_from_hash k = field_from_hash h))
    \<and> (contains_commitment (fst s) h \<longleftrightarrow> (\<exists>k. contains_commitment (fst s) k \<and> field_from_hash k = field_from_hash h))
    \<and> hash_from_field (field_from_hash h) = h \<and> spent_count (fst s) \<le> MAX_SPENT_NULLIFIERS"
proof -
  have inv: "note_inv (fst s)" by (rule note_safe.inv_reach [OF assms(1)])
  have "k = h" if "k \<in> live_set (fst s) \<union> spent_set (fst s)" "field_from_hash k = field_from_hash h" for k
    using that inv packed_hash_eqI [OF _ assms(2) _ assms(3)] by (auto simp: note_inv_def)
  moreover have "hash_from_field (field_from_hash h) = h"
    using assms(2,3) by (intro packed_hash_eqI) (simp_all add: is_note_hash_def [of h] is_canonical_field_def)
  ultimately show ?thesis
    using inv unfolding is_nullifier_spent_def contains_commitment_def bt_contains_keys note_inv_def by blast
qed

theorem field_view_agrees_witness:
  "contains_commitment (fst note_held) (packed 1) \<and> \<not> (\<exists>k. contains_commitment (fst note_held) k \<and> field_from_hash k = 2)"
  using field_view_agrees [OF note_held_reached, of "packed 2"]
  by (simp add: GOLDILOCKS_P_def contains_commitment_def note_inserted bt_contains_def)

subsection \<open>Counts\<close>

text \<open>A full registry: the packings of 0 to 65535 are live.\<close>

definition full_registry :: note_registry where
  "full_registry = insert_outputs (map (\<lambda>i. packed (of_nat i)) [0..<MAX_LIVE_COMMITMENTS]) note_registry_new"

lemma full_registry_sets:
  "live_set full_registry = (\<lambda>i. packed (of_nat i)) ` {..<65536}" "spent_set full_registry = {}"
  unfolding full_registry_def insert_outputs_sets
  by (simp_all add: note_registry_new_def MAX_LIVE_COMMITMENTS_def atLeast0LessThan)

lemma packed_of_nat_eq: "m < 2 ^ 64 \<Longrightarrow> n < 2 ^ 64 \<Longrightarrow> packed (of_nat m) = packed (of_nat n) \<longleftrightarrow> m = n"
  using word_of_nat_inj [where 'a = 64] by auto

lemma full_registry_count: "live_count full_registry = MAX_LIVE_COMMITMENTS"
  unfolding live_count_def bt_len_card full_registry_sets
  by (subst card_image) (auto simp: inj_on_def packed_of_nat_eq MAX_LIVE_COMMITMENTS_def simp del: hash_from_field_eq_iff)

lemma full_registry_transfer:
  "fst (apply_transfer H [packed (of_nat 0)] [packed 9] [packed (of_nat 65536), packed (of_nat 65537)] full_registry) = Inr ()"
proof -
  have live: "packed (of_nat n) \<in> live_set full_registry \<longleftrightarrow> n < 65536" if "n < 2 ^ 64" for n
    using that unfolding full_registry_sets by (auto simp: packed_of_nat_eq simp del: hash_from_field_eq_iff)
  have "packed (of_nat 65536) \<noteq> packed (of_nat 65537)" by simp
  then show ?thesis
    unfolding apply_transfer_def apply_transfer_with_proofs_def transfer_checks_def
    using live [of 0] live [of 65536] live [of 65537] full_registry_sets(2)
    by (simp add: bt_contains_keys bt_len_card MAX_SPENT_NULLIFIERS_def)
qed



end
