(* ===== verification/Fee_Market.thy ===== *)
theory Fee_Market
  imports Registry_Params
begin

text \<open>
  The fee market of \<^verbatim>\<open>src/chain/fee_market.rs\<close>: the base fee of the next block, the effective fee of a bid and
  its distribution. The \<^verbatim>\<open>i128\<close> arithmetic of the base fee is on integers with its saturation and its overflow
  written out; overflow checks are on, so that an overflow is a panic, the value \<open>None\<close>.
\<close>

definition DEFAULT_TARGET_GAS :: u64 where "DEFAULT_TARGET_GAS = 10000000"
definition DEFAULT_BASE_FEE_MAX_CHANGE_DENOMINATOR :: u64 where "DEFAULT_BASE_FEE_MAX_CHANGE_DENOMINATOR = 8"
definition DEFAULT_ELASTICITY_MULTIPLIER :: u64 where "DEFAULT_ELASTICITY_MULTIPLIER = 2"

record fee_market_params =
  target_gas :: u64
  elasticity_multiplier :: u64
  base_fee_max_change_denominator :: u64
  min_base_fee :: u64

definition fee_market_default :: fee_market_params where
  "fee_market_default = \<lparr> target_gas = DEFAULT_TARGET_GAS, elasticity_multiplier = DEFAULT_ELASTICITY_MULTIPLIER,
     base_fee_max_change_denominator = DEFAULT_BASE_FEE_MAX_CHANGE_DENOMINATOR, min_base_fee = 0 \<rparr>"

record fee_bid =
  bid_max_fee :: u64
  bid_priority_fee :: u64

definition bid_legacy :: "u64 \<Rightarrow> fee_bid" where
  "bid_legacy fee = \<lparr> bid_max_fee = fee, bid_priority_fee = 0 \<rparr>"

record effective_fee =
  eff_base_fee_burned :: u64
  eff_priority_fee_paid :: u64

datatype fee_error = MaxFeeBelowBaseFee u64 u64 | InvalidParams | TreasuryRateAbovePpmDenominator u64

text \<open>Saturation at the bounds of \<^verbatim>\<open>i128\<close>, and its division, which rounds towards zero.\<close>

definition sat_i128 :: "int \<Rightarrow> int" where
  "sat_i128 x = max (- (2 ^ 127)) (min (2 ^ 127 - 1) x)"

definition trunc_div :: "int \<Rightarrow> int \<Rightarrow> int" where
  "trunc_div a b = (if a < 0 then - (- a div b) else a div b)"

definition next_base_fee :: "u64 \<Rightarrow> u64 \<Rightarrow> fee_market_params \<Rightarrow> u64 option" where
  "next_base_fee parent_base_fee parent_gas_used params =
     (if target_gas params = 0 \<or> base_fee_max_change_denominator params = 0
      then Some (max parent_base_fee (min_base_fee params))
      else
        let gas_limit = sat_mul (target_gas params) (max (elasticity_multiplier params) 1);
            parent_gas_used = min parent_gas_used gas_limit;
            parent = uint parent_base_fee;
            gas_delta = uint parent_gas_used - uint (target_gas params);
            denom = uint (target_gas params) * uint (base_fee_max_change_denominator params)
        in if denom > 2 ^ 127 - 1 then None
           else
             let adjustment = trunc_div (sat_i128 (parent * gas_delta)) (max denom 1);
                 next_fee = max (sat_i128 (parent + adjustment)) (uint (min_base_fee params))
             in Some (of_int (min next_fee (2 ^ 64 - 1))))"

definition effective_fee_of :: "fee_bid \<Rightarrow> u64 \<Rightarrow> fee_error + effective_fee" where
  "effective_fee_of bid block_base_fee =
     (if bid_max_fee bid < block_base_fee then Inl (MaxFeeBelowBaseFee (bid_max_fee bid) block_base_fee)
      else
        let tip_cap = sat_sub (bid_max_fee bid) block_base_fee
        in Inr \<lparr> eff_base_fee_burned = block_base_fee, eff_priority_fee_paid = min (bid_priority_fee bid) tip_cap \<rparr>)"

record fee_distribution =
  dist_base_fee_burned :: u64
  dist_priority_fee_to_proposer :: u64
  dist_treasury_fee :: u64

definition DEFAULT_TREASURY_RATE_PPM :: u64 where "DEFAULT_TREASURY_RATE_PPM = 10000"

definition distribute_fee :: "fee_bid \<Rightarrow> u64 \<Rightarrow> u64 \<Rightarrow> u64 \<Rightarrow> fee_error + fee_distribution" where
  "distribute_fee bid block_base_fee gas_used treasury_rate_ppm =
     (case effective_fee_of bid block_base_fee of
        Inl e \<Rightarrow> Inl e
      | Inr effective \<Rightarrow>
          let base_fee_burned = sat_mul block_base_fee gas_used;
              total_priority = sat_mul (eff_priority_fee_paid effective) gas_used
          in if treasury_rate_ppm > PPM_DENOMINATOR then Inl (TreasuryRateAbovePpmDenominator treasury_rate_ppm)
             else
               let treasury_fee = sat_mul total_priority treasury_rate_ppm div PPM_DENOMINATOR
               in Inr \<lparr> dist_base_fee_burned = base_fee_burned,
                        dist_priority_fee_to_proposer = sat_sub total_priority treasury_fee,
                        dist_treasury_fee = treasury_fee \<rparr>)"

subsection \<open>Properties\<close>

lemma trunc_div_bounds:
  assumes "0 < d" "0 \<le> lo" "0 \<le> hi" "- lo \<le> a" "a \<le> hi"
  shows "- (lo div d) \<le> trunc_div a d" "trunc_div a d \<le> hi div d"
proof -
  have "- a div d \<le> lo div d" "a div d \<le> hi div d" using assms(1,4,5) by (simp_all add: zdiv_mono1)
  moreover have "0 \<le> lo div d" "0 \<le> hi div d" using assms(1-3) by (simp_all add: div_int_pos_iff)
  moreover have "a < 0 \<Longrightarrow> 0 \<le> - a div d" "0 \<le> a \<Longrightarrow> 0 \<le> a div d" using assms(1) by (simp_all add: div_int_pos_iff)
  ultimately show "- (lo div d) \<le> trunc_div a d" "trunc_div a d \<le> hi div d" by (auto simp: trunc_div_def)
qed

lemma sat_i128_bounds: "lo \<le> 0 \<Longrightarrow> lo \<le> x \<Longrightarrow> lo \<le> sat_i128 x" "0 \<le> hi \<Longrightarrow> x \<le> hi \<Longrightarrow> sat_i128 x \<le> hi"
  by (auto simp: sat_i128_def)

lemma uint_sat_mul_le: "uint (sat_mul a b) \<le> uint a * uint b" for a b :: u64
proof -
  have "unat (sat_mul a b) \<le> unat a * unat b" by (simp add: unat_sat_mul)
  then have "int (unat (sat_mul a b)) \<le> int (unat a) * int (unat b)" by (metis of_nat_le_iff of_nat_mult)
  then show ?thesis by simp
qed

lemma uint_of_int_below: "0 \<le> x \<Longrightarrow> x \<le> 2 ^ 64 - 1 \<Longrightarrow> uint (of_int x :: u64) = x"
  by (simp add: uint_word_of_int)

lemma uint_u64: "0 \<le> uint w" "uint w < 2 ^ 64" for w :: u64
  using unsigned_less [of w, where 'a = int] by simp_all

text \<open>The adjustment, on integers: parent fee, gas used, target, denominator and elasticity.\<close>

lemma adjustment_bounds:
  fixes P U T D E :: int
  assumes "0 \<le> P" "0 \<le> U" "0 < T" "0 < D" "1 \<le> E" "U \<le> T * E"
  shows "- (P div D) \<le> trunc_div (sat_i128 (P * (U - T))) (T * D)"
    "trunc_div (sat_i128 (P * (U - T))) (T * D) \<le> P * (E - 1) div D"
proof -
  have TD: "0 < T * D" using assms(3,4) by simp
  have Y: "0 \<le> T * (P * (E - 1))" "0 \<le> T * P" using assms by simp_all
  have "P * (U - T) \<le> P * (T * (E - 1))" using assms by (intro mult_left_mono) (simp_all add: algebra_simps)
  then have hi: "sat_i128 (P * (U - T)) \<le> T * (P * (E - 1))" by (intro sat_i128_bounds(2) Y(1)) (simp add: mult.left_commute)
  have "P * (- T) \<le> P * (U - T)" using assms by (intro mult_left_mono) simp_all
  then have lo: "- (T * P) \<le> sat_i128 (P * (U - T))" using Y(2) by (intro sat_i128_bounds(1)) (simp_all add: mult.commute)
  show "- (P div D) \<le> trunc_div (sat_i128 (P * (U - T))) (T * D)" "trunc_div (sat_i128 (P * (U - T))) (T * D) \<le> P * (E - 1) div D"
    using trunc_div_bounds [OF TD Y(2) Y(1) lo hi] assms(3) by simp_all
qed

lemma sat_sum_bounds:
  fixes P D a hi :: int
  assumes "0 \<le> P" "P < 2 ^ 64" "0 < D" "- (P div D) \<le> a" "a \<le> hi" "0 \<le> hi"
  shows "P - P div D \<le> sat_i128 (P + a)" "sat_i128 (P + a) \<le> P + hi"
proof -
  have "0 \<le> P div D" "P div D \<le> P" using assms(1,3) zdiv_mono2 [of P 1 D] by (simp_all add: div_int_pos_iff)
  then have "P - P div D \<le> 2 ^ 127 - 1" "0 \<le> P - P div D" "P - P div D \<le> P + a" "P + a \<le> P + hi" "0 \<le> P + hi"
    using assms by simp_all
  then show "P - P div D \<le> sat_i128 (P + a)" "sat_i128 (P + a) \<le> P + hi" by (auto simp: sat_i128_def)
qed

lemma clamp_bounds:
  fixes x m lo hi :: int
  assumes "lo \<le> x" "x \<le> hi" "0 \<le> m" "m < 2 ^ 64" "lo \<le> 2 ^ 64 - 1" "f = (of_int (min (max x m) (2 ^ 64 - 1)) :: u64)"
  shows "m \<le> uint f \<and> lo \<le> uint f \<and> uint f \<le> max m hi"
proof -
  have "uint f = min (max x m) (2 ^ 64 - 1)" unfolding assms(6) using assms(3,4) by (intro uint_of_int_below) auto
  then show ?thesis using assms(1-5) by auto
qed

text \<open>
  With a denominator product that fits, the base fee is defined and not below the minimum. It falls by at
  most one part in the denominator, and rises by at most as many such parts as the elasticity exceeds one.
\<close>

theorem base_fee_moves_within_bound:
  fixes p :: u64 and params :: fee_market_params
  defines "T \<equiv> uint (target_gas params)" and "D \<equiv> uint (base_fee_max_change_denominator params)"
    and "E \<equiv> uint (max (elasticity_multiplier params) 1)" and "m \<equiv> uint (min_base_fee params)"
  assumes "target_gas params \<noteq> 0" "base_fee_max_change_denominator params \<noteq> 0" "T * D < 2 ^ 127"
  shows "\<exists>f. next_base_fee p g params = Some f \<and> m \<le> uint f \<and> uint p - uint p div D \<le> uint f
    \<and> uint f \<le> max m (uint p + uint p * (E - 1) div D)"
proof -
  let ?used = "min g (sat_mul (target_gas params) (max (elasticity_multiplier params) 1))"
  let ?adj = "trunc_div (sat_i128 (uint p * (uint ?used - T))) (T * D)"
  let ?n = "max (sat_i128 (uint p + ?adj)) m"
  have T: "0 < T" and D: "0 < D"
    using assms(5,6) uint_u64(1) [of "target_gas params"] uint_u64(1) [of "base_fee_max_change_denominator params"]
    by (simp_all add: T_def D_def less_le uint_0_iff)
  have one: "max (T * D) 1 = T * D" using mult_pos_pos [OF T D] by simp
  have E: "1 \<le> E" using max.cobounded2 [of 1 "elasticity_multiplier params"] unfolding E_def word_le_def by simp
  have "uint ?used \<le> uint (sat_mul (target_gas params) (max (elasticity_multiplier params) 1))"
    by (rule iffD1 [OF word_le_def]) (rule min.cobounded2)
  also have "\<dots> \<le> T * E" unfolding T_def E_def by (rule uint_sat_mul_le)
  finally have "uint ?used \<le> T * E" .
  note adj = adjustment_bounds [OF uint_u64(1) [of p] uint_u64(1) T D E this]
  have hi: "0 \<le> uint p * (E - 1) div D" using uint_u64(1) [of p] D E by (simp add: div_int_pos_iff)
  note sat = sat_sum_bounds [OF uint_u64 [of p] D adj hi]
  have m: "0 \<le> m" "m < 2 ^ 64" unfolding m_def by (rule uint_u64)+
  have "0 \<le> uint p div D" using uint_u64(1) [of p] D by (simp add: div_int_pos_iff)
  then have small: "uint p - uint p div D \<le> 2 ^ 64 - 1" using uint_u64(2) [of p] by linarith
  have "next_base_fee p g params = Some (of_int (min ?n (2 ^ 64 - 1)))"
    unfolding next_base_fee_def Let_def T_def [symmetric] D_def [symmetric] m_def [symmetric] one using assms(5-7) by simp
  then show ?thesis
    using clamp_bounds [OF sat m small refl] by blast
qed

text \<open>Parameters whose product passes \<^verbatim>\<open>i128\<close> are not caught by the check for zeros.\<close>

lemma base_fee_panics: "next_base_fee p g \<lparr> target_gas = - 1, elasticity_multiplier = 2,
    base_fee_max_change_denominator = - 1, min_base_fee = 0 \<rparr> = None"
  by (simp add: next_base_fee_def Let_def unsigned_minus_1_eq_mask mask_eq_exp_minus_1)

text \<open>
  Whatever is distributed adds up: the proposer and the treasury share the priority fee, and together with
  the burned base fee nobody is charged more than the bid allows.
\<close>

theorem distribution_conserves:
  assumes "distribute_fee bid base gas rate = Inr d"
  shows "unat (dist_priority_fee_to_proposer d) + unat (dist_treasury_fee d)
      = unat (sat_mul (min (bid_priority_fee bid) (bid_max_fee bid - base)) gas)
    \<and> unat (dist_base_fee_burned d) + unat (dist_priority_fee_to_proposer d) + unat (dist_treasury_fee d)
      \<le> unat (bid_max_fee bid) * unat gas"
proof -
  let ?tip = "min (bid_priority_fee bid) (bid_max_fee bid - base)" and ?pr = "sat_mul (min (bid_priority_fee bid) (bid_max_fee bid - base)) gas"
  have covered: "base \<le> bid_max_fee bid" and rate: "rate \<le> PPM_DENOMINATOR"
    and d: "d = \<lparr> dist_base_fee_burned = sat_mul base gas, dist_priority_fee_to_proposer = sat_sub ?pr (sat_mul ?pr rate div PPM_DENOMINATOR),
      dist_treasury_fee = sat_mul ?pr rate div PPM_DENOMINATOR \<rparr>"
    using assms by (auto simp: distribute_fee_def effective_fee_of_def Let_def not_less sat_sub_def split: sum.splits if_splits)
  have "unat (sat_mul ?pr rate) \<le> unat ?pr * unat rate" by (simp add: unat_sat_mul)
  also have "\<dots> \<le> unat ?pr * unat PPM_DENOMINATOR" using rate by (intro mult_le_mono2) (simp add: word_le_nat_alt)
  finally have "unat (sat_mul ?pr rate) div unat PPM_DENOMINATOR \<le> unat ?pr * unat PPM_DENOMINATOR div unat PPM_DENOMINATOR"
    by (rule div_le_mono)
  also have "\<dots> = unat ?pr" by (rule nonzero_mult_div_cancel_right) (simp add: PPM_DENOMINATOR_def)
  finally have "unat (sat_mul ?pr rate div PPM_DENOMINATOR) \<le> unat ?pr" by (simp only: unat_div_distrib)
  then have split: "unat (dist_priority_fee_to_proposer d) + unat (dist_treasury_fee d) = unat ?pr"
    by (simp add: d unat_sat_sub)
  have "unat ?tip + unat base \<le> unat (bid_max_fee bid)"
    using covered by (auto simp: min_def word_le_nat_alt unat_sub)
  then have "(unat ?tip + unat base) * unat gas \<le> unat (bid_max_fee bid) * unat gas" by (rule mult_le_mono1)
  moreover have "unat ?pr \<le> unat ?tip * unat gas" "unat (sat_mul base gas) \<le> unat base * unat gas" by (simp_all add: unat_sat_mul)
  ultimately show ?thesis using split by (simp add: d add_mult_distrib)
qed

end
