(* ===== verification/Spec2Isabelle.thy ===== *)
theory Spec2Isabelle
  imports Pipeline_Theorems Vm_Theorems Registry_Theorems Evm_Theorems Relay_Theorems Economy_Theorems
    Mempool_Theorems Governance_Theorems Note_Theorems Fee_Market
begin

text \<open>
  Budlum's cross-domain settlement core, its zero-knowledge virtual machine, its permissionless
  registry and its Ethereum bridge.

  \<^bold>\<open>The parts and how they interact.\<close> A domain locks an asset on the bridge, which announces
  the lock as an event of the domain's event tree. The relayer carries a Merkle proof of the event
  to the target domain, where the asset is minted; a burn and an unlock bring it home, and a sweep
  returns locks that expire. An observation of Ethereum is checked by the EVM adapter before the
  relayer signs it. The executor applies a relayer's result to the bridge and to the balances,
  with the fee rates of the registry and under the supply cap. The virtual machine runs contracts
  and produces the trace that is proved. The registry holds stakes and slashes them. Transactions wait
  in the mempool, which orders them for a block. Validators vote on proposals, which change the
  registry's parameters and the constitution once their timelock is over. Private transfers spend
  notes of a registry that only records commitments and nullifiers.

  \<^bold>\<open>Theories and sources\<close> (paths under \<^verbatim>\<open>src/src\<close> unless they start with
  \<^verbatim>\<open>budzero\<close>).
  \<^item> \<^verbatim>\<open>Budlum_Prelude\<close>: machine arithmetic (saturating and checked), byte encodings, the result of a
    fallible operation on mutable state, the elimination of a chain of fallible steps, and
    reachable states with the interface \<open>inductive_invariant\<close>. \<^verbatim>\<open>BTree_Map\<close>: ordered maps, with
    the interface \<open>ordered_map\<close>.
  \<^item> \<^verbatim>\<open>Field_Hash\<close>: \<^verbatim>\<open>core/hash.rs\<close>, \<^verbatim>\<open>core/money.rs\<close>. \<^verbatim>\<open>Merkle_Tree\<close>: \<^verbatim>\<open>consensus/merkle_tree.rs\<close>,
    \<^verbatim>\<open>settlement/commitment_tree.rs\<close>. \<^verbatim>\<open>Cross_Domain_Message\<close>: \<^verbatim>\<open>message.rs\<close>, \<^verbatim>\<open>event_tree.rs\<close>
    and \<^verbatim>\<open>message_registry.rs\<close> of \<^verbatim>\<open>cross_domain\<close>. \<^verbatim>\<open>Replay_Nonce\<close>: \<^verbatim>\<open>cross_domain/nonce.rs\<close>, with the
    interface \<open>replay_guard\<close>.
  \<^item> \<^verbatim>\<open>Bridge\<close>: \<^verbatim>\<open>cross_domain/bridge.rs\<close>; \<open>bridge_state\<close> is \<^verbatim>\<open>BridgeState\<close> and every method is one
    definition. \<^verbatim>\<open>Bridge_Custody\<close>, \<^verbatim>\<open>Bridge_Sweep\<close> and \<^verbatim>\<open>Bridge_Reach\<close> hold the invariant and its
    preservation, \<^verbatim>\<open>Bridge_Theorems\<close> the properties. \<^verbatim>\<open>Relayer\<close> and \<^verbatim>\<open>Bridge_Pipeline\<close> are
    \<^verbatim>\<open>cross_domain/relayer.rs\<close> and \<^verbatim>\<open>cross_domain/bridge_relayer.rs\<close>, with \<^verbatim>\<open>Pipeline_Theorems\<close>.
  \<^item> \<^verbatim>\<open>Bud_Isa\<close>: \<^verbatim>\<open>budzero/bud-isa\<close>. \<^verbatim>\<open>Goldilocks\<close>, \<^verbatim>\<open>Poseidon\<close>, \<^verbatim>\<open>Bud_Vm\<close>, \<^verbatim>\<open>Bud_Vm_Step\<close> and
    \<^verbatim>\<open>Bud_Programs\<close>: \<^verbatim>\<open>budzero/bud-vm\<close>, one definition per group of opcodes and \<open>vm_step\<close> for a whole
    step. \<^verbatim>\<open>Bud_Vm_Inv\<close> holds the invariant (with the interface \<open>metered_machine\<close> for gas) and
    \<^verbatim>\<open>Vm_Theorems\<close> the properties.
  \<^item> \<^verbatim>\<open>Registry_Params\<close>: \<^verbatim>\<open>params.rs\<close>, \<^verbatim>\<open>role.rs\<close> and \<^verbatim>\<open>evidence.rs\<close> of \<^verbatim>\<open>registry\<close>. \<^verbatim>\<open>Registry\<close>:
    \<^verbatim>\<open>registry/permissionless.rs\<close>. \<^verbatim>\<open>Registry_Inv\<close> and \<^verbatim>\<open>Registry_Theorems\<close> as above.
    \<^verbatim>\<open>Registry_Trackers\<close>: \<^verbatim>\<open>liveness.rs\<close>, \<^verbatim>\<open>invalid_vote.rs\<close> and \<^verbatim>\<open>quarantine_ledger.rs\<close>.
  \<^item> \<^verbatim>\<open>Rlp\<close>, \<^verbatim>\<open>Mpt\<close>, \<^verbatim>\<open>Evm_Finality\<close> (\<^verbatim>\<open>header.rs\<close>, \<^verbatim>\<open>sync_committee.rs\<close>) and \<^verbatim>\<open>Evm_Deposit\<close>
    (\<^verbatim>\<open>receipt.rs\<close>, \<^verbatim>\<open>verify.rs\<close>, \<^verbatim>\<open>adapter.rs\<close>, \<^verbatim>\<open>bud_to_eth.rs\<close>): \<^verbatim>\<open>cross_domain/evm\<close>.
    \<^verbatim>\<open>Chain_Adapter\<close>: \<^verbatim>\<open>cross_domain/chain_adapter.rs\<close> and the external results of
    \<^verbatim>\<open>core/transaction.rs\<close>. \<^verbatim>\<open>Evm_Sample\<close> holds an accepted deposit and attestation,
    \<^verbatim>\<open>Evm_Theorems\<close> the properties.
  \<^item> \<^verbatim>\<open>Relay_Execution\<close>: the \<^verbatim>\<open>RelayerResult\<close> branch of \<^verbatim>\<open>execution/executor.rs\<close> and the balances,
    supply cap and burns of \<^verbatim>\<open>core/account.rs\<close>, with \<^verbatim>\<open>Relay_Theorems\<close>.
  \<^item> \<^verbatim>\<open>Tokenomics\<close>: \<^verbatim>\<open>tokenomics/mod.rs\<close> and \<^verbatim>\<open>tokenomics/reward_pool.rs\<close>. \<^verbatim>\<open>Economy_Theorems\<close> holds
    the properties of rewards, burns, vesting and the trackers. \<^verbatim>\<open>Fee_Market\<close>: \<^verbatim>\<open>chain/fee_market.rs\<close>, which is not
    on the settlement path yet, with its lemmas.
  \<^item> \<^verbatim>\<open>Mempool\<close>: \<^verbatim>\<open>mempool/pool.rs\<close> and the transaction of \<^verbatim>\<open>core/transaction.rs\<close>; \<open>mempool\<close> is
    \<^verbatim>\<open>Mempool\<close> with its two indexes. \<^verbatim>\<open>Mempool_Inv\<close> and \<^verbatim>\<open>Mempool_Theorems\<close> as above.
  \<^item> \<^verbatim>\<open>Governance\<close>: \<^verbatim>\<open>core/constitution.rs\<close>, \<^verbatim>\<open>core/governance.rs\<close>, the encryption policy of
    \<^verbatim>\<open>pollen/data_rights.rs\<close>, and the governance calls of \<^verbatim>\<open>core/account.rs\<close> and
    \<^verbatim>\<open>execution/executor.rs\<close>, with \<^verbatim>\<open>Governance_Theorems\<close>.
  \<^item> \<^verbatim>\<open>Note_Registry\<close>: \<^verbatim>\<open>crates/note-packing\<close>, \<^verbatim>\<open>privacy/note_registry.rs\<close>, \<^verbatim>\<open>privacy/submit.rs\<close>, the
    transaction signature verifiers of \<^verbatim>\<open>crypto/primitives.rs\<close>, and the two private branches of
    \<^verbatim>\<open>execution/executor.rs\<close> with the checks before them, with \<^verbatim>\<open>Note_Theorems\<close>.

  \<^bold>\<open>What the lemmas show.\<close>
  \<^item> Bridge: an asset away from home is backed by exactly one live transfer, a lock is minted at most
    once, statuses only move forward, the round trip restores the locations, sweeps release exactly
    the expired locks, fees are exact, and the root binds the state.
  \<^item> Pipeline: the bridge inside it is one that bridge operations reach; a relay is delivered at most
    once and only with proof of the event, and a pending one can be delivered; refused stages roll
    back.
  \<^item> Virtual machine: runs end within their gas, traces are chained and replay to the final state,
    bounds hold in every reachable state, the Poseidon permutation is a bijection, field division is
    exact, and a membership path for the one-round Merkle opcode can be forged.
  \<^item> Registry: the slashing history is sound, slashing is final and exact, reports are judged as
    documented, unbonding pays the stake.
  \<^item> Ethereum: RLP decoding inverts encoding; an accepted observation is a confirmed deposit; block
    hash and receipt key name one deposit; an attestation has its quorum and fixes the execution
    block; a claim needs a burn; registered adapters are fit.
  \<^item> Execution: a mint is all or nothing and keeps the supply cap; a refused unlock is not rolled back.
  \<^item> Economy: an epoch pays its budget exactly, the timed burn takes what is due and nothing else, the
    genesis allocations add up to the supply, vesting is monotone, and a liveness streak is reported
    once. The base fee moves within its bounds, and a distributed fee adds up.
  \<^item> Mempool: the indexes, the byte counter and the limits agree with the pooled transactions, a block
    takes them in a canonical order, an accepted submission outbids what it displaces, and a refused
    one can still have deleted the transaction of another sender.
  \<^item> Governance: votes are decided by recorded weight, execution waits out its timelock, proposals only
    move forward, the hard guardrails stand, and an accepted parameter update can be applied.
  \<^item> Private transfers: a nullifier is accepted once, hashes and field elements agree on what is spent,
    and the counts of an accepted transfer are exact, which shows that the live set can pass its cap.

  \<^bold>\<open>Parameters.\<close> SHA-256, Keccak-256 and SHA3-256 are functions \<open>H\<close>, \<open>K\<close> and \<open>H3\<close>; where collision resistance
  matters, a theorem assumes that they do not collide on the finitely many inputs it names. The
  \<^verbatim>\<open>bincode\<close> codecs are functions, and the \<^verbatim>\<open>bls12_381\<close> arithmetic is the record \<open>bls\<close>. The Ed25519 and ML-DSA-87 libraries are functions on
  message, signature and key, \<^verbatim>\<open>Transaction::verify\<close> is a predicate, and the protobuf length of a transaction a function.

  \<^bold>\<open>Bounds.\<close> Integers have the width of the source; \<open>usize\<close> is 64 bits. The decoder of RLP recurses to
  its own \<open>MAX_DEPTH\<close> and the trie walk to \<open>MAX_WALK_DEPTH\<close>, as in the source. The loop of the virtual
  machine takes fuel; for every gas limit but the largest the remaining gas plus one is enough, as is proved. Lists
  that stand for memory objects are assumed shorter than \<open>2 ^ 64\<close> where a theorem says so.

  \<^bold>\<open>Not modelled.\<close> Networking, RPC, command lines, storage and the polling loops of the relayer worker
  are input and output. Signature and proof systems (consensus certificates, account abstraction,
  provers) rest on libraries. Not reached: the other transaction types of the executor, the rest of
  the account state, block application and snapshots, domains and storage
  deals, the external-domain verifiers, the remaining registries (identity, proof of authority), the name, social and AI registries, the BudZero compiler and state crate, and
  the file format crate. In the modelled parts, log lines are left out and the relayer's error strings
  omit the printed identifier and the serializer's message.
\<close>

text \<open>
  C40: Two messages that verify and carry the same identifier have the same content (an
  absent correlation id reads as zeros), unless SHA-256 collides on exactly the two
  encodings.
\<close>

theorem message_id_binds_content:
  assumes "verify_id H m" "verify_id H m'" "msg_id m = msg_id m'"
    and "no_collision H {message_fields m, message_fields m'}"
  shows "message_content m = message_content m'"
  using assms by (rule message_id_determines)

theorem message_id_binds_content_witness:
  "let m = message_new (\<lambda>bs. bs) \<lparr> par_source_domain = 1, par_target_domain = 2, par_source_height = 3,
         par_event_index = 0, par_nonce = 5, par_sender = [7], par_recipient = [8],
         par_payload_hash = [9], par_kind = BridgeLock, par_expiry_height = 100 \<rparr>
   in message_content m = message_content (m\<lparr> msg_correlation_id := Some (replicate 32 0) \<rparr>)"
  unfolding Let_def
  by (rule message_id_binds_content [where H = "\<lambda>bs. bs"])
    (simp_all add: verify_id_def message_new_def calculate_message_id_def message_fields_def
      no_collision_def fields_fit_def Let_def length_ascii)

end
